(* ===== verification/Prelude.thy ===== *)
theory Prelude
  imports Main "HOL-Library.Word" "HOL-Library.Monad_Syntax" "HOL-Library.Multiset"
begin

text \<open>
  Shared vocabulary of the development: the machine types of the C sources, the lemma
  collections the component theories extend, and generic facts on lists, options and words.

  A C function that may stop the process is a function into \<open>option\<close>: \<open>None\<close> means that
  the execution has no defined continuation (a failed \<^verbatim>\<open>assert\<close>, an access outside an
  object, a lock that is never released, a loop that does not end). Ordinary C failures are
  return codes inside \<open>Some\<close>. The \<open>do\<close> notation is the one of the option monad.
\<close>

type_synonym u8 = "8 word"
type_synonym u32 = "32 word"
type_synonym u64 = "64 word"
type_synonym bytes = "8 word list"

named_theorems sfs_len \<open>lengths of encoded objects and updated buffers\<close>
named_theorems sfs_bytes \<open>reading a buffer after an update\<close>
named_theorems sfs_frame \<open>parts of the state an operation leaves alone\<close>

subsection \<open>Lists\<close>

lemma find_upt_Some:
  "List.find P [a..<b] = Some i \<Longrightarrow> a \<le> i \<and> i < b \<and> P i \<and> (\<forall>j. a \<le> j \<and> j < i \<longrightarrow> \<not> P j)"
proof -
  assume f: "List.find P [a..<b] = Some i"
  then obtain n where n: "n < length [a..<b]" "P ([a..<b] ! n)" "i = [a..<b] ! n"
      and min: "\<forall>m<n. \<not> P ([a..<b] ! m)"
    by (auto simp: find_Some_iff)
  have "\<not> P j" if "a \<le> j" "j < i" for j
    using min [rule_format, of "j - a"] n that by auto
  with n show ?thesis by auto
qed

lemma find_upt_None: "List.find P [a..<b] = None \<longleftrightarrow> (\<forall>i. a \<le> i \<and> i < b \<longrightarrow> \<not> P i)"
  by (auto simp: find_None_iff)

lemma filter_map_upt_remove:
  assumes i: "a \<le> i" "i < b" and f: "P (f i)" and g: "\<not> P (g i)"
    and same: "\<And>j. a \<le> j \<Longrightarrow> j < b \<Longrightarrow> j \<noteq> i \<Longrightarrow> g j = f j"
  shows "\<exists>xs ys. filter P (map f [a..<b]) = xs @ f i # ys \<and> filter P (map g [a..<b]) = xs @ ys"
proof -
  have split: "[a..<b] = [a..<i] @ i # [Suc i..<b]"
    using i upt_add_eq_append [of a i "b - i"] by (simp add: upt_conv_Cons)
  have l: "filter P (map g [a..<i]) = filter P (map f [a..<i])"
    using i same by (intro arg_cong [where f = "filter P"] map_cong) auto
  have r: "filter P (map g [Suc i..<b]) = filter P (map f [Suc i..<b])"
    using i same by (intro arg_cong [where f = "filter P"] map_cong) auto
  show ?thesis
    unfolding split using f g l r
    by (intro exI [of _ "filter P (map f [a..<i])"] exI [of _ "filter P (map f [Suc i..<b])"]) simp
qed

subsection \<open>Words\<close>

lemma unat_eq_0_iff: "unat (w :: 'a::len word) = 0 \<longleftrightarrow> w = 0"
  by (simp add: unat_eq_zero)

lemma of_nat_unat_word [simp]: "(of_nat (unat w) :: 'a::len word) = w"
  by simp

lemma unat_of_nat_u64: "n < 2 ^ 64 \<Longrightarrow> unat (of_nat n :: u64) = n"
  by (simp add: unat_of_nat take_bit_nat_eq_self)

lemma of_nat_u64_eq: "j < 2 ^ 64 \<Longrightarrow> k < 2 ^ 64 \<Longrightarrow> (of_nat j :: u64) = of_nat k \<longleftrightarrow> j = k"
  by (metis unat_of_nat_u64)

lemma unat_of_nat_u32: "n < 2 ^ 32 \<Longrightarrow> unat (of_nat n :: u32) = n"
  by (simp add: unat_of_nat take_bit_nat_eq_self)

lemma unat_of_nat_u8: "n < 256 \<Longrightarrow> unat (of_nat n :: u8) = n"
  by (simp add: unat_of_nat take_bit_nat_eq_self)

lemma unat_u8_less: "unat (b :: u8) < 256"
  by (rule order_less_le_trans [OF unsigned_less]) simp

lemma unat_u32_less: "unat (b :: u32) < 2 ^ 32"
  by (rule order_less_le_trans [OF unsigned_less]) simp

lemma unat_u64_less: "unat (b :: u64) < 2 ^ 64"
  by (rule order_less_le_trans [OF unsigned_less]) simp

lemma unat_plus_no_overflow: "unat (a :: u64) + unat b < 2 ^ 64 \<Longrightarrow> unat (a + b) = unat a + unat b"
  by (simp add: unat_word_ariths)

lemma unat_minus_1: "(a :: u64) \<noteq> 0 \<Longrightarrow> unat (a - 1) = unat a - 1"
  using unat_minus_one by blast

end
