(* ===== verification/Bytes.thy ===== *)
theory Bytes
  imports Prelude
begin

text \<open>
  Memory as byte lists. The sources cast block buffers to arrays of \<^verbatim>\<open>uint64_t\<close> and to
  structures; here such a cast is a read or an update of a slice of a byte list, with
  integers in little-endian order (\<^verbatim>\<open>src/src/fs.h\<close> states that the disk uses the byte order
  and the word sizes of the machine that made it; the development fixes a little-endian
  machine with the natural alignment of a 64-bit ABI).
\<close>

subsection \<open>Slices\<close>

definition get_bytes :: "nat \<Rightarrow> nat \<Rightarrow> bytes \<Rightarrow> bytes" where
  "get_bytes off n bs = take n (drop off bs)"

definition put_bytes :: "nat \<Rightarrow> bytes \<Rightarrow> bytes \<Rightarrow> bytes" where
  "put_bytes off v bs = take off bs @ v @ drop (off + length v) bs"

lemma length_get_bytes [sfs_len]: "off + n \<le> length bs \<Longrightarrow> length (get_bytes off n bs) = n"
  by (simp add: get_bytes_def)

lemma length_put_bytes [sfs_len]: "off + length v \<le> length bs \<Longrightarrow> length (put_bytes off v bs) = length bs"
  by (simp add: put_bytes_def)

lemma get_put_same [sfs_bytes]:
  "length v = n \<Longrightarrow> off \<le> length bs \<Longrightarrow> get_bytes off n (put_bytes off v bs) = v"
  by (simp add: get_bytes_def put_bytes_def)

lemma nth_put_bytes:
  "off + length v \<le> length bs \<Longrightarrow> i < length bs \<Longrightarrow>
   put_bytes off v bs ! i = (if off \<le> i \<and> i < off + length v then v ! (i - off) else bs ! i)"
  by (auto simp: put_bytes_def nth_append)

lemma nth_get_bytes: "off + n \<le> length bs \<Longrightarrow> i < n \<Longrightarrow> get_bytes off n bs ! i = bs ! (off + i)"
  by (simp add: get_bytes_def)

lemma get_put_other [sfs_bytes]:
  assumes "off + length v \<le> length bs" "off' + n \<le> length bs"
    and "off' + n \<le> off \<or> off + length v \<le> off'"
  shows "get_bytes off' n (put_bytes off v bs) = get_bytes off' n bs"
proof (rule nth_equalityI)
  show "length (get_bytes off' n (put_bytes off v bs)) = length (get_bytes off' n bs)"
    using assms by (simp add: sfs_len)
next
  fix i
  assume "i < length (get_bytes off' n (put_bytes off v bs))"
  then have "i < n" by (simp add: get_bytes_def)
  with assms show "get_bytes off' n (put_bytes off v bs) ! i = get_bytes off' n bs ! i"
    by (auto simp: nth_get_bytes nth_put_bytes length_put_bytes)
qed

lemma put_get_id: "off + n \<le> length bs \<Longrightarrow> put_bytes off (get_bytes off n bs) bs = bs"
  by (auto simp: put_bytes_def get_bytes_def) (metis append_take_drop_id drop_drop add.commute)

lemma get_bytes_replicate [simp]: "off + n \<le> m \<Longrightarrow> get_bytes off n (replicate m b) = replicate n b"
  by (simp add: get_bytes_def min_def)

lemma get_bytes_append1: "off + n \<le> length xs \<Longrightarrow> get_bytes off n (xs @ ys) = get_bytes off n xs"
  by (simp add: get_bytes_def)

lemma get_bytes_append2: "length xs \<le> off \<Longrightarrow> get_bytes off n (xs @ ys) = get_bytes (off - length xs) n ys"
  by (simp add: get_bytes_def)

lemma get_bytes_all: "length xs = n \<Longrightarrow> get_bytes 0 n xs = xs"
  by (simp add: get_bytes_def)

subsection \<open>Little-endian integers\<close>

fun le_nat :: "bytes \<Rightarrow> nat" where
  "le_nat [] = 0"
| "le_nat (b # bs) = unat b + 256 * le_nat bs"

fun to_le :: "nat \<Rightarrow> nat \<Rightarrow> bytes" where
  "to_le 0 k = []"
| "to_le (Suc n) k = of_nat (k mod 256) # to_le n (k div 256)"

lemma length_to_le [simp, sfs_len]: "length (to_le n k) = n"
  by (induction n arbitrary: k) auto

lemma le_nat_to_le: "le_nat (to_le n k) = k mod 256 ^ n"
proof (induction n arbitrary: k)
  case 0
  show ?case by simp
next
  case (Suc n)
  have "le_nat (to_le (Suc n) k) = k mod 256 + 256 * (k div 256 mod 256 ^ n)"
    by (simp add: Suc unat_of_nat_u8 del: of_nat_mod)
  also have "\<dots> = k mod 256 ^ Suc n"
    by (simp add: mod_mult2_eq)
  finally show ?case .
qed

lemma le_nat_less: "le_nat bs < 256 ^ length bs"
proof (induction bs)
  case Nil
  show ?case by simp
next
  case (Cons b bs)
  then have "1 + le_nat bs \<le> 256 ^ length bs" by simp
  then have "256 * (1 + le_nat bs) \<le> 256 * 256 ^ length bs" by (rule mult_le_mono2)
  with unat_u8_less [of b] show ?case by (simp add: algebra_simps)
qed

lemma to_le_le_nat: "to_le (length bs) (le_nat bs) = bs"
proof (induction bs)
  case Nil
  show ?case by simp
next
  case (Cons b bs)
  with unat_u8_less [of b] show ?case
    by (simp add: div_add1_eq mod_add_eq)
qed

lemma le_nat_replicate_0 [simp]: "le_nat (replicate n 0) = 0"
  by (induction n) auto

lemma to_le_0 [simp]: "to_le n 0 = replicate n 0"
  by (induction n) auto

definition enc32 :: "u32 \<Rightarrow> bytes" where
  "enc32 w = to_le 4 (unat w)"

definition enc64 :: "u64 \<Rightarrow> bytes" where
  "enc64 w = to_le 8 (unat w)"

definition dec32 :: "bytes \<Rightarrow> u32" where
  "dec32 bs = of_nat (le_nat bs)"

definition dec64 :: "bytes \<Rightarrow> u64" where
  "dec64 bs = of_nat (le_nat bs)"

lemma length_enc [simp, sfs_len]: "length (enc32 a) = 4" "length (enc64 b) = 8"
  by (simp_all add: enc32_def enc64_def)

lemma dec_enc [simp]: "dec32 (enc32 a) = a" "dec64 (enc64 b) = b"
  using unat_u32_less [of a] unat_u64_less [of b]
  by (simp_all add: dec32_def enc32_def dec64_def enc64_def le_nat_to_le)

lemma enc64_dec64: "length bs = 8 \<Longrightarrow> enc64 (dec64 bs) = bs"
  using le_nat_less [of bs] to_le_le_nat [of bs]
  by (simp add: enc64_def dec64_def unat_of_nat_u64)

lemma enc32_dec32: "length bs = 4 \<Longrightarrow> enc32 (dec32 bs) = bs"
  using le_nat_less [of bs] to_le_le_nat [of bs]
  by (simp add: enc32_def dec32_def unat_of_nat_u32)

lemma dec64_zero [simp]: "dec64 (replicate n 0) = 0"
  by (simp add: dec64_def)

lemma dec32_zero [simp]: "dec32 (replicate n 0) = 0"
  by (simp add: dec32_def)

subsection \<open>Arrays of 64-bit integers\<close>

definition get_u64 :: "nat \<Rightarrow> bytes \<Rightarrow> u64" where
  "get_u64 i bs = dec64 (get_bytes (8 * i) 8 bs)"

definition put_u64 :: "nat \<Rightarrow> u64 \<Rightarrow> bytes \<Rightarrow> bytes" where
  "put_u64 i v bs = put_bytes (8 * i) (enc64 v) bs"

lemma length_put_u64 [simp, sfs_len]: "8 * i + 8 \<le> length bs \<Longrightarrow> length (put_u64 i v bs) = length bs"
  by (simp add: put_u64_def length_put_bytes)

lemma get_put_u64 [sfs_bytes]:
  "8 * i + 8 \<le> length bs \<Longrightarrow> 8 * j + 8 \<le> length bs \<Longrightarrow>
   get_u64 j (put_u64 i v bs) = (if i = j then v else get_u64 j bs)"
proof -
  assume a: "8 * i + 8 \<le> length bs" "8 * j + 8 \<le> length bs"
  show ?thesis
  proof (cases "i = j")
    case True
    with a show ?thesis by (simp add: get_u64_def put_u64_def get_put_same)
  next
    case False
    then have "8 * j + 8 \<le> 8 * i \<or> 8 * i + 8 \<le> 8 * j" by arith
    with a False show ?thesis
      by (auto simp: get_u64_def put_u64_def get_put_other)
  qed
qed

lemma get_u64_replicate_0: "8 * i + 8 \<le> m \<Longrightarrow> get_u64 i (replicate m 0) = 0"
  by (simp add: get_u64_def)

text \<open>A concatenation of encoded integers is an array.\<close>

lemma length_concat_enc64 [sfs_len]: "length (concat (map enc64 vs)) = 8 * length vs"
  by (induction vs) auto

lemma get_u64_concat: "i < length vs \<Longrightarrow> get_u64 i (concat (map enc64 vs)) = vs ! i"
proof (induction vs arbitrary: i)
  case Nil
  then show ?case by simp
next
  case (Cons v vs)
  show ?case
  proof (cases i)
    case 0
    then show ?thesis by (simp add: get_u64_def get_bytes_def)
  next
    case (Suc k)
    have "get_u64 i (concat (map enc64 (v # vs))) = get_u64 k (concat (map enc64 vs))"
      by (simp add: Suc get_u64_def get_bytes_append2)
    with Cons Suc show ?thesis by simp
  qed
qed

end
