(* ===== verification/Keyed_Store.thy ===== *)
theory Keyed_Store
  imports Prelude
begin

text \<open>
  The contract of a store of values under keys, which the layers of the program give each other: the blocks of the
  disk, the inodes of a block, the inodes of the table behind its cache. A client sees a function from keys to
  values; that any sequence of accesses acts on this function and on nothing else is proved here once.
\<close>

datatype ('k, 'v) access = Fetch 'k | Assign 'k 'v

text \<open>A sequence of accesses, with the values it reads, on a store and on a function.\<close>

fun accesses :: "('s \<Rightarrow> 'k \<Rightarrow> ('v \<times> 's) option) \<Rightarrow> ('s \<Rightarrow> 'k \<Rightarrow> 'v \<Rightarrow> 's option) \<Rightarrow> 's \<Rightarrow> ('k, 'v) access list \<Rightarrow> ('v list \<times> 's) option" where
  "accesses fetch assign s [] = Some ([], s)"
| "accesses fetch assign s (Fetch k # as) = do { (v, s) \<leftarrow> fetch s k; (vs, s) \<leftarrow> accesses fetch assign s as; Some (v # vs, s) }"
| "accesses fetch assign s (Assign k v # as) = do { s \<leftarrow> assign s k v; accesses fetch assign s as }"

fun values_read :: "('k \<Rightarrow> 'v) \<Rightarrow> ('k, 'v) access list \<Rightarrow> 'v list" where
  "values_read m [] = []"
| "values_read m (Fetch k # as) = m k # values_read m as"
| "values_read m (Assign k v # as) = values_read (m(k := v)) as"

fun assigned :: "('k \<Rightarrow> 'v) \<Rightarrow> ('k, 'v) access list \<Rightarrow> 'k \<Rightarrow> 'v" where
  "assigned m [] = m"
| "assigned m (Fetch k # as) = assigned m as"
| "assigned m (Assign k v # as) = assigned (m(k := v)) as"

fun access_key :: "('k, 'v) access \<Rightarrow> 'k" where
  "access_key (Fetch k) = k"
| "access_key (Assign k v) = k"

fun proper_access :: "('k \<Rightarrow> 'v \<Rightarrow> bool) \<Rightarrow> ('k, 'v) access \<Rightarrow> bool" where
  "proper_access fit (Fetch k) \<longleftrightarrow> True"
| "proper_access fit (Assign k v) \<longleftrightarrow> fit k v"

text \<open>What is assigned to a key last is what it holds; keys that are not assigned to keep their value.\<close>

lemma assigned_other: "\<forall>a\<in>set as. access_key a \<noteq> k \<or> (\<exists>j. a = Fetch j) \<Longrightarrow> assigned m as k = m k"
proof (induction as arbitrary: m)
  case (Cons a as)
  then show ?case by (cases a) auto
qed simp

lemma values_read_cong:
  assumes "\<And>k. P k \<Longrightarrow> m k = m' k" "\<forall>a\<in>set as. P (access_key a)"
  shows "values_read m as = values_read m' as \<and> (\<forall>k. P k \<longrightarrow> assigned m as k = assigned m' as k)"
  using assms
proof (induction as arbitrary: m m')
  case (Cons a as)
  show ?case
  proof (cases a)
    case (Fetch k)
    then show ?thesis using Cons.IH [OF Cons.prems(1)] Cons.prems by simp
  next
    case (Assign k v)
    have "(m(k := v)) j = (m'(k := v)) j" if "P j" for j using Cons.prems(1) [OF that] by simp
    then show ?thesis using Cons.IH [of "m(k := v)" "m'(k := v)"] Cons.prems(2) Assign by (simp del: fun_upd_apply)
  qed
qed simp

locale keyed_store =
  fixes inv :: "'s \<Rightarrow> bool"
    and valid :: "'s \<Rightarrow> 'k \<Rightarrow> bool"
    and fit :: "'k \<Rightarrow> 'v \<Rightarrow> bool"
    and look :: "'s \<Rightarrow> 'k \<Rightarrow> 'v"
    and rest :: "'s \<Rightarrow> 'r"
    and fetch :: "'s \<Rightarrow> 'k \<Rightarrow> ('v \<times> 's) option"
    and assign :: "'s \<Rightarrow> 'k \<Rightarrow> 'v \<Rightarrow> 's option"
  assumes fetch_spec: "inv s \<Longrightarrow> valid s k \<Longrightarrow>
      \<exists>s'. fetch s k = Some (look s k, s') \<and> inv s' \<and> valid s' = valid s \<and> rest s' = rest s \<and>
        (\<forall>j. valid s j \<longrightarrow> look s' j = look s j)"
    and assign_spec: "inv s \<Longrightarrow> valid s k \<Longrightarrow> fit k v \<Longrightarrow>
      \<exists>s'. assign s k v = Some s' \<and> inv s' \<and> valid s' = valid s \<and> rest s' = rest s \<and>
        (\<forall>j. valid s j \<longrightarrow> look s' j = (if j = k then v else look s j))"
begin

lemma accesses_ok:
  assumes "inv s" "\<forall>a\<in>set as. valid s (access_key a) \<and> proper_access fit a"
  shows "\<exists>s'. accesses fetch assign s as = Some (values_read (look s) as, s') \<and> inv s' \<and> valid s' = valid s \<and> rest s' = rest s \<and>
    (\<forall>k. valid s k \<longrightarrow> look s' k = assigned (look s) as k)"
  using assms
proof (induction as arbitrary: s)
  case Nil
  then show ?case by simp
next
  case (Cons a as)
  have key: "\<forall>b\<in>set as. valid s (access_key b)" using Cons.prems(2) by simp
  show ?case
  proof (cases a)
    case (Fetch k)
    then obtain s1 where 1: "fetch s k = Some (look s k, s1)" "inv s1" "valid s1 = valid s" "rest s1 = rest s"
      "\<And>j. valid s j \<Longrightarrow> look s1 j = look s j"
      using fetch_spec [of s k] Cons.prems by auto
    obtain s2 where "accesses fetch assign s1 as = Some (values_read (look s1) as, s2)" "inv s2" "valid s2 = valid s1" "rest s2 = rest s1"
      "\<forall>k. valid s1 k \<longrightarrow> look s2 k = assigned (look s1) as k"
      using Cons.IH [OF 1(2)] Cons.prems(2) 1(3) by auto
    then show ?thesis using 1 Fetch values_read_cong [of "valid s" "look s1" "look s" as, OF _ key] by simp
  next
    case (Assign k v)
    then obtain s1 where 1: "assign s k v = Some s1" "inv s1" "valid s1 = valid s" "rest s1 = rest s"
      "\<And>j. valid s j \<Longrightarrow> look s1 j = ((look s)(k := v)) j"
      using assign_spec [of s k v] Cons.prems by auto
    obtain s2 where "accesses fetch assign s1 as = Some (values_read (look s1) as, s2)" "inv s2" "valid s2 = valid s1" "rest s2 = rest s1"
      "\<forall>k. valid s1 k \<longrightarrow> look s2 k = assigned (look s1) as k"
      using Cons.IH [OF 1(2)] Cons.prems(2) 1(3) by auto
    then show ?thesis using 1 Assign values_read_cong [of "valid s" "look s1" "(look s)(k := v)" as, OF _ key] by simp
  qed
qed

text \<open>A value stays until its key is assigned to again.\<close>

lemma fetch_assigned:
  assumes "inv s" "valid s k" "fit k v" "\<forall>a\<in>set as. valid s (access_key a) \<and> proper_access fit a"
    and "\<forall>a\<in>set as. access_key a \<noteq> k \<or> (\<exists>j. a = Fetch j)"
  shows "\<exists>vs s1 s2. accesses fetch assign s (Assign k v # as) = Some (vs, s1) \<and> fetch s1 k = Some (v, s2)"
proof -
  obtain s1 where "accesses fetch assign s (Assign k v # as) = Some (values_read (look s) (Assign k v # as), s1)"
    "inv s1" "valid s1 = valid s" "\<forall>j. valid s j \<longrightarrow> look s1 j = assigned (look s) (Assign k v # as) j"
    using accesses_ok [of s "Assign k v # as"] assms(1-4) by auto
  moreover then have "look s1 k = v" using assms(2,5) by (simp add: assigned_other)
  ultimately show ?thesis using fetch_spec [of s1 k] assms(2) by auto
qed

end

end
