(* ===== verification/Block.thy ===== *)
theory Block
  imports Bytes Keyed_Store
begin

text \<open>
  The block layer, \<^verbatim>\<open>src/src/block.c\<close>, over a model of the open disk file.

  All positional I/O of the program moves whole blocks at block-aligned offsets, so the
  contents of the file are kept by block (\<open>file_blocks\<close>) together with its length in bytes
  (\<open>file_size\<close>). The outcome of each call is decided by the environment: \<open>io_plan n\<close> is what
  the \<open>n\<close>-th call of \<^verbatim>\<open>pread\<close>/\<^verbatim>\<open>pwrite\<close> does (the full transfer, a short one, an error), and
  \<open>clock n\<close> is what the \<open>n\<close>-th call of \<^verbatim>\<open>time(NULL)\<close> returns. Both are arbitrary functions, so
  every pattern of failures and every clock is covered.
\<close>

abbreviation BLOCK_SIZE :: nat where
  "BLOCK_SIZE \<equiv> 512"

datatype io_outcome = Io_Full | Io_Short nat | Io_Error

record os =
  file_blocks :: "nat \<Rightarrow> bytes"
  file_size :: nat
  io_plan :: "nat \<Rightarrow> io_outcome"
  io_done :: nat
  clock :: "nat \<Rightarrow> u64"
  clock_reads :: nat

definition zero_block :: bytes where
  "zero_block = replicate BLOCK_SIZE 0"

lemma length_zero_block [simp, sfs_len]: "length zero_block = BLOCK_SIZE"
  by (simp add: zero_block_def)

lemma get_u64_zero_block [simp]: "i < 64 \<Longrightarrow> get_u64 i zero_block = 0"
  by (simp add: zero_block_def get_u64_replicate_0)

text \<open>\<open>advance\<close> accounts for one call of \<^verbatim>\<open>pread\<close> or \<^verbatim>\<open>pwrite\<close>.\<close>

definition advance :: "os \<Rightarrow> os" where
  "advance d = d\<lparr>io_done := Suc (io_done d)\<rparr>"

definition transfer :: "os \<Rightarrow> nat \<Rightarrow> int" where
  "transfer d avail =
     (case io_plan d (io_done d) of
        Io_Full \<Rightarrow> int avail
      | Io_Short k \<Rightarrow> int (min k avail)
      | Io_Error \<Rightarrow> -1)"

text \<open>
  \<^verbatim>\<open>pread(fd, buf, BLOCK_SIZE, off)\<close> and \<^verbatim>\<open>pwrite(fd, buf, BLOCK_SIZE, off)\<close>. The offset arrives
  as an \<^verbatim>\<open>off_t\<close>: a value whose top bit is set is negative and is refused. A read moves what
  the file has there and leaves the rest of the buffer alone; a write extends the file, and one behind
  its end makes the bytes in between zero.
\<close>

definition pread :: "os \<Rightarrow> u64 \<Rightarrow> bytes \<Rightarrow> int \<times> bytes \<times> os" where
  "pread d off buf =
     (let r = (if sint off < 0 then -1
               else transfer d (min BLOCK_SIZE (file_size d - unat off)))
      in (r, take (nat r) (file_blocks d (unat off div BLOCK_SIZE)) @ drop (nat r) buf, advance d))"

definition zero_gap :: "os \<Rightarrow> nat \<Rightarrow> nat \<Rightarrow> bytes" where
  "zero_gap d off c =
     (if file_size d < off \<and> BLOCK_SIZE * c < off
      then let k = file_size d - BLOCK_SIZE * c
           in take k (file_blocks d c) @ replicate (BLOCK_SIZE - k) 0
      else file_blocks d c)"

definition pwrite :: "os \<Rightarrow> u64 \<Rightarrow> bytes \<Rightarrow> int \<times> os" where
  "pwrite d off buf =
     (let r = (if sint off < 0 then -1 else transfer d BLOCK_SIZE);
          b = unat off div BLOCK_SIZE
      in (r, advance (if r \<le> 0 then d
                      else d\<lparr>file_blocks := (zero_gap d (unat off))
                               (b := take (nat r) buf @ drop (nat r) (file_blocks d b)),
                             file_size := max (file_size d) (unat off + nat r)\<rparr>)))"

definition block_read :: "os \<Rightarrow> u64 \<Rightarrow> bytes \<Rightarrow> int \<times> bytes \<times> os" where
  "block_read d block_num block =
     (let (ret, block, d) = pread d (block_num * 512) block
      in if ret \<le> 0 then (ret, zero_block, d) else (ret, block, d))"

definition block_write :: "os \<Rightarrow> u64 \<Rightarrow> bytes \<Rightarrow> int \<times> os" where
  "block_write d block_num block = pwrite d (block_num * 512) block"

text \<open>\<^verbatim>\<open>time(NULL)\<close>.\<close>

definition time :: "os \<Rightarrow> u64 \<times> os" where
  "time d = (clock d (clock_reads d), d\<lparr>clock_reads := Suc (clock_reads d)\<rparr>)"

subsection \<open>The healthy disk\<close>

definition wf_os :: "os \<Rightarrow> bool" where
  "wf_os d \<longleftrightarrow> (\<forall>b. length (file_blocks d b) = BLOCK_SIZE)"

definition no_faults :: "os \<Rightarrow> bool" where
  "no_faults d \<longleftrightarrow> (\<forall>n. io_plan d n = Io_Full)"

definition in_file :: "os \<Rightarrow> u64 \<Rightarrow> bool" where
  "in_file d b \<longleftrightarrow> unat b < 2 ^ 54 \<and> BLOCK_SIZE * unat b + BLOCK_SIZE \<le> file_size d"

definition store :: "os \<Rightarrow> u64 \<Rightarrow> bytes \<Rightarrow> os" where
  "store d b v = advance (d\<lparr>file_blocks := (file_blocks d)(unat b := v)\<rparr>)"

lemma zero_gap_none [simp]: "off \<le> file_size d \<Longrightarrow> zero_gap d off = file_blocks d"
  by (simp add: zero_gap_def fun_eq_iff)

lemma length_zero_gap [simp]: "wf_os d \<Longrightarrow> length (zero_gap d off c) = BLOCK_SIZE"
  by (auto simp: zero_gap_def wf_os_def Let_def min_def)

lemma unat_block_offset: "unat b < 2 ^ 54 \<Longrightarrow> unat (b * 512 :: u64) = BLOCK_SIZE * unat b"
  by (simp add: unat_word_ariths)

lemma sint_block_offset: "unat b < 2 ^ 54 \<Longrightarrow> \<not> sint (b * 512 :: u64) < 0"
proof -
  assume b: "unat b < 2 ^ 54"
  have "int (unat (b * 512 :: u64)) < 2 ^ 63"
    using b unat_block_offset [OF b] by (simp del: of_nat_unat)
  then have "uint (b * 512 :: u64) < 2 ^ 63" by simp
  then have "sint (b * 512 :: u64) = uint (b * 512)"
    by (simp add: sint_uint signed_take_bit_int_eq_self_iff order_trans [of _ 0])
  then show ?thesis by simp
qed

lemma advance_frame [simp, sfs_frame]:
  "file_blocks (advance d) = file_blocks d" "file_size (advance d) = file_size d"
  "io_plan (advance d) = io_plan d" "clock (advance d) = clock d"
  "clock_reads (advance d) = clock_reads d"
  by (simp_all add: advance_def)

lemma store_frame [simp, sfs_frame]:
  "file_blocks (store d b v) = (file_blocks d)(unat b := v)"
  "file_size (store d b v) = file_size d" "io_plan (store d b v) = io_plan d"
  by (simp_all add: store_def)

lemma time_frame [simp, sfs_frame]:
  "file_blocks (snd (time d)) = file_blocks d" "file_size (snd (time d)) = file_size d"
  "io_plan (snd (time d)) = io_plan d"
  by (simp_all add: time_def)

lemma wf_os_length [simp, sfs_len]: "wf_os d \<Longrightarrow> length (file_blocks d b) = BLOCK_SIZE"
  by (simp add: wf_os_def)

lemma os_preds_advance [simp]:
  "wf_os (advance d) = wf_os d" "no_faults (advance d) = no_faults d"
  "in_file (advance d) b = in_file d b"
  by (simp_all add: wf_os_def no_faults_def in_file_def)

lemma os_preds_time [simp]:
  "wf_os (snd (time d)) = wf_os d" "no_faults (snd (time d)) = no_faults d"
  "in_file (snd (time d)) b = in_file d b"
  by (simp_all add: wf_os_def no_faults_def in_file_def)

lemma os_preds_store [simp]:
  "no_faults (store d b v) = no_faults d" "in_file (store d b v) c = in_file d c"
  by (simp_all add: no_faults_def in_file_def)

lemma wf_os_store [simp]: "wf_os d \<Longrightarrow> length v = BLOCK_SIZE \<Longrightarrow> wf_os (store d b v)"
  by (simp add: wf_os_def)

lemma block_read_ok:
  assumes "wf_os d" "no_faults d" "in_file d b" "length buf = BLOCK_SIZE"
  shows "block_read d b buf = (512, file_blocks d (unat b), advance d)"
  using assms unat_block_offset [of b] sint_block_offset [of b]
  by (auto simp: block_read_def pread_def transfer_def no_faults_def in_file_def Let_def min_def)

lemma block_write_ok:
  assumes "wf_os d" "no_faults d" "in_file d b" "length v = BLOCK_SIZE"
  shows "block_write d b v = (512, store d b v)"
proof -
  from assms have "max (file_size d) (BLOCK_SIZE * unat b + BLOCK_SIZE) = file_size d"
    by (simp add: in_file_def)
  with assms unat_block_offset [of b] sint_block_offset [of b] show ?thesis
    by (simp add: block_write_def pwrite_def transfer_def no_faults_def in_file_def Let_def store_def)
qed

text \<open>
  The contract of \<^verbatim>\<open>block_read\<close> under every failure: it returns at most 512, the buffer keeps its length, it is zeroed
  when the result is not positive, and the disk keeps its contents.
\<close>

lemma block_read_contract:
  assumes "wf_os d" and "length buf = BLOCK_SIZE" and "block_read d b buf = (r, out, d')"
  shows "r \<le> 512 \<and> length out = BLOCK_SIZE \<and> (r \<le> 0 \<longrightarrow> out = zero_block) \<and>
    file_blocks d' = file_blocks d \<and> file_size d' = file_size d"
  using assms
  by (auto simp: block_read_def pread_def transfer_def Let_def split: if_splits io_outcome.splits)

text \<open>The blocks of a disk that works are a store, of which the length of the file is no part.\<close>

definition disk_fetch :: "os \<Rightarrow> u64 \<Rightarrow> (bytes \<times> os) option" where
  "disk_fetch d b = (let (r, v, d) = block_read d b zero_block in if r = 512 then Some (v, d) else None)"

definition disk_assign :: "os \<Rightarrow> u64 \<Rightarrow> bytes \<Rightarrow> os option" where
  "disk_assign d b v = (let (r, d) = block_write d b v in if r = 512 then Some d else None)"

interpretation disk_blocks: keyed_store "\<lambda>d. wf_os d \<and> no_faults d" in_file "\<lambda>_ v. length v = BLOCK_SIZE"
  "\<lambda>d b. file_blocks d (unat b)" file_size disk_fetch disk_assign
proof unfold_locales
  fix d k assume "wf_os d \<and> no_faults d" "in_file d k"
  then show "\<exists>d'. disk_fetch d k = Some (file_blocks d (unat k), d') \<and> (wf_os d' \<and> no_faults d') \<and> in_file d' = in_file d \<and>
      file_size d' = file_size d \<and> (\<forall>j. in_file d j \<longrightarrow> file_blocks d' (unat j) = file_blocks d (unat j))"
    by (intro exI [of _ "advance d"]) (simp add: disk_fetch_def block_read_ok fun_eq_iff)
next
  fix d k v assume "wf_os d \<and> no_faults d" "in_file d k" "length (v :: bytes) = BLOCK_SIZE"
  then show "\<exists>d'. disk_assign d k v = Some d' \<and> (wf_os d' \<and> no_faults d') \<and> in_file d' = in_file d \<and>
      file_size d' = file_size d \<and> (\<forall>j. in_file d j \<longrightarrow> file_blocks d' (unat j) = (if j = k then v else file_blocks d (unat j)))"
    by (intro exI [of _ "store d k v"]) (simp add: disk_assign_def block_write_ok fun_eq_iff flip: word_unat_eq_iff)
qed

end
