(* ===== verification/Layout.thy ===== *)
theory Layout
  imports Block
begin

text \<open>
  The structures on disk, \<^verbatim>\<open>src/src/fs.h\<close> and \<^verbatim>\<open>struct sfs_dir_entry\<close> of \<^verbatim>\<open>src/src/dir.h\<close>, with
  their byte layout. A cast of a block buffer to one of them followed by a field access is a
  decoding of a slice of the buffer; an assignment of a whole structure is the update of that
  slice. Decoding inverts encoding and encoding inverts decoding.
\<close>

subsection \<open>Constants of the headers\<close>

definition SFS_FILE_TYPE_SIGNATURE :: bytes where
  "SFS_FILE_TYPE_SIGNATURE = [83, 70, 83, 95, 73, 83, 95, 84, 72, 69, 95, 66, 69, 83, 84, 0]"

lemma length_signature [simp]: "length SFS_FILE_TYPE_SIGNATURE = 16"
  by (simp add: SFS_FILE_TYPE_SIGNATURE_def)

abbreviation SFS_NDIR_BLOCKS :: nat where "SFS_NDIR_BLOCKS \<equiv> 12"
abbreviation SFS_IND_BLOCK :: nat where "SFS_IND_BLOCK \<equiv> 12"
abbreviation SFS_NIND_BLOCKS :: nat where "SFS_NIND_BLOCKS \<equiv> 64"
abbreviation SFS_N_BLOCKS :: nat where "SFS_N_BLOCKS \<equiv> 14"

text \<open>\<^verbatim>\<open>S_IFDIR\<close>, \<^verbatim>\<open>S_IFREG\<close>, \<^verbatim>\<open>S_ISGID\<close> and the permission bits of \<^verbatim>\<open><sys/stat.h>\<close>.\<close>

abbreviation S_IFMT :: u32 where "S_IFMT \<equiv> 0xF000"
abbreviation S_IFDIR :: u32 where "S_IFDIR \<equiv> 0x4000"
abbreviation S_IFREG :: u32 where "S_IFREG \<equiv> 0x8000"
abbreviation S_ISGID :: u32 where "S_ISGID \<equiv> 0x400"

subsection \<open>Superblock\<close>

record sfs_fs_superblock =
  signature :: bytes
  create_time :: u64
  block_size :: u64
  inode_table_blocks :: u64
  inodes :: u64
  blocks :: u64
  free_blocks_head :: u64
  free_inode_head :: u64

definition encode_superblock :: "sfs_fs_superblock \<Rightarrow> bytes" where
  "encode_superblock s =
     signature s @ concat (map enc64 [create_time s, block_size s, inode_table_blocks s, inodes s,
       blocks s, free_blocks_head s, free_inode_head s])"

definition decode_superblock :: "bytes \<Rightarrow> sfs_fs_superblock" where
  "decode_superblock bs =
     \<lparr>signature = get_bytes 0 16 bs, create_time = get_u64 2 bs, block_size = get_u64 3 bs,
      inode_table_blocks = get_u64 4 bs, inodes = get_u64 5 bs, blocks = get_u64 6 bs,
      free_blocks_head = get_u64 7 bs, free_inode_head = get_u64 8 bs\<rparr>"

lemma length_encode_superblock [sfs_len]:
  "length (signature s) = 16 \<Longrightarrow> length (encode_superblock s) = 72"
  by (simp add: encode_superblock_def)

lemma get_u64_skip: "length xs = 8 * k \<Longrightarrow> k \<le> i \<Longrightarrow> get_u64 i (xs @ ys) = get_u64 (i - k) ys"
  by (simp add: get_u64_def get_bytes_append2 diff_mult_distrib2)

lemma get_u64_left: "8 * i + 8 \<le> length xs \<Longrightarrow> get_u64 i (xs @ ys) = get_u64 i xs"
  by (simp add: get_u64_def get_bytes_append1)

lemma get_u64_hd [simp]: "get_u64 0 (enc64 v @ ys) = v"
  by (simp add: get_u64_def get_bytes_def)

lemma get_u64_tl [simp]: "0 < i \<Longrightarrow> get_u64 i (enc64 v @ ys) = get_u64 (i - 1) ys"
  using get_u64_skip [of "enc64 v" 1 i ys] by simp

lemma get_u64_single [simp]: "get_u64 0 (enc64 v) = v"
  using get_u64_hd [of v "[]"] by simp

lemma decode_encode_superblock:
  "length (signature s) = 16 \<Longrightarrow> decode_superblock (encode_superblock s @ rest) = s"
  by (simp add: decode_superblock_def encode_superblock_def get_u64_skip [of _ 2])
     (simp add: get_bytes_def)

lemma split_8: "length bs = 8 + n \<Longrightarrow> enc64 (get_u64 0 bs) @ drop 8 bs = bs"
  by (simp add: get_u64_def get_bytes_def enc64_dec64)

lemma get_u64_drop: "get_u64 i (drop 8 bs) = get_u64 (Suc i) bs"
  by (simp add: get_u64_def get_bytes_def add.commute)

lemma concat_enc64_get:
  "length bs = 8 * n \<Longrightarrow> concat (map (\<lambda>i. enc64 (get_u64 i bs)) [0..<n]) = bs"
proof (induction n arbitrary: bs)
  case 0
  then show ?case by simp
next
  case (Suc n)
  have "concat (map (\<lambda>i. enc64 (get_u64 i bs)) [0..<Suc n]) =
      enc64 (get_u64 0 bs) @ concat (map (\<lambda>i. enc64 (get_u64 i (drop 8 bs))) [0..<n])"
    by (simp add: upt_conv_Cons map_Suc_upt [symmetric] get_u64_drop comp_def del: upt_Suc)
  also have "\<dots> = enc64 (get_u64 0 bs) @ drop 8 bs"
    using Suc by simp
  finally show ?case using Suc.prems by (simp add: split_8)
qed

lemma encode_decode_superblock:
  assumes "length bs = 72"
  shows "encode_superblock (decode_superblock bs) = bs"
proof -
  have "concat (map (\<lambda>i. enc64 (get_u64 i (drop 16 bs))) [0..<7]) = drop 16 bs"
    using assms by (intro concat_enc64_get) simp
  moreover have "get_u64 i (drop 16 bs) = get_u64 (i + 2) bs" for i
    by (simp add: get_u64_def get_bytes_def add.commute)
  moreover have "[0..<7] = [0, 1, 2, 3, 4, 5, 6 :: nat]" by (simp add: upt_rec)
  ultimately show ?thesis
    by (simp add: encode_superblock_def decode_superblock_def get_bytes_def)
       (metis append_take_drop_id numeral_2_eq_2 numeral_3_eq_3)
qed

subsection \<open>Inodes\<close>

record sfs_fs_inode =
  inumber :: u64
  mode :: u32
  uid :: u32
  gid :: u32
  links :: u32
  access_time :: u64
  modified_time :: u64
  change_time :: u64
  isize :: u64
  block_pointers :: "u64 list"

abbreviation INODE_SIZE :: nat where "INODE_SIZE \<equiv> 168"
abbreviation INODES_PER_BLOCK :: nat where "INODES_PER_BLOCK \<equiv> 3"

definition encode_inode :: "sfs_fs_inode \<Rightarrow> bytes" where
  "encode_inode i =
     enc64 (inumber i) @ enc32 (mode i) @ enc32 (uid i) @ enc32 (gid i) @ enc32 (links i) @
     enc64 (access_time i) @ enc64 (modified_time i) @ enc64 (change_time i) @ enc64 (isize i) @
     concat (map enc64 (block_pointers i))"

definition decode_inode :: "bytes \<Rightarrow> sfs_fs_inode" where
  "decode_inode bs =
     \<lparr>inumber = dec64 (get_bytes 0 8 bs), mode = dec32 (get_bytes 8 4 bs),
      uid = dec32 (get_bytes 12 4 bs), gid = dec32 (get_bytes 16 4 bs),
      links = dec32 (get_bytes 20 4 bs), access_time = dec64 (get_bytes 24 8 bs),
      modified_time = dec64 (get_bytes 32 8 bs), change_time = dec64 (get_bytes 40 8 bs),
      isize = dec64 (get_bytes 48 8 bs),
      block_pointers = map (\<lambda>k. get_u64 k (get_bytes 56 112 bs)) [0..<SFS_N_BLOCKS]\<rparr>"

definition wf_inode :: "sfs_fs_inode \<Rightarrow> bool" where
  "wf_inode i \<longleftrightarrow> length (block_pointers i) = SFS_N_BLOCKS"

lemma wf_inode_length [simp]: "wf_inode i \<Longrightarrow> length (block_pointers i) = 14"
  by (simp add: wf_inode_def)

lemma wf_decode_inode [simp]: "wf_inode (decode_inode bs)"
  by (simp add: wf_inode_def decode_inode_def)

lemma wf_inode_upd [simp]:
  "wf_inode (i\<lparr>inumber := a\<rparr>) = wf_inode i" "wf_inode (i\<lparr>mode := b\<rparr>) = wf_inode i"
  "wf_inode (i\<lparr>links := c\<rparr>) = wf_inode i" "wf_inode (i\<lparr>access_time := d\<rparr>) = wf_inode i"
  "wf_inode (i\<lparr>modified_time := d\<rparr>) = wf_inode i" "wf_inode (i\<lparr>change_time := d\<rparr>) = wf_inode i"
  "wf_inode (i\<lparr>isize := d\<rparr>) = wf_inode i" "wf_inode (i\<lparr>uid := b\<rparr>) = wf_inode i"
  "wf_inode (i\<lparr>gid := b\<rparr>) = wf_inode i"
  "wf_inode (i\<lparr>block_pointers := (block_pointers i)[k := v]\<rparr>) = wf_inode i"
  by (simp_all add: wf_inode_def)

lemma length_encode_inode [simp, sfs_len]: "wf_inode i \<Longrightarrow> length (encode_inode i) = INODE_SIZE"
  by (simp add: encode_inode_def wf_inode_def length_concat_enc64)

lemma decode_encode_inode:
  assumes "wf_inode i"
  shows "decode_inode (encode_inode i) = i"
proof -
  let ?bp = "concat (map enc64 (block_pointers i))"
  have len: "length ?bp = 112" and n: "length (block_pointers i) = 14"
    using assms by (simp_all add: length_concat_enc64)
  have "map (\<lambda>k. get_u64 k ?bp) [0..<14] = block_pointers i"
    using n by (intro nth_equalityI) (simp_all add: get_u64_concat)
  with len show ?thesis
    by (simp add: decode_inode_def encode_inode_def get_bytes_append2 get_bytes_append1 get_bytes_all)
qed

lemma bytes_join: "off' = off + k \<Longrightarrow> get_bytes off k bs @ get_bytes off' m bs = get_bytes off (k + m) bs"
  by (simp add: get_bytes_def take_add add.commute)

lemma encode_decode_inode:
  assumes "length bs = INODE_SIZE"
  shows "encode_inode (decode_inode bs) = bs"
proof -
  have bp: "concat (map enc64 (map (\<lambda>k. get_u64 k (get_bytes 56 112 bs)) [0..<14])) = get_bytes 56 112 bs"
    using assms concat_enc64_get [of "get_bytes 56 112 bs" 14] by (simp add: sfs_len comp_def)
  have "encode_inode (decode_inode bs) =
      get_bytes 0 8 bs @ get_bytes 8 4 bs @ get_bytes 12 4 bs @ get_bytes 16 4 bs @ get_bytes 20 4 bs @
      get_bytes 24 8 bs @ get_bytes 32 8 bs @ get_bytes 40 8 bs @ get_bytes 48 8 bs @ get_bytes 56 112 bs"
    using assms unfolding encode_inode_def decode_inode_def
    by (simp add: enc64_dec64 enc32_dec32 length_get_bytes bp [simplified])
  also have "\<dots> = get_bytes 0 168 bs"
    by (simp add: bytes_join)
  finally show ?thesis using assms by (simp add: get_bytes_all)
qed

text \<open>\<^verbatim>\<open>((struct sfs_fs_inode*)block)[pos]\<close> as a value and as the target of an assignment.\<close>

definition get_inode :: "nat \<Rightarrow> bytes \<Rightarrow> sfs_fs_inode" where
  "get_inode pos block = decode_inode (get_bytes (INODE_SIZE * pos) INODE_SIZE block)"

definition put_inode :: "nat \<Rightarrow> sfs_fs_inode \<Rightarrow> bytes \<Rightarrow> bytes" where
  "put_inode pos i block = put_bytes (INODE_SIZE * pos) (encode_inode i) block"

lemma length_put_inode [simp, sfs_len]:
  "wf_inode i \<Longrightarrow> pos < INODES_PER_BLOCK \<Longrightarrow> length block = BLOCK_SIZE \<Longrightarrow>
   length (put_inode pos i block) = BLOCK_SIZE"
  by (simp add: put_inode_def length_put_bytes)

lemma wf_get_inode [simp]: "wf_inode (get_inode pos block)"
  by (simp add: get_inode_def)

lemma get_put_inode [sfs_bytes]:
  assumes "wf_inode i" "pos < INODES_PER_BLOCK" "pos' < INODES_PER_BLOCK" "length block = BLOCK_SIZE"
  shows "get_inode pos' (put_inode pos i block) = (if pos = pos' then i else get_inode pos' block)"
proof (cases "pos = pos'")
  case True
  with assms show ?thesis
    by (simp add: get_inode_def put_inode_def get_put_same decode_encode_inode)
next
  case False
  then have "168 * pos' + 168 \<le> 168 * pos \<or> 168 * pos + 168 \<le> 168 * pos'" by arith
  with assms False show ?thesis
    by (auto simp: get_inode_def put_inode_def get_put_other)
qed

lemma put_get_inode:
  "pos < INODES_PER_BLOCK \<Longrightarrow> length block = BLOCK_SIZE \<Longrightarrow> put_inode pos (get_inode pos block) block = block"
  by (simp add: put_inode_def get_inode_def encode_decode_inode length_get_bytes put_get_id)

text \<open>Inodes round trip through a block, slot by slot.\<close>

lemma inode_slots:
  assumes "length block = BLOCK_SIZE" and "wf_inode i" and "pos < INODES_PER_BLOCK" and "pos' < INODES_PER_BLOCK"
  shows "get_inode pos' (put_inode pos i block) = (if pos = pos' then i else get_inode pos' block) \<and>
    length (put_inode pos i block) = BLOCK_SIZE \<and> put_inode pos (get_inode pos block) block = block"
  using assms by (simp add: get_put_inode put_get_inode)

subsection \<open>Directory entries\<close>

record sfs_dir_entry =
  de_inumber :: u64
  de_name :: bytes

abbreviation DIR_ENTRY_SIZE :: nat where "DIR_ENTRY_SIZE \<equiv> 264"
abbreviation ENTRIES_PER_BLOCK :: nat where "ENTRIES_PER_BLOCK \<equiv> 1"

definition get_entry :: "nat \<Rightarrow> bytes \<Rightarrow> sfs_dir_entry" where
  "get_entry j block =
     \<lparr>de_inumber = dec64 (get_bytes (DIR_ENTRY_SIZE * j) 8 block),
      de_name = get_bytes (DIR_ENTRY_SIZE * j + 8) 256 block\<rparr>"

definition put_entry_inumber :: "nat \<Rightarrow> u64 \<Rightarrow> bytes \<Rightarrow> bytes" where
  "put_entry_inumber j n block = put_bytes (DIR_ENTRY_SIZE * j) (enc64 n) block"

definition put_entry_name :: "nat \<Rightarrow> bytes \<Rightarrow> bytes \<Rightarrow> bytes" where
  "put_entry_name j nm block = put_bytes (DIR_ENTRY_SIZE * j + 8) nm block"

lemma length_put_entry [simp, sfs_len]:
  "j < ENTRIES_PER_BLOCK \<Longrightarrow> length block = BLOCK_SIZE \<Longrightarrow> length (put_entry_inumber j n block) = BLOCK_SIZE"
  "j < ENTRIES_PER_BLOCK \<Longrightarrow> length block = BLOCK_SIZE \<Longrightarrow> length nm = 256 \<Longrightarrow>
   length (put_entry_name j nm block) = BLOCK_SIZE"
  by (simp_all add: put_entry_inumber_def put_entry_name_def length_put_bytes)

lemma get_put_entry [sfs_bytes]:
  "length block = BLOCK_SIZE \<Longrightarrow>
   get_entry 0 (put_entry_inumber 0 n block) = (get_entry 0 block)\<lparr>de_inumber := n\<rparr>"
  "length block = BLOCK_SIZE \<Longrightarrow> length nm = 256 \<Longrightarrow>
   get_entry 0 (put_entry_name 0 nm block) = (get_entry 0 block)\<lparr>de_name := nm\<rparr>"
  by (simp_all add: get_entry_def put_entry_inumber_def put_entry_name_def get_put_same get_put_other)

lemma get_entry_zero [simp]: "get_entry 0 zero_block = \<lparr>de_inumber = 0, de_name = replicate 256 0\<rparr>"
  by (simp add: get_entry_def zero_block_def)

subsection \<open>Blocks as stores\<close>

text \<open>The inodes of a block of the table, and the pointers of an index block.\<close>

interpretation block_inodes: keyed_store "\<lambda>b. length b = BLOCK_SIZE" "\<lambda>_ k. k < INODES_PER_BLOCK" "\<lambda>_. wf_inode"
  "\<lambda>b k. get_inode k b" length "\<lambda>b k. Some (get_inode k b, b)" "\<lambda>b k i. Some (put_inode k i b)"
  by unfold_locales (auto simp: get_put_inode)

interpretation index_slots: keyed_store "\<lambda>b. length b = BLOCK_SIZE" "\<lambda>_ k. k < 64" "\<lambda>_ _. True"
  "\<lambda>b k. get_u64 k b" length "\<lambda>b k. Some (get_u64 k b, b)" "\<lambda>b k v. Some (put_u64 k v b)"
  by unfold_locales (auto simp: get_put_u64)

end
