(* ===== verification/Inode_Store.thy ===== *)
theory Inode_Store
  imports Layout
begin

text \<open>
  The mounted file system of \<^verbatim>\<open>src/src/fs.c\<close>: \<^verbatim>\<open>struct filesystem\<close>, the superblock writer, and
  the inode table behind its one-block write-back cache (\<^verbatim>\<open>sfs_fs_read_inode\<close>,
  \<^verbatim>\<open>sfs_fs_write_inode\<close>). The open file behind the descriptor \<^verbatim>\<open>fs->disk\<close> is the field \<open>disk\<close>.

  A function that fills an output parameter and returns 0 or -1 returns an \<open>option\<close>: \<open>Some v\<close>
  is return code 0 with the parameter set to \<open>v\<close>, \<open>None\<close> is -1. The outer \<open>option\<close> is the one
  of \<open>Prelude\<close>: \<open>None\<close> is a failed assertion.
\<close>

subsection \<open>State\<close>

record inode_cache =
  dirty :: bool
  cache_block :: u32
  data :: bytes

record filesystem =
  disk :: os
  superblock :: sfs_fs_superblock
  inode_cache :: inode_cache

subsection \<open>Operations\<close>

definition write_superblock :: "os \<Rightarrow> sfs_fs_superblock \<Rightarrow> int \<times> os" where
  "write_superblock d sb =
     (let tmp_block = put_bytes 0 (encode_superblock sb) zero_block;
          (r, d) = block_write d 0 tmp_block
      in (if r \<noteq> 512 then -1 else 0, d))"

text \<open>
  The cached block number is a C \<^verbatim>\<open>int\<close>: it is sign-extended when it is compared with a 64-bit
  block number or used as one, and a 64-bit number is truncated when it is stored.
\<close>

definition cached :: "filesystem \<Rightarrow> u64" where
  "cached fs = scast (cache_block (inode_cache fs))"

text \<open>\<^verbatim>\<open>if (fs->inode_cache.dirty) block_write(...)\<close>, shared by the three places that flush.\<close>

definition cache_write_back :: "filesystem \<Rightarrow> int \<times> filesystem" where
  "cache_write_back fs =
     (if dirty (inode_cache fs)
      then let (r, d) = block_write (disk fs) (cached fs) (data (inode_cache fs))
           in (if r \<noteq> 512 then -1 else 0, fs\<lparr>disk := d\<rparr>)
      else (0, fs))"

definition cache_fill :: "filesystem \<Rightarrow> u64 \<Rightarrow> int \<times> filesystem" where
  "cache_fill fs block_number =
     (let (r, bs, d) = block_read (disk fs) block_number (data (inode_cache fs))
      in (if r \<noteq> 512 then -1 else 0,
          fs\<lparr>disk := d, inode_cache := (inode_cache fs)\<lparr>data := bs\<rparr>\<rparr>))"

definition sfs_fs_read_inode :: "filesystem \<Rightarrow> u64 \<Rightarrow> (sfs_fs_inode option \<times> filesystem) option" where
  "sfs_fs_read_inode fs inum =
     (if inum = 0 then None
      else let inumber_index = inum - 1;
               block_number = inumber_index div 3 + 1;
               position_in_block = unat (inumber_index mod 3);
               (r, fs) =
                 (if cached fs \<noteq> block_number
                  then let (r, fs) = cache_write_back fs
                       in if r \<noteq> 0 then (-1, fs)
                          else cache_fill
                                 (fs\<lparr>inode_cache := (inode_cache fs)
                                       \<lparr>cache_block := ucast block_number, dirty := False\<rparr>\<rparr>)
                                 block_number
                  else (0, fs))
           in if r \<noteq> 0 then Some (None, fs)
              else Some (Some (get_inode position_in_block (data (inode_cache fs))), fs))"

definition sfs_fs_write_inode :: "filesystem \<Rightarrow> sfs_fs_inode \<Rightarrow> (int \<times> filesystem) option" where
  "sfs_fs_write_inode fs inode =
     (if inumber inode = 0 then None
      else let inumber_index = inumber inode - 1;
               block_number = inumber_index div 3 + 1;
               position_in_block = unat (inumber_index mod 3);
               (r, fs) =
                 (if cached fs \<noteq> block_number
                  then let (r, fs) = cache_write_back fs
                       in if r \<noteq> 0 then (-1, fs)
                          else cache_fill
                                 (fs\<lparr>inode_cache := (inode_cache fs)\<lparr>cache_block := ucast block_number\<rparr>\<rparr>)
                                 block_number
                  else (0, fs))
           in if r \<noteq> 0 then Some (-1, fs)
              else Some (0, fs\<lparr>inode_cache := (inode_cache fs)
                                 \<lparr>dirty := True,
                                  data := put_inode position_in_block inode (data (inode_cache fs))\<rparr>\<rparr>))"

definition sfs_fs_close :: "filesystem \<Rightarrow> int \<times> os" where
  "sfs_fs_close fs =
     (let (r, fs) = cache_write_back fs
      in if r \<noteq> 0 then (-1, disk fs)
         else let (r, d) = write_superblock (disk fs) (superblock fs) in (0, d))"

subsection \<open>Abstract view\<close>

definition valid_ino :: "sfs_fs_superblock \<Rightarrow> u64 \<Rightarrow> bool" where
  "valid_ino sb n \<longleftrightarrow> 1 \<le> unat n \<and> unat n \<le> 3 * unat (inode_table_blocks sb)"

definition valid_block :: "sfs_fs_superblock \<Rightarrow> u64 \<Rightarrow> bool" where
  "valid_block sb b \<longleftrightarrow> unat (inode_table_blocks sb) < unat b \<and> unat b < unat (blocks sb)"

definition ino_block :: "u64 \<Rightarrow> nat" where
  "ino_block n = (unat n - 1) div 3 + 1"

definition ino_pos :: "u64 \<Rightarrow> nat" where
  "ino_pos n = (unat n - 1) mod 3"

definition inode_block :: "filesystem \<Rightarrow> nat \<Rightarrow> bytes" where
  "inode_block fs b = (if unat (cached fs) = b then data (inode_cache fs) else file_blocks (disk fs) b)"

text \<open>
  What the program promises of a mounted file system: a superblock, an inode per inode number,
  a data block per block number; cache and encodings are gone.
\<close>

record fs_abs =
  a_super :: sfs_fs_superblock
  a_inode :: "u64 \<Rightarrow> sfs_fs_inode"
  a_block :: "u64 \<Rightarrow> bytes"

definition abs_fs :: "filesystem \<Rightarrow> fs_abs" where
  "abs_fs fs =
     \<lparr>a_super = superblock fs,
      a_inode = (\<lambda>n. if valid_ino (superblock fs) n
                     then get_inode (ino_pos n) (inode_block fs (ino_block n)) else decode_inode []),
      a_block = (\<lambda>b. if valid_block (superblock fs) b then file_blocks (disk fs) (unat b) else [])\<rparr>"

subsection \<open>Invariant\<close>

definition geometry :: "sfs_fs_superblock \<Rightarrow> nat \<Rightarrow> bool" where
  "geometry sb file_bytes \<longleftrightarrow>
     signature sb = SFS_FILE_TYPE_SIGNATURE \<and> 1 \<le> unat (inode_table_blocks sb) \<and>
     unat (inode_table_blocks sb) < 2 ^ 31 \<and>
     unat (inode_table_blocks sb) < unat (blocks sb) \<and>
     unat (blocks sb) \<le> 2 ^ 54 \<and> BLOCK_SIZE * unat (blocks sb) \<le> file_bytes"

definition cache_ok :: "filesystem \<Rightarrow> bool" where
  "cache_ok fs \<longleftrightarrow>
     length (data (inode_cache fs)) = BLOCK_SIZE \<and>
     unat (cached fs) \<le> unat (inode_table_blocks (superblock fs)) \<and>
     (cached fs \<noteq> 0 \<longrightarrow> \<not> dirty (inode_cache fs) \<longrightarrow>
        data (inode_cache fs) = file_blocks (disk fs) (unat (cached fs)))"

text \<open>
  Nothing is said of block 0 of the disk: \<^verbatim>\<open>sfs_fs_open_disk\<close> leaves the flag \<open>dirty\<close> as it was in the memory
  \<^verbatim>\<open>malloc\<close> returned, so that the cache of a volume just mounted may be block 0 and dirty, and the first
  access to an inode then writes it over the superblock on the disk. The superblock in memory stays.
\<close>

definition fs_ok :: "filesystem \<Rightarrow> bool" where
  "fs_ok fs \<longleftrightarrow> wf_os (disk fs) \<and> no_faults (disk fs) \<and>
     geometry (superblock fs) (file_size (disk fs)) \<and> cache_ok fs"

lemma fs_okD:
  assumes "fs_ok fs"
  shows "wf_os (disk fs)" "no_faults (disk fs)" "geometry (superblock fs) (file_size (disk fs))"
    "cache_ok fs" "length (data (inode_cache fs)) = BLOCK_SIZE"
    "length (signature (superblock fs)) = 16" "signature (superblock fs) = SFS_FILE_TYPE_SIGNATURE"
  using assms by (simp_all add: fs_ok_def cache_ok_def geometry_def)

lemma valid_block_in_file: "fs_ok fs \<Longrightarrow> valid_block (superblock fs) b \<Longrightarrow> in_file (disk fs) b"
  by (auto simp: fs_ok_def geometry_def valid_block_def in_file_def)

lemma table_block_in_file:
  "fs_ok fs \<Longrightarrow> unat b \<le> unat (inode_table_blocks (superblock fs)) \<Longrightarrow> in_file (disk fs) b"
  by (auto simp: fs_ok_def geometry_def in_file_def)

lemma cached_in_file: "fs_ok fs \<Longrightarrow> in_file (disk fs) (cached fs)"
  by (auto simp: cache_ok_def fs_ok_def geometry_def in_file_def)

lemma scast_ucast_int:
  assumes "unat b < 2 ^ 31"
  shows "scast (ucast (b :: u64) :: u32) = b"
proof -
  have "int (unat b) < 2 ^ 31" using assms by (simp del: of_nat_unat)
  then have b: "uint b < 2 ^ 31" by simp
  then have "uint (ucast b :: u32) = uint b"
    by (simp add: uint_up_ucast unsigned_ucast_eq take_bit_int_eq_self)
  then have "sint (ucast b :: u32) = uint b"
    using b by (simp add: sint_uint signed_take_bit_int_eq_self_iff order_trans [of _ 0])
  then have "of_int (sint (ucast b :: u32)) = (of_int (uint b) :: u64)" by simp
  then show ?thesis by simp
qed

text \<open>The position computed by the code, as natural numbers.\<close>

lemma ino_block_word:
  assumes "geometry sb m" "valid_ino sb n"
  shows "unat ((n - 1) div 3 + 1) = ino_block n" "unat ((n - 1) mod 3) = ino_pos n" "n \<noteq> 0"
    "ino_pos n < 3" "1 \<le> ino_block n" "ino_block n \<le> unat (inode_table_blocks sb)"
    "ino_block n < 2 ^ 31"
proof -
  show n: "n \<noteq> 0" using assms by (auto simp: valid_ino_def)
  then have n1: "unat (n - 1) = unat n - 1" by (rule unat_minus_1)
  show "unat ((n - 1) mod 3) = ino_pos n" "ino_pos n < 3" "1 \<le> ino_block n"
    by (simp_all add: ino_pos_def ino_block_def unat_mod n1)
  show ib: "ino_block n \<le> unat (inode_table_blocks sb)"
    using assms by (auto simp: ino_block_def valid_ino_def)
  then show "ino_block n < 2 ^ 31" using assms by (simp add: geometry_def)
  then show "unat ((n - 1) div 3 + 1) = ino_block n"
    by (subst unat_plus_no_overflow) (simp_all add: unat_div n1 ino_block_def)
qed

lemma ino_same: "1 \<le> unat n \<Longrightarrow> 1 \<le> unat m \<Longrightarrow> ino_block n = ino_block m \<Longrightarrow> ino_pos n = ino_pos m \<Longrightarrow> n = m"
proof -
  assume a: "1 \<le> unat n" "1 \<le> unat m" "ino_block n = ino_block m" "ino_pos n = ino_pos m"
  then have "unat n - 1 = unat m - 1"
    by (metis add_right_cancel ino_block_def ino_pos_def mult_div_mod_eq)
  with a have "unat n = unat m" by linarith
  then show ?thesis by (simp add: word_unat_eq_iff)
qed

subsection \<open>The cache is transparent\<close>

text \<open>Writing back makes the inode table on disk agree with the view through the cache.\<close>

definition flush :: "filesystem \<Rightarrow> filesystem" where
  "flush fs = (if dirty (inode_cache fs)
               then fs\<lparr>disk := store (disk fs) (cached fs) (data (inode_cache fs))\<rparr> else fs)"

lemma cache_write_back_ok: "fs_ok fs \<Longrightarrow> cache_write_back fs = (0, flush fs)"
  using cached_in_file [of fs]
  by (simp add: cache_write_back_def flush_def block_write_ok fs_okD)

lemma flush_frame [simp, sfs_frame]:
  "superblock (flush fs) = superblock fs" "inode_cache (flush fs) = inode_cache fs"
  "file_size (disk (flush fs)) = file_size (disk fs)" "cached (flush fs) = cached fs"
  by (simp_all add: flush_def cached_def)

lemma flush_os [simp]: "fs_ok fs \<Longrightarrow> wf_os (disk (flush fs))" "fs_ok fs \<Longrightarrow> no_faults (disk (flush fs))"
  by (simp_all add: flush_def fs_okD)

lemma flush_table:
  assumes "fs_ok fs" "1 \<le> b" "b \<le> unat (inode_table_blocks (superblock fs))"
  shows "file_blocks (disk (flush fs)) b = inode_block fs b"
proof -
  have "cached fs \<noteq> 0" if "unat (cached fs) = b"
    using assms that by auto
  with assms show ?thesis
    by (auto simp: flush_def inode_block_def fs_ok_def cache_ok_def)
qed

lemma flush_data:
  assumes "fs_ok fs" "unat (inode_table_blocks (superblock fs)) < b"
  shows "file_blocks (disk (flush fs)) b = file_blocks (disk fs) b"
  using assms by (auto simp: flush_def fs_ok_def cache_ok_def unat_eq_0_iff)

text \<open>The state after the cache has been moved to the block \<open>bn\<close>.\<close>

definition load :: "filesystem \<Rightarrow> u64 \<Rightarrow> filesystem" where
  "load fs bn =
     (if cached fs \<noteq> bn
      then (flush fs)\<lparr>disk := advance (disk (flush fs)),
             inode_cache := \<lparr>dirty = False, cache_block = ucast bn, data = inode_block fs (unat bn)\<rparr>\<rparr>
      else fs)"

lemma load_ok:
  assumes ok: "fs_ok fs" and b: "1 \<le> unat bn" "unat bn \<le> unat (inode_table_blocks (superblock fs))"
  shows "fs_ok (load fs bn)" "superblock (load fs bn) = superblock fs" "cached (load fs bn) = bn"
    "data (inode_cache (load fs bn)) = inode_block fs (unat bn)"
    "inode_block (load fs bn) c = (if 1 \<le> c \<and> c \<le> unat (inode_table_blocks (superblock fs))
       then inode_block fs c else file_blocks (disk (load fs bn)) c)"
    "unat (inode_table_blocks (superblock fs)) < c \<Longrightarrow>
       file_blocks (disk (load fs bn)) c = file_blocks (disk fs) c"
proof -
  have b31: "unat bn < 2 ^ 31" using ok b by (simp add: fs_ok_def geometry_def)
  have bn0: "bn \<noteq> 0" using b by auto
  have itb: "unat (cached fs) \<le> unat (inode_table_blocks (superblock fs))"
    using ok by (simp add: fs_ok_def cache_ok_def)
  have len: "length (inode_block fs c) = BLOCK_SIZE" for c
    using ok by (simp add: inode_block_def fs_okD)
  show "superblock (load fs bn) = superblock fs" by (simp add: load_def)
  show c: "cached (load fs bn) = bn"
    by (simp add: load_def cached_def scast_ucast_int [OF b31])
  show d: "data (inode_cache (load fs bn)) = inode_block fs (unat bn)"
    by (simp add: load_def inode_block_def)
  show "inode_block (load fs bn) c = (if 1 \<le> c \<and> c \<le> unat (inode_table_blocks (superblock fs))
       then inode_block fs c else file_blocks (disk (load fs bn)) c)"
  proof (cases "cached fs = bn")
    case True
    then show ?thesis using itb b by (auto simp: load_def inode_block_def)
  next
    case False
    then have "inode_block (load fs bn) c =
        (if unat bn = c then inode_block fs c else file_blocks (disk (flush fs)) c)"
      using c d by (auto simp: inode_block_def [of "load fs bn"]) (simp add: load_def)
    with False b flush_table [OF ok] show ?thesis by (auto simp: load_def)
  qed
  show "unat (inode_table_blocks (superblock fs)) < c \<Longrightarrow>
       file_blocks (disk (load fs bn)) c = file_blocks (disk fs) c"
    using flush_data [OF ok] by (simp add: load_def)
  show "fs_ok (load fs bn)"
  proof (cases "cached fs = bn")
    case True
    with ok show ?thesis by (simp add: load_def)
  next
    case False
    have "cache_ok (load fs bn)"
      using False b bn0 c len flush_table [OF ok b]
      by (simp add: cache_ok_def) (simp add: load_def)
    then show ?thesis
      using ok False by (simp add: fs_ok_def [of "load fs bn"]) (simp add: load_def fs_ok_def)
  qed
qed

lemma load_abs:
  assumes "fs_ok fs" "1 \<le> unat bn" "unat bn \<le> unat (inode_table_blocks (superblock fs))"
  shows "abs_fs (load fs bn) = abs_fs fs"
proof -
  have "get_inode (ino_pos n) (inode_block (load fs bn) (ino_block n)) =
      get_inode (ino_pos n) (inode_block fs (ino_block n))" if "valid_ino (superblock fs) n" for n
    using that ino_block_word [OF fs_okD(3) [OF assms(1)] that] by (simp add: load_ok [OF assms])
  then show ?thesis
    by (simp add: abs_fs_def load_ok [OF assms] valid_block_def cong: if_cong)
qed

text \<open>The states after a successful \<^verbatim>\<open>sfs_fs_read_inode\<close> and \<^verbatim>\<open>sfs_fs_write_inode\<close>.\<close>

definition after_read :: "filesystem \<Rightarrow> u64 \<Rightarrow> filesystem" where
  "after_read fs n = load fs ((n - 1) div 3 + 1)"

definition after_write :: "filesystem \<Rightarrow> sfs_fs_inode \<Rightarrow> filesystem" where
  "after_write fs i =
     (let fs1 = load fs ((inumber i - 1) div 3 + 1)
      in fs1\<lparr>inode_cache := (inode_cache fs1)
           \<lparr>dirty := True, data := put_inode (ino_pos (inumber i)) i (data (inode_cache fs1))\<rparr>\<rparr>)"

lemma abs_fs_sel [simp]: "a_super (abs_fs fs) = superblock fs"
  by (simp add: abs_fs_def)

lemma a_inode_abs:
  "valid_ino (superblock fs) n \<Longrightarrow>
   a_inode (abs_fs fs) n = get_inode (ino_pos n) (inode_block fs (ino_block n))"
  by (simp add: abs_fs_def)

lemma a_block_abs:
  "valid_block (superblock fs) b \<Longrightarrow> a_block (abs_fs fs) b = file_blocks (disk fs) (unat b)"
  by (simp add: abs_fs_def)

lemma wf_a_inode [simp]: "wf_inode (a_inode (abs_fs fs) n)"
  by (simp add: abs_fs_def)

lemma length_a_block [simp, sfs_len]:
  "fs_ok fs \<Longrightarrow> valid_block (superblock fs) b \<Longrightarrow> length (a_block (abs_fs fs) b) = BLOCK_SIZE"
  by (simp add: a_block_abs fs_okD)

lemma inode_cache_overwrite [simp]:
  "(c :: inode_cache)\<lparr>dirty := x, cache_block := k, data := v\<rparr> = \<lparr>dirty = x, cache_block = k, data = v\<rparr>"
  by (cases c) simp

lemma cache_fill_ok:
  assumes "fs_ok fs" "1 \<le> unat bn" "unat bn \<le> unat (inode_table_blocks (superblock fs))"
    and "length (data c) = BLOCK_SIZE"
  shows "cache_fill ((flush fs)\<lparr>inode_cache := c\<rparr>) bn =
     (0, (flush fs)\<lparr>disk := advance (disk (flush fs)), inode_cache := c\<lparr>data := inode_block fs (unat bn)\<rparr>\<rparr>)"
proof -
  have "in_file (disk (flush fs)) bn"
    using table_block_in_file [OF assms(1,3)] by (simp add: in_file_def)
  with assms flush_table [OF assms(1), of "unat bn"] show ?thesis
    by (simp add: cache_fill_def block_read_ok fs_okD)
qed

lemma sfs_fs_read_inode_ok:
  assumes ok: "fs_ok fs" and n: "valid_ino (superblock fs) n"
  shows "sfs_fs_read_inode fs n = Some (Some (a_inode (abs_fs fs) n), after_read fs n)"
proof -
  let ?bn = "(n - 1) div 3 + 1 :: u64"
  note w = ino_block_word [OF fs_okD(3) [OF ok] n]
  have b: "1 \<le> unat ?bn" "unat ?bn \<le> unat (inode_table_blocks (superblock fs))"
    using w by simp_all
  have "sfs_fs_read_inode fs n =
      Some (Some (get_inode (unat ((n - 1) mod 3)) (data (inode_cache (load fs ?bn)))), load fs ?bn)"
    using w(3)
    by (simp add: sfs_fs_read_inode_def Let_def cache_write_back_ok [OF ok] cache_fill_ok [OF ok b]
        fs_okD [OF ok] load_def)
  then show ?thesis
    using w by (simp add: load_ok [OF ok b] a_inode_abs [OF n] after_read_def)
qed

lemma after_read [simp]:
  assumes "fs_ok fs" "valid_ino (superblock fs) n"
  shows "fs_ok (after_read fs n)" "abs_fs (after_read fs n) = abs_fs fs"
    "superblock (after_read fs n) = superblock fs"
  using assms ino_block_word [OF fs_okD(3) [OF assms(1)] assms(2)]
  by (simp_all add: after_read_def load_ok load_abs)

lemma sfs_fs_write_inode_ok:
  assumes ok: "fs_ok fs" and n: "valid_ino (superblock fs) (inumber i)"
  shows "sfs_fs_write_inode fs i = Some (0, after_write fs i)"
proof -
  let ?bn = "(inumber i - 1) div 3 + 1 :: u64"
  note w = ino_block_word [OF fs_okD(3) [OF ok] n]
  have b: "1 \<le> unat ?bn" "unat ?bn \<le> unat (inode_table_blocks (superblock fs))"
    using w by simp_all
  show ?thesis
    using w by (simp add: sfs_fs_write_inode_def Let_def cache_write_back_ok [OF ok]
        cache_fill_ok [OF ok b] fs_okD [OF ok] load_def after_write_def)
qed

lemma after_write_abs:
  assumes ok: "fs_ok fs" and n: "valid_ino (superblock fs) (inumber i)" and i: "wf_inode i"
  shows "abs_fs (after_write fs i) = (abs_fs fs)\<lparr>a_inode := (a_inode (abs_fs fs))(inumber i := i)\<rparr>"
    (is "?A") and "fs_ok (after_write fs i)" (is "?B") and "superblock (after_write fs i) = superblock fs" (is "?C")
proof -
  let ?bn = "(inumber i - 1) div 3 + 1 :: u64"
  let ?fs = "load fs ?bn"
  note w = ino_block_word [OF fs_okD(3) [OF ok] n]
  have b: "1 \<le> unat ?bn" "unat ?bn \<le> unat (inode_table_blocks (superblock fs))"
    using w by simp_all
  note l = load_ok [OF ok b]
  show C: ?C by (simp add: after_write_def Let_def l)
  have c: "cached (after_write fs i) = ?bn"
    using l(3) by (simp add: after_write_def Let_def cached_def)
  have bn0: "?bn \<noteq> 0" using b by auto
  have dk: "disk (after_write fs i) = disk ?fs" by (simp add: after_write_def Let_def)
  have da: "data (inode_cache (after_write fs i)) =
      put_inode (ino_pos (inumber i)) i (inode_block fs (ino_block (inumber i)))"
    using w by (simp add: after_write_def Let_def l)
  have len: "length (inode_block fs k) = BLOCK_SIZE" for k
    using ok by (simp add: inode_block_def fs_okD)
  show ?B
    using l(1) w b i c bn0 len unfolding fs_ok_def [of "after_write fs i"] fs_ok_def [of ?fs]
    by (simp add: dk C l(2) cache_ok_def da) (simp add: after_write_def Let_def)
  have "get_inode (ino_pos m) (inode_block (after_write fs i) (ino_block m)) =
      (if m = inumber i then i else get_inode (ino_pos m) (inode_block fs (ino_block m)))"
    if m: "valid_ino (superblock fs) m" for m
  proof (cases "ino_block m = ino_block (inumber i)")
    case True
    note wm = ino_block_word [OF fs_okD(3) [OF ok] m]
    have "inode_block (after_write fs i) (ino_block m) =
        put_inode (ino_pos (inumber i)) i (inode_block fs (ino_block m))"
      using True w c da by (simp add: inode_block_def [of "after_write fs i"])
    moreover have "ino_pos m = ino_pos (inumber i) \<longleftrightarrow> m = inumber i"
      using True m n ino_same [of m "inumber i"] by (auto simp: valid_ino_def)
    ultimately show ?thesis
      using w wm i len by (auto simp: get_put_inode)
  next
    case False
    note wm = ino_block_word [OF fs_okD(3) [OF ok] m]
    have "inode_block (after_write fs i) (ino_block m) = inode_block ?fs (ino_block m)"
      using False w c dk l(3) by (simp add: inode_block_def)
    with False wm show ?thesis by (auto simp: l)
  qed
  with l(6) C n show ?A
    by (auto simp: abs_fs_def l fun_eq_iff valid_block_def dk)
qed

subsection \<open>The other accesses to the disk\<close>

definition tick :: "filesystem \<Rightarrow> filesystem" where
  "tick fs = fs\<lparr>disk := snd (time (disk fs))\<rparr>"

definition fs_now :: "filesystem \<Rightarrow> u64" where
  "fs_now fs = fst (time (disk fs))"

lemma time_tick: "time (disk fs) = (fs_now fs, disk (tick fs))" "fs\<lparr>disk := disk (tick fs)\<rparr> = tick fs"
  by (simp_all add: tick_def fs_now_def)

lemma abs_fs_cong:
  "superblock fs' = superblock fs \<Longrightarrow> inode_cache fs' = inode_cache fs \<Longrightarrow>
   file_blocks (disk fs') = file_blocks (disk fs) \<Longrightarrow> abs_fs fs' = abs_fs fs"
  by (simp add: abs_fs_def inode_block_def cached_def fun_eq_iff)

lemma fs_ok_cong:
  "superblock fs' = superblock fs \<Longrightarrow> inode_cache fs' = inode_cache fs \<Longrightarrow>
   file_blocks (disk fs') = file_blocks (disk fs) \<Longrightarrow> file_size (disk fs') = file_size (disk fs) \<Longrightarrow>
   io_plan (disk fs') = io_plan (disk fs) \<Longrightarrow> fs_ok fs' = fs_ok fs"
  by (simp add: fs_ok_def wf_os_def no_faults_def cache_ok_def cached_def)

lemma tick [simp]:
  "fs_ok (tick fs) = fs_ok fs" "abs_fs (tick fs) = abs_fs fs" "superblock (tick fs) = superblock fs"
  using fs_ok_cong [of "tick fs" fs] abs_fs_cong [of "tick fs" fs] by (simp_all add: tick_def)

definition seen :: "filesystem \<Rightarrow> filesystem" where
  "seen fs = fs\<lparr>disk := advance (disk fs)\<rparr>"

lemma seen [simp]:
  "fs_ok (seen fs) = fs_ok fs" "abs_fs (seen fs) = abs_fs fs" "superblock (seen fs) = superblock fs"
  using fs_ok_cong [of "seen fs" fs] abs_fs_cong [of "seen fs" fs] by (simp_all add: seen_def)

lemma block_read_data:
  assumes "fs_ok fs" "valid_block (superblock fs) b" "length buf = BLOCK_SIZE"
  shows "block_read (disk fs) b buf = (512, a_block (abs_fs fs) b, disk (seen fs))"
  using assms valid_block_in_file [OF assms(1,2)]
  by (simp add: block_read_ok fs_okD a_block_abs seen_def)

definition put_block :: "filesystem \<Rightarrow> u64 \<Rightarrow> bytes \<Rightarrow> filesystem" where
  "put_block fs b v = fs\<lparr>disk := store (disk fs) b v\<rparr>"

lemma block_write_data:
  assumes "fs_ok fs" "valid_block (superblock fs) b" "length v = BLOCK_SIZE"
  shows "block_write (disk fs) b v = (512, disk (put_block fs b v))"
  using assms valid_block_in_file [OF assms(1,2)]
  by (simp add: block_write_ok fs_okD put_block_def)

lemma put_block [simp]:
  assumes "fs_ok fs" "valid_block (superblock fs) b" "length v = BLOCK_SIZE"
  shows "fs_ok (put_block fs b v)"
    "abs_fs (put_block fs b v) = (abs_fs fs)\<lparr>a_block := (a_block (abs_fs fs))(b := v)\<rparr>"
proof -
  have other: "unat b \<noteq> unat c" if "unat c \<le> unat (inode_table_blocks (superblock fs))" for c
    using assms that by (auto simp: valid_block_def)
  have itb: "unat (cached fs) \<le> unat (inode_table_blocks (superblock fs))"
    using assms by (simp add: fs_ok_def cache_ok_def)
  show "fs_ok (put_block fs b v)"
    using assms other [OF itb]
    by (simp add: fs_ok_def put_block_def cache_ok_def cached_def)
  have "get_inode (ino_pos n) (inode_block (put_block fs b v) (ino_block n)) =
      get_inode (ino_pos n) (inode_block fs (ino_block n))" if "valid_ino (superblock fs) n" for n
    using ino_block_word [OF fs_okD(3) [OF assms(1)] that] assms(2)
    by (auto simp: inode_block_def put_block_def cached_def valid_block_def)
  with assms show "abs_fs (put_block fs b v) = (abs_fs fs)\<lparr>a_block := (a_block (abs_fs fs))(b := v)\<rparr>"
    by (auto simp: abs_fs_def fun_eq_iff put_block_def word_unat_eq_iff [symmetric])
qed

lemma put_block_super [simp, sfs_frame]: "superblock (put_block fs b v) = superblock fs"
  by (simp add: put_block_def)

text \<open>
  Changing the free lists in the superblock and writing it out. The geometry of the disk does
  not change after it has been formatted.
\<close>

definition same_geometry :: "sfs_fs_superblock \<Rightarrow> sfs_fs_superblock \<Rightarrow> bool" where
  "same_geometry sb sb' \<longleftrightarrow> signature sb' = signature sb \<and>
     inode_table_blocks sb' = inode_table_blocks sb \<and> blocks sb' = blocks sb"

definition set_super :: "filesystem \<Rightarrow> sfs_fs_superblock \<Rightarrow> filesystem" where
  "set_super fs sb = fs\<lparr>superblock := sb,
     disk := store (disk fs) 0 (put_bytes 0 (encode_superblock sb) zero_block)\<rparr>"

lemma same_geometry [simp]:
  "same_geometry sb (sb\<lparr>free_blocks_head := x\<rparr>)" "same_geometry sb (sb\<lparr>free_inode_head := y\<rparr>)"
  "same_geometry sb sb"
  by (simp_all add: same_geometry_def)

lemma valid_same_geometry:
  assumes "same_geometry sb sb'"
  shows "valid_ino sb' = valid_ino sb" "valid_block sb' = valid_block sb" "geometry sb' = geometry sb"
  using assms by (auto simp: same_geometry_def valid_ino_def valid_block_def geometry_def fun_eq_iff)

lemma write_superblock_ok:
  assumes "fs_ok fs" "same_geometry (superblock fs) sb"
  shows "write_superblock (disk fs) sb = (0, disk (set_super fs sb))"
proof -
  have "in_file (disk fs) 0" using table_block_in_file [OF assms(1), of 0] by simp
  moreover have "length (encode_superblock sb) = 72"
    using assms fs_okD(6) [OF assms(1)] by (simp add: length_encode_superblock same_geometry_def)
  ultimately show ?thesis
    using assms by (simp add: write_superblock_def block_write_ok fs_okD set_super_def length_put_bytes)
qed

lemma set_super [simp]:
  assumes "fs_ok fs" "same_geometry (superblock fs) sb"
  shows "fs_ok (set_super fs sb)" "abs_fs (set_super fs sb) = (abs_fs fs)\<lparr>a_super := sb\<rparr>"
proof -
  have len: "length (encode_superblock sb) = 72"
    using assms fs_okD(6) [OF assms(1)] by (simp add: length_encode_superblock same_geometry_def)
  have c: "0 < unat (cached fs)" if "cached fs \<noteq> 0"
    using that by (simp add: unat_gt_0)
  have g: "inode_table_blocks sb = inode_table_blocks (superblock fs)"
    using assms by (simp add: same_geometry_def)
  show "fs_ok (set_super fs sb)"
    using assms len c g valid_same_geometry(3) [OF assms(2)]
    by (auto simp: fs_ok_def set_super_def cache_ok_def cached_def length_put_bytes
        put_bytes_def)
  have "get_inode (ino_pos n) (inode_block (set_super fs sb) (ino_block n)) =
      get_inode (ino_pos n) (inode_block fs (ino_block n))" for n
    by (simp add: inode_block_def set_super_def cached_def ino_block_def)
  moreover have "file_blocks (disk (set_super fs sb)) (unat b) = file_blocks (disk fs) (unat b)"
    if "valid_block (superblock fs) b" for b
    using that by (auto simp: set_super_def valid_block_def)
  ultimately show "abs_fs (set_super fs sb) = (abs_fs fs)\<lparr>a_super := sb\<rparr>"
    using valid_same_geometry [OF assms(2)]
    by (simp add: abs_fs_def fun_eq_iff) (simp add: set_super_def)
qed

lemma set_super_super [simp, sfs_frame]: "superblock (set_super fs sb) = sb"
  by (simp add: set_super_def)

lemma inode_cache_frame [simp, sfs_frame]:
  "inode_cache (set_super fs sb) = inode_cache fs" "inode_cache (seen fs) = inode_cache fs"
  "inode_cache (tick fs) = inode_cache fs" "inode_cache (put_block fs b v) = inode_cache fs"
  by (simp_all add: set_super_def seen_def tick_def put_block_def)

text \<open>An update of the disk by the disk of a state that differs in nothing else is that state.\<close>

lemma disk_of_eq:
  fixes x fs :: filesystem
  shows "superblock x = superblock fs \<Longrightarrow> inode_cache x = inode_cache fs \<Longrightarrow> fs\<lparr>disk := disk x\<rparr> = x"
    "superblock x = sb \<Longrightarrow> inode_cache x = inode_cache fs \<Longrightarrow> fs\<lparr>superblock := sb, disk := disk x\<rparr> = x"
    "superblock x = sb \<Longrightarrow> inode_cache x = inode_cache fs \<Longrightarrow> fs\<lparr>disk := disk x, superblock := sb\<rparr> = x"
  by (auto intro: filesystem.equality)

lemmas disk_access = block_read_data block_write_data write_superblock_ok disk_of_eq time_tick(1)

subsection \<open>The table as a store\<close>

definition inode_fetch :: "filesystem \<Rightarrow> u64 \<Rightarrow> (sfs_fs_inode \<times> filesystem) option" where
  "inode_fetch fs n = do { (r, fs) \<leftarrow> sfs_fs_read_inode fs n; map_option (\<lambda>i. (i, fs)) r }"

definition inode_assign :: "filesystem \<Rightarrow> u64 \<Rightarrow> sfs_fs_inode \<Rightarrow> filesystem option" where
  "inode_assign fs n i = do { (r, fs) \<leftarrow> sfs_fs_write_inode fs i; if r = 0 then Some fs else None }"

interpretation inode_table: keyed_store fs_ok "\<lambda>fs. valid_ino (superblock fs)" "\<lambda>n i. wf_inode i \<and> inumber i = n"
  "\<lambda>fs. a_inode (abs_fs fs)" "\<lambda>fs. (a_super (abs_fs fs), a_block (abs_fs fs))" inode_fetch inode_assign
proof unfold_locales
  fix fs n assume "fs_ok fs" "valid_ino (superblock fs) n"
  then show "\<exists>fs'. inode_fetch fs n = Some (a_inode (abs_fs fs) n, fs') \<and> fs_ok fs' \<and>
      valid_ino (superblock fs') = valid_ino (superblock fs) \<and>
      (a_super (abs_fs fs'), a_block (abs_fs fs')) = (a_super (abs_fs fs), a_block (abs_fs fs)) \<and>
      (\<forall>j. valid_ino (superblock fs) j \<longrightarrow> a_inode (abs_fs fs') j = a_inode (abs_fs fs) j)"
    by (intro exI [of _ "after_read fs n"]) (simp add: inode_fetch_def sfs_fs_read_inode_ok)
next
  fix fs n i assume "fs_ok fs" "valid_ino (superblock fs) n" "wf_inode i \<and> inumber i = n"
  then show "\<exists>fs'. inode_assign fs n i = Some fs' \<and> fs_ok fs' \<and>
      valid_ino (superblock fs') = valid_ino (superblock fs) \<and>
      (a_super (abs_fs fs'), a_block (abs_fs fs')) = (a_super (abs_fs fs), a_block (abs_fs fs)) \<and>
      (\<forall>j. valid_ino (superblock fs) j \<longrightarrow> a_inode (abs_fs fs') j = (if j = n then i else a_inode (abs_fs fs) j))"
    by (intro exI [of _ "after_write fs i"]) (auto simp: inode_assign_def sfs_fs_write_inode_ok after_write_abs)
qed

end
