(* ===== verification/Allocator.thy ===== *)
theory Allocator
  imports Prelude
begin

text \<open>
  The contract the three allocators of the program share (data blocks, inodes, file
  descriptors): a state owns a set of free resources, allocation takes one of them out,
  release puts one back. What follows from the contract alone is proved here once.
\<close>

text \<open>\<open>k\<close> allocations in a row.\<close>

fun alloc_many :: "('s \<Rightarrow> ('a \<times> 's) option) \<Rightarrow> nat \<Rightarrow> 's \<Rightarrow> ('a list \<times> 's) option" where
  "alloc_many alloc 0 s = Some ([], s)"
| "alloc_many alloc (Suc k) s =
     do { (a, s) \<leftarrow> alloc s; (as, s) \<leftarrow> alloc_many alloc k s; Some (a # as, s) }"

text \<open>
  A client that allocates and releases what it holds, in any order; \<open>L\<close> is the set of
  resources it holds.
\<close>

inductive alloc_run :: "('s \<Rightarrow> ('a \<times> 's) option) \<Rightarrow> ('s \<Rightarrow> 'a \<Rightarrow> 's option) \<Rightarrow> 's \<Rightarrow> 's \<Rightarrow> 'a set \<Rightarrow> bool"
  for alloc release s0 where
  run_start: "alloc_run alloc release s0 s0 {}"
| run_alloc: "alloc_run alloc release s0 s L \<Longrightarrow> alloc s = Some (a, s') \<Longrightarrow>
     alloc_run alloc release s0 s' (insert a L)"
| run_release: "alloc_run alloc release s0 s L \<Longrightarrow> a \<in> L \<Longrightarrow> release s a = Some s' \<Longrightarrow>
     alloc_run alloc release s0 s' (L - {a})"

locale resource_allocator =
  fixes inv :: "'s \<Rightarrow> bool"
    and free :: "'s \<Rightarrow> 'a set"
    and valid :: "'s \<Rightarrow> 'a \<Rightarrow> bool"
    and alloc :: "'s \<Rightarrow> ('a \<times> 's) option"
    and release :: "'s \<Rightarrow> 'a \<Rightarrow> 's option"
  assumes alloc_spec: "inv s \<Longrightarrow> free s \<noteq> {} \<Longrightarrow>
      \<exists>a s'. alloc s = Some (a, s') \<and> inv s' \<and> a \<in> free s \<and> free s' = free s - {a} \<and> valid s' = valid s"
    and release_spec: "inv s \<Longrightarrow> valid s a \<Longrightarrow> a \<notin> free s \<Longrightarrow>
      \<exists>s'. release s a = Some s' \<and> inv s' \<and> free s' = insert a (free s) \<and> valid s' = valid s"
    and free_valid: "inv s \<Longrightarrow> a \<in> free s \<Longrightarrow> valid s a"
begin

lemma alloc_many_distinct:
  "inv s \<Longrightarrow> infinite (free s) \<or> k \<le> card (free s) \<Longrightarrow>
   \<exists>as s'. alloc_many alloc k s = Some (as, s') \<and> inv s' \<and> length as = k \<and> distinct as \<and>
     set as \<subseteq> free s \<and> free s' = free s - set as"
proof (induction k arbitrary: s)
  case 0
  then show ?case by simp
next
  case (Suc k)
  then have "free s \<noteq> {}" by auto
  with Suc.prems(1) obtain a s1 where a: "alloc s = Some (a, s1)" "inv s1" "a \<in> free s" "free s1 = free s - {a}"
    using alloc_spec by blast
  have "infinite (free s1) \<or> k \<le> card (free s1)"
    using Suc.prems(2) a(3,4) by (simp add: card_Diff_singleton) linarith
  with Suc.IH a(2) obtain as s2 where as:
    "alloc_many alloc k s1 = Some (as, s2)" "inv s2" "length as = k" "distinct as"
    "set as \<subseteq> free s1" "free s2 = free s1 - set as"
    by blast
  have "alloc_many alloc (Suc k) s = Some (a # as, s2)" using a as by simp
  moreover have "distinct (a # as) \<and> set (a # as) \<subseteq> free s \<and> free s2 = free s - set (a # as)"
    using a as by auto
  ultimately show ?case using as by fastforce
qed

lemma run_disjoint:
  assumes "alloc_run alloc release s0 s L" and s0: "inv s0"
    and ne: "\<And>s L a s'. alloc_run alloc release s0 s L \<Longrightarrow> inv s \<Longrightarrow> alloc s = Some (a, s') \<Longrightarrow> free s \<noteq> {}"
  shows "inv s \<and> L \<inter> free s = {} \<and> (\<forall>a\<in>L. valid s a)"
  using assms(1)
proof (induction rule: alloc_run.induct)
  case run_start
  with s0 show ?case by simp
next
  case (run_alloc s L a s')
  have "free s \<noteq> {}" using ne run_alloc by blast
  then have "inv s' \<and> a \<in> free s \<and> free s' = free s - {a} \<and> valid s' = valid s"
    using alloc_spec [of s] run_alloc by auto
  with run_alloc free_valid [of s a] show ?case by auto
next
  case (run_release s L a s')
  then have "valid s a" "a \<notin> free s" by auto
  then have "inv s' \<and> free s' = insert a (free s) \<and> valid s' = valid s"
    using release_spec [of s a] run_release by auto
  with run_release show ?case by auto
qed

text \<open>As long as something is free, an allocation never hands out what the client still holds.\<close>

lemma run_fresh:
  assumes run: "alloc_run alloc release s0 s L" and s0: "inv s0"
    and ne: "\<And>s L a s'. alloc_run alloc release s0 s L \<Longrightarrow> inv s \<Longrightarrow> alloc s = Some (a, s') \<Longrightarrow> free s \<noteq> {}"
    and a: "alloc s = Some (a, s')"
  shows "a \<notin> L"
proof -
  from run s0 ne have i: "inv s \<and> L \<inter> free s = {} \<and> (\<forall>a\<in>L. valid s a)" by (rule run_disjoint)
  with ne [OF run _ a] have "a \<in> free s" using alloc_spec [of s] a by auto
  with i show ?thesis by blast
qed

lemma alloc_release:
  assumes "inv s" "free s \<noteq> {}" "alloc s = Some (a, s')"
  shows "\<exists>s''. release s' a = Some s'' \<and> inv s'' \<and> free s'' = free s"
proof -
  from assms alloc_spec [of s] have s': "inv s'" "a \<in> free s" "free s' = free s - {a}" "valid s' a"
    using free_valid [of s a] by auto
  then obtain s'' where "release s' a = Some s''" "inv s''" "free s'' = insert a (free s')"
    using release_spec [of s' a] by auto
  with s' show ?thesis by auto
qed

end

text \<open>An allocator that reports exhaustion.\<close>

locale exhaustible_allocator = resource_allocator +
  assumes alloc_none: "inv s \<Longrightarrow> free s = {} \<Longrightarrow> alloc s = None"
begin

lemma alloc_many_exact:
  assumes "inv s" "finite (free s)"
  shows "(\<exists>as s'. alloc_many alloc k s = Some (as, s')) \<longleftrightarrow> k \<le> card (free s)"
proof
  assume "\<exists>as s'. alloc_many alloc k s = Some (as, s')"
  with assms show "k \<le> card (free s)"
  proof (induction k arbitrary: s)
    case 0
    then show ?case by simp
  next
    case (Suc k)
    then obtain a s1 where a: "alloc s = Some (a, s1)" and m: "\<exists>as s'. alloc_many alloc k s1 = Some (as, s')"
      by (fastforce simp: bind_eq_Some_conv)
    then have "free s \<noteq> {}" using alloc_none [OF Suc.prems(1)] by auto
    with a alloc_spec [OF Suc.prems(1)] have s1: "inv s1" "a \<in> free s" "free s1 = free s - {a}" by auto
    with Suc.IH [of s1] m Suc.prems(2) have "k \<le> card (free s - {a})" by simp
    moreover have "card (free s - {a}) < card (free s)"
      using Suc.prems(2) s1(2) by (rule card_Diff1_less)
    ultimately show ?case by linarith
  qed
next
  assume "k \<le> card (free s)"
  with assms alloc_many_distinct [of s k] show "\<exists>as s'. alloc_many alloc k s = Some (as, s')" by blast
qed

lemma run_fresh_exhaustible:
  assumes "alloc_run alloc release s0 s L" "inv s0" and "alloc s = Some (a, s')"
  shows "a \<notin> L"
  using assms(1,2) _ assms(3) by (rule run_fresh) (use alloc_none in auto)

end

end
