(* ===== verification/Block_Alloc.thy ===== *)
theory Block_Alloc
  imports Inode_Store Allocator
begin

text \<open>
  The allocator of data blocks of \<^verbatim>\<open>src/src/fs.c\<close>, \<^verbatim>\<open>sfs_fs_allocate_block\<close> and
  \<^verbatim>\<open>sfs_fs_free_block\<close>. Free space is a list of index blocks headed in the superblock: slot 0
  of an index block is the next index block, its other 63 slots hold numbers of free blocks
  or 0. The index blocks are free space too: an empty one is handed out itself.
\<close>

subsection \<open>Operations\<close>

definition sfs_fs_allocate_block :: "filesystem \<Rightarrow> u64 option \<times> filesystem" where
  "sfs_fs_allocate_block fs =
     (if free_blocks_head (superblock fs) = 0 then (None, fs)
      else let node = free_blocks_head (superblock fs);
               (r, tmp_block, d) = block_read (disk fs) node zero_block;
               fs = fs\<lparr>disk := d\<rparr>
           in if r \<noteq> 512 then (None, fs)
              else (case List.find (\<lambda>i. get_u64 i tmp_block \<noteq> 0) [1..<64] of
                      Some i \<Rightarrow>
                        let found_free_block = get_u64 i tmp_block;
                            (r, d) = block_write (disk fs) node (put_u64 i 0 tmp_block);
                            fs = fs\<lparr>disk := d\<rparr>
                        in if r \<noteq> 512 then (None, fs) else (Some found_free_block, fs)
                    | None \<Rightarrow>
                        let sb = (superblock fs)\<lparr>free_blocks_head := get_u64 0 tmp_block\<rparr>;
                            (r, d) = write_superblock (disk fs) sb;
                            fs = fs\<lparr>superblock := sb, disk := d\<rparr>
                        in if r \<noteq> 0 then (None, fs) else (Some node, fs)))"

text \<open>
  The loop \<^verbatim>\<open>while (node != 0)\<close> of \<^verbatim>\<open>sfs_fs_free_block\<close> with what follows it. On a cyclic list of
  full index blocks it does not end, which is the value \<open>None\<close>.
\<close>

partial_function (option) free_block_walk ::
  "filesystem \<Rightarrow> u64 \<Rightarrow> u64 \<Rightarrow> u64 \<Rightarrow> bytes \<Rightarrow> (int \<times> filesystem) option" where
  "free_block_walk fs block_number node prev_node tmp_block =
     (if node \<noteq> 0
      then let (r, tmp_block, d) = block_read (disk fs) node tmp_block;
               fs = fs\<lparr>disk := d\<rparr>
           in if r \<noteq> 512 then Some (-1, fs)
              else (case List.find (\<lambda>i. get_u64 i tmp_block = 0) [1..<64] of
                      Some i \<Rightarrow>
                        let (r, d) = block_write (disk fs) node (put_u64 i block_number tmp_block);
                            fs = fs\<lparr>disk := d\<rparr>
                        in Some (if r \<noteq> 512 then -1 else 0, fs)
                    | None \<Rightarrow> free_block_walk fs block_number (get_u64 0 tmp_block) node tmp_block)
      else let (r, d) = block_write (disk fs) prev_node (put_u64 0 block_number tmp_block);
               fs = fs\<lparr>disk := d\<rparr>
           in if r \<noteq> 512 then Some (-1, fs)
              else let (r, d) = block_write (disk fs) block_number zero_block;
                       fs = fs\<lparr>disk := d\<rparr>
                   in Some (if r \<noteq> 512 then -1 else 0, fs))"

definition sfs_fs_free_block :: "filesystem \<Rightarrow> u64 \<Rightarrow> (int \<times> filesystem) option" where
  "sfs_fs_free_block fs block_number =
     (if free_blocks_head (superblock fs) = 0
      then let (r, d) = block_write (disk fs) block_number zero_block;
               fs = fs\<lparr>disk := d\<rparr>
           in if r \<noteq> 512 then Some (-1, fs)
              else let sb = (superblock fs)\<lparr>free_blocks_head := block_number\<rparr>;
                       (r, d) = write_superblock (disk fs) sb;
                       fs = fs\<lparr>superblock := sb, disk := d\<rparr>
                   in Some (if r \<noteq> 0 then -1 else 0, fs)
      else free_block_walk fs block_number (free_blocks_head (superblock fs)) 0 zero_block)"

subsection \<open>The free list\<close>

fun index_chain :: "(u64 \<Rightarrow> bytes) \<Rightarrow> u64 \<Rightarrow> u64 list \<Rightarrow> bool" where
  "index_chain m h [] \<longleftrightarrow> h = 0"
| "index_chain m h (n # ns) \<longleftrightarrow> h = n \<and> n \<noteq> 0 \<and> index_chain m (get_u64 0 (m n)) ns"

definition entries :: "bytes \<Rightarrow> u64 list" where
  "entries bs = filter (\<lambda>b. b \<noteq> 0) (map (\<lambda>i. get_u64 i bs) [1..<64])"

definition free_list :: "(u64 \<Rightarrow> bytes) \<Rightarrow> u64 list \<Rightarrow> u64 list" where
  "free_list m ns = ns @ concat (map (\<lambda>n. entries (m n)) ns)"

definition free_rep :: "fs_abs \<Rightarrow> u64 list \<Rightarrow> bool" where
  "free_rep A ns \<longleftrightarrow> index_chain (a_block A) (free_blocks_head (a_super A)) ns \<and>
     distinct (free_list (a_block A) ns) \<and> (\<forall>b\<in>set (free_list (a_block A) ns). valid_block (a_super A) b)"

text \<open>The set of free blocks, and the invariant of the allocator.\<close>

definition free_blocks :: "fs_abs \<Rightarrow> u64 set" where
  "free_blocks A = {b. \<exists>ns. index_chain (a_block A) (free_blocks_head (a_super A)) ns \<and>
     b \<in> set (free_list (a_block A) ns)}"

definition alloc_ok :: "filesystem \<Rightarrow> bool" where
  "alloc_ok fs \<longleftrightarrow> fs_ok fs \<and> (\<exists>ns. free_rep (abs_fs fs) ns)"

lemma index_chain_unique: "index_chain m h ns \<Longrightarrow> index_chain m h ns' \<Longrightarrow> ns = ns'"
proof (induction ns arbitrary: h ns')
  case Nil
  then show ?case by (cases ns') auto
next
  case (Cons n ns)
  then show ?case by (cases ns') auto
qed

lemma free_blocks_rep: "free_rep A ns \<Longrightarrow> free_blocks A = set (free_list (a_block A) ns)"
  by (auto simp: free_blocks_def free_rep_def dest: index_chain_unique)

lemma free_rep_valid: "free_rep A ns \<Longrightarrow> n \<in> set ns \<Longrightarrow> valid_block (a_super A) n"
  by (simp add: free_rep_def free_list_def)

lemma index_chain_cong:
  "(\<And>n. n \<in> set ns \<Longrightarrow> get_u64 0 (m' n) = get_u64 0 (m n)) \<Longrightarrow> index_chain m' h ns = index_chain m h ns"
  by (induction ns arbitrary: h) auto

lemma index_chain_append:
  "index_chain m h ns \<Longrightarrow> b \<notin> set ns \<Longrightarrow> ns \<noteq> [] \<Longrightarrow> distinct ns \<Longrightarrow> b \<noteq> 0 \<Longrightarrow>
   get_u64 0 (m' (last ns)) = b \<Longrightarrow> get_u64 0 (m' b) = 0 \<Longrightarrow>
   (\<And>n. n \<in> set (butlast ns) \<Longrightarrow> get_u64 0 (m' n) = get_u64 0 (m n)) \<Longrightarrow>
   index_chain m' h (ns @ [b])"
  by (induction ns arbitrary: h) (auto split: if_splits)

lemma entries_zero [simp]: "entries zero_block = []"
  by (simp add: entries_def filter_empty_conv)

lemma entries_none: "(\<forall>i. 1 \<le> i \<and> i < 64 \<longrightarrow> get_u64 i bs = 0) \<Longrightarrow> entries bs = []"
  by (auto simp: entries_def filter_empty_conv)

lemma entries_slot:
  assumes "1 \<le> i" "i < 64" "length bs = BLOCK_SIZE" "get_u64 i bs = 0" "v \<noteq> 0"
  shows "\<exists>xs ys. entries (put_u64 i v bs) = xs @ v # ys \<and> entries bs = xs @ ys"
  using assms filter_map_upt_remove [of 1 i 64 "\<lambda>b. b \<noteq> 0" "\<lambda>j. get_u64 j (put_u64 i v bs)" "\<lambda>j. get_u64 j bs"]
  by (simp add: entries_def get_put_u64)

lemma put_u64_put_u64: "put_u64 i v (put_u64 i w bs) = put_u64 i v bs" if "8 * i + 8 \<le> length bs"
  using that by (simp add: put_u64_def put_bytes_def min_def)

lemma put_u64_get: "8 * i + 8 \<le> length bs \<Longrightarrow> put_u64 i (get_u64 i bs) bs = bs"
  by (simp add: put_u64_def get_u64_def enc64_dec64 length_get_bytes put_get_id)

lemma entries_clear:
  assumes "1 \<le> i" "i < 64" "length bs = BLOCK_SIZE" "get_u64 i bs \<noteq> 0"
  shows "\<exists>xs ys. entries bs = xs @ get_u64 i bs # ys \<and> entries (put_u64 i 0 bs) = xs @ ys"
  using assms entries_slot [of i "put_u64 i 0 bs" "get_u64 i bs"]
  by (simp add: put_u64_put_u64 put_u64_get get_put_u64)

text \<open>Replacing one index block changes the free list by the change of its entries.\<close>

lemma free_list_upd:
  assumes "n \<in> set ns" "distinct ns"
  shows "mset (free_list (m(n := v)) ns) + mset (entries (m n)) = mset (free_list m ns) + mset (entries v)"
  using assms
proof (induction ns)
  case Nil
  then show ?case by simp
next
  case (Cons k ns)
  have same: "map (\<lambda>a. entries ((m(n := v)) a)) ns = map (\<lambda>a. entries (m a)) ns" if "n \<notin> set ns"
    using that by (intro map_cong) auto
  show ?case
  proof (cases "k = n")
    case True
    with Cons.prems same show ?thesis by (simp add: free_list_def cong: map_cong)
  next
    case False
    with Cons show ?thesis by (simp add: free_list_def)
  qed
qed

lemma free_rep_slot:
  assumes rep: "free_rep A ns" and n: "n \<in> set ns" and same: "get_u64 0 v = get_u64 0 (a_block A n)"
    and e: "entries v = xs @ es @ ys" "entries (a_block A n) = xs @ ds @ ys"
    and es: "distinct es" "set es \<inter> free_blocks A = {}" "\<forall>b\<in>set es. valid_block (a_super A) b"
  shows "free_rep (A\<lparr>a_block := (a_block A)(n := v)\<rparr>) ns"
    "free_blocks (A\<lparr>a_block := (a_block A)(n := v)\<rparr>) = free_blocks A - set ds \<union> set es"
proof -
  let ?m = "a_block A" and ?A = "A\<lparr>a_block := (a_block A)(n := v)\<rparr>"
  have d: "distinct ns" using rep by (simp add: free_rep_def free_list_def)
  have "mset (free_list (?m(n := v)) ns) + mset ds = mset (free_list ?m ns) + mset es"
    using free_list_upd [OF n d, of ?m v] e by simp
  moreover obtain F where F: "mset (free_list ?m ns) = F + mset ds"
  proof
    have "mset (entries (?m n)) \<subseteq># mset (free_list ?m ns)"
      using n by (auto simp: free_list_def in_set_conv_decomp)
    moreover have "mset ds \<subseteq># mset (entries (?m n))"
      by (simp add: e(2) mset_subset_eq_exists_conv)
    ultimately have "mset ds \<subseteq># mset (free_list ?m ns)"
      by (rule subset_mset.order_trans [rotated])
    then show "mset (free_list ?m ns) = mset (free_list ?m ns) - mset ds + mset ds" by simp
  qed
  ultimately have G: "mset (free_list (?m(n := v)) ns) = F + mset es" by simp
  have fb: "free_blocks A = set (free_list ?m ns)" by (rule free_blocks_rep [OF rep])
  have sets: "set (free_list ?m ns) = set_mset F \<union> set ds" "set (free_list (?m(n := v)) ns) = set_mset F \<union> set es"
    using arg_cong [OF F, of set_mset] arg_cong [OF G, of set_mset] by simp_all
  have dF: "distinct (free_list ?m ns)" using rep by (simp add: free_rep_def)
  have one: "count (F + mset ds) b \<le> 1" for b
    using dF F distinct_count_atmost_1 [of "free_list ?m ns"] by (simp split: if_splits)
  have disj: "set_mset F \<inter> set ds = {}"
  proof (rule ccontr)
    assume "set_mset F \<inter> set ds \<noteq> {}"
    then obtain b where "b \<in># F" "b \<in># mset ds" by auto
    then have "1 \<le> count F b" "1 \<le> count (mset ds) b" by (simp_all add: Suc_le_eq)
    with one [of b] show False by simp
  qed
  have "distinct (free_list (?m(n := v)) ns)"
    unfolding distinct_count_atmost_1
  proof
    fix b
    have "count (mset es) b = (if b \<in> set es then 1 else 0)"
      using es(1) by (simp add: distinct_count_atmost_1)
    moreover have "b \<in> set es \<Longrightarrow> count F b = 0"
      using es(2) fb sets by (auto simp: count_eq_zero_iff)
    moreover have "count F b = (if b \<in># F then 1 else 0)"
      using one [of b] by (cases "b \<in># F") (auto simp: not_in_iff simp flip: count_greater_zero_iff)
    ultimately show "count (mset (free_list (?m(n := v)) ns)) b =
        (if b \<in> set (free_list (?m(n := v)) ns) then 1 else 0)"
      unfolding G sets by auto
  qed
  moreover have "index_chain (?m(n := v)) (free_blocks_head (a_super A)) ns"
    using rep same index_chain_cong [of ns "?m(n := v)" ?m] by (simp add: free_rep_def)
  ultimately show rep': "free_rep ?A ns"
    using rep es(3) sets by (auto simp: free_rep_def)
  show "free_blocks ?A = free_blocks A - set ds \<union> set es"
    using free_blocks_rep [OF rep'] fb sets disj by auto
qed

subsection \<open>Correctness of allocation\<close>

lemma alloc_okE:
  assumes "alloc_ok fs"
  obtains ns where "fs_ok fs" "free_rep (abs_fs fs) ns"
    "free_blocks (abs_fs fs) = set (free_list (a_block (abs_fs fs)) ns)"
  using assms free_blocks_rep unfolding alloc_ok_def by blast

lemma free_blocks_empty: "alloc_ok fs \<Longrightarrow> free_blocks (abs_fs fs) = {} \<longleftrightarrow> free_blocks_head (superblock fs) = 0"
proof (erule alloc_okE)
  fix ns
  assume "free_rep (abs_fs fs) ns" "free_blocks (abs_fs fs) = set (free_list (a_block (abs_fs fs)) ns)"
  then show ?thesis
    by (cases ns) (auto simp: free_rep_def free_list_def)
qed

text \<open>
  What an allocation gives and does, on the abstract state: the first block listed in the head of the list is taken out of
  it, or, if the head lists none, the head itself is taken.
\<close>

definition next_block :: "fs_abs \<Rightarrow> u64" where
  "next_block A =
     (let n = free_blocks_head (a_super A)
      in case List.find (\<lambda>i. get_u64 i (a_block A n) \<noteq> 0) [1..<64] of Some i \<Rightarrow> get_u64 i (a_block A n) | None \<Rightarrow> n)"

definition take_block :: "fs_abs \<Rightarrow> fs_abs" where
  "take_block A =
     (let n = free_blocks_head (a_super A)
      in case List.find (\<lambda>i. get_u64 i (a_block A n) \<noteq> 0) [1..<64] of
           Some i \<Rightarrow> A\<lparr>a_block := (a_block A)(n := put_u64 i 0 (a_block A n))\<rparr>
         | None \<Rightarrow> A\<lparr>a_super := (a_super A)\<lparr>free_blocks_head := get_u64 0 (a_block A n)\<rparr>\<rparr>)"

lemma take_block_rep:
  assumes rep: "free_rep A ns" and ne: "free_blocks A \<noteq> {}" and len: "length (a_block A (free_blocks_head (a_super A))) = BLOCK_SIZE"
  shows "\<exists>ns'. free_rep (take_block A) ns'" "next_block A \<in> free_blocks A"
    "free_blocks (take_block A) = free_blocks A - {next_block A}" "a_inode (take_block A) = a_inode A"
    "a_block (take_block A) (next_block A) = a_block A (next_block A)"
    "c \<notin> free_blocks A \<Longrightarrow> a_block (take_block A) c = a_block A c"
    "free_blocks_head (a_super A) \<in> free_blocks A" "length (a_block (take_block A) c) = length (a_block A c)"
proof -
  let ?n = "free_blocks_head (a_super A)" and ?bs = "a_block A (free_blocks_head (a_super A))"
  have fb: "free_blocks A = set (free_list (a_block A) ns)" by (rule free_blocks_rep [OF rep])
  have "ns \<noteq> []" using ne fb by (auto simp: free_list_def)
  then obtain ns' where ns: "ns = ?n # ns'" using rep by (cases ns) (auto simp: free_rep_def)
  show nf: "?n \<in> free_blocks A" using ns unfolding fb by (simp add: free_list_def)
  have "(\<exists>ns'. free_rep (take_block A) ns') \<and> next_block A \<in> free_blocks A \<and>
      free_blocks (take_block A) = free_blocks A - {next_block A} \<and> a_inode (take_block A) = a_inode A \<and>
      a_block (take_block A) (next_block A) = a_block A (next_block A) \<and>
      (\<forall>c. c \<notin> free_blocks A \<longrightarrow> a_block (take_block A) c = a_block A c) \<and>
      (\<forall>c. length (a_block (take_block A) c) = length (a_block A c))"
  proof (cases "List.find (\<lambda>i. get_u64 i ?bs \<noteq> 0) [1..<64]")
    case (Some i)
    then have i: "1 \<le> i" "i < 64" "get_u64 i ?bs \<noteq> 0" using find_upt_Some by fastforce+
    let ?b = "get_u64 i ?bs" and ?v = "put_u64 i 0 ?bs"
    have t: "next_block A = ?b" "take_block A = A\<lparr>a_block := (a_block A)(?n := ?v)\<rparr>"
      using Some by (simp_all add: next_block_def take_block_def Let_def)
    obtain xs ys where e: "entries ?bs = xs @ [?b] @ ys" "entries ?v = xs @ [] @ ys"
      using entries_clear [OF i(1,2) len i(3)] by auto
    have "get_u64 0 ?v = get_u64 0 ?bs" using i len by (simp add: get_put_u64)
    note slot = free_rep_slot [OF rep _ this e(2,1)]
    have b: "?b \<in> free_blocks A" "?b \<noteq> ?n" using e ns rep unfolding fb by (auto simp: free_list_def free_rep_def)
    have "free_rep (take_block A) ns" "free_blocks (take_block A) = free_blocks A - {?b}"
      unfolding t(2) using slot ns by simp_all
    moreover have "length ?v = length ?bs" using len i by simp
    ultimately show ?thesis using b nf unfolding t by auto
  next
    case None
    let ?sb' = "(a_super A)\<lparr>free_blocks_head := get_u64 0 ?bs\<rparr>"
    have t: "next_block A = ?n" "take_block A = A\<lparr>a_super := ?sb'\<rparr>" using None by (simp_all add: next_block_def take_block_def Let_def)
    have e: "entries ?bs = []" using None by (intro entries_none) (simp add: find_upt_None)
    have fl: "mset (free_list (a_block A) ns) = add_mset ?n (mset (free_list (a_block A) ns'))"
      using ns e by (simp add: free_list_def)
    then have d: "distinct (free_list (a_block A) ns')" "?n \<notin> set (free_list (a_block A) ns')"
      using rep by (auto simp: free_rep_def free_list_def ns e)
    have set: "set (free_list (a_block A) ns) = insert ?n (set (free_list (a_block A) ns'))"
      using arg_cong [OF fl, of set_mset] by simp
    have rep': "free_rep (take_block A) ns'"
      using rep ns d(1) set t(2) by (auto simp: free_rep_def valid_same_geometry(2) [of "a_super A" ?sb'])
    then have "free_blocks (take_block A) = free_blocks A - {?n}"
      using free_blocks_rep [OF rep'] fb set d(2) t(2) by auto
    then show ?thesis using rep' nf t by auto
  qed
  then show "\<exists>ns'. free_rep (take_block A) ns'" "next_block A \<in> free_blocks A"
    "free_blocks (take_block A) = free_blocks A - {next_block A}" "a_inode (take_block A) = a_inode A"
    "a_block (take_block A) (next_block A) = a_block A (next_block A)"
    "c \<notin> free_blocks A \<Longrightarrow> a_block (take_block A) c = a_block A c" "length (a_block (take_block A) c) = length (a_block A c)"
    by blast+
qed

text \<open>The code does that.\<close>

lemma allocate_block_take:
  assumes ok: "alloc_ok fs" and ne: "free_blocks (abs_fs fs) \<noteq> {}"
  shows "\<exists>fs'. sfs_fs_allocate_block fs = (Some (next_block (abs_fs fs)), fs') \<and> fs_ok fs' \<and> abs_fs fs' = take_block (abs_fs fs) \<and>
    (\<exists>h. superblock fs' = (superblock fs)\<lparr>free_blocks_head := h\<rparr>)"
proof -
  let ?A = "abs_fs fs" and ?sb = "superblock fs" and ?n = "free_blocks_head (superblock fs)"
  let ?bs = "a_block ?A ?n"
  obtain ns where fs: "fs_ok fs" and rep: "free_rep ?A ns" and fb: "free_blocks ?A = set (free_list (a_block ?A) ns)"
    using ok by (rule alloc_okE)
  have h: "?n \<noteq> 0" using ne free_blocks_empty [OF ok] by simp
  then have v: "valid_block ?sb ?n" using free_rep_valid [OF rep, of ?n] rep by (cases ns) (auto simp: free_rep_def)
  then have len: "length ?bs = BLOCK_SIZE" using fs by simp
  show ?thesis
  proof (cases "List.find (\<lambda>i. get_u64 i ?bs \<noteq> 0) [1..<64]")
    case (Some i)
    then have i: "1 \<le> i" "i < 64" using find_upt_Some by fastforce+
    let ?fs = "put_block (seen fs) ?n (put_u64 i 0 ?bs)"
    have "sfs_fs_allocate_block fs = (Some (get_u64 i ?bs), ?fs)"
      using h fs v len i Some by (simp add: sfs_fs_allocate_block_def Let_def disk_access)
    moreover have "abs_fs ?fs = take_block ?A" "fs_ok ?fs" using fs v len i Some by (simp_all add: take_block_def Let_def)
    moreover have "\<exists>h. superblock ?fs = ?sb\<lparr>free_blocks_head := h\<rparr>" by (intro exI [of _ ?n]) simp
    ultimately show ?thesis using Some by (intro exI [of _ ?fs]) (simp add: next_block_def)
  next
    case None
    let ?fs = "set_super (seen fs) (?sb\<lparr>free_blocks_head := get_u64 0 ?bs\<rparr>)"
    have "sfs_fs_allocate_block fs = (Some ?n, ?fs)"
      using h fs v None by (simp add: sfs_fs_allocate_block_def Let_def disk_access)
    moreover have "abs_fs ?fs = take_block ?A" "fs_ok ?fs" using fs None by (simp_all add: take_block_def Let_def)
    moreover have "\<exists>h. superblock ?fs = ?sb\<lparr>free_blocks_head := h\<rparr>" by simp blast
    ultimately show ?thesis using None by (intro exI [of _ ?fs]) (simp add: next_block_def)
  qed
qed

lemma head_length: "alloc_ok fs \<Longrightarrow> free_blocks (abs_fs fs) \<noteq> {} \<Longrightarrow> length (a_block (abs_fs fs) (free_blocks_head (superblock fs))) = BLOCK_SIZE"
proof (erule alloc_okE)
  fix ns
  assume n: "free_blocks (abs_fs fs) \<noteq> {}" "fs_ok fs" "free_rep (abs_fs fs) ns"
    "free_blocks (abs_fs fs) = set (free_list (a_block (abs_fs fs)) ns)"
  then have "free_blocks_head (superblock fs) \<in> set ns" by (cases ns) (auto simp: free_rep_def free_list_def)
  then show ?thesis using free_rep_valid [OF n(3)] n(2) by simp
qed

lemma allocate_block_ok:
  assumes ok: "alloc_ok fs" and ne: "free_blocks (abs_fs fs) \<noteq> {}"
  shows "\<exists>b fs'. sfs_fs_allocate_block fs = (Some b, fs') \<and> alloc_ok fs' \<and>
    b \<in> free_blocks (abs_fs fs) \<and> free_blocks (abs_fs fs') = free_blocks (abs_fs fs) - {b} \<and>
    a_inode (abs_fs fs') = a_inode (abs_fs fs) \<and>
    (\<forall>c. c \<notin> free_blocks (abs_fs fs) \<longrightarrow> a_block (abs_fs fs') c = a_block (abs_fs fs) c) \<and>
    (\<exists>h. superblock fs' = (superblock fs)\<lparr>free_blocks_head := h\<rparr>) \<and>
    b = next_block (abs_fs fs) \<and> a_block (abs_fs fs') b = a_block (abs_fs fs) b \<and> abs_fs fs' = take_block (abs_fs fs)"
proof -
  obtain ns where rep: "free_rep (abs_fs fs) ns" using ok by (rule alloc_okE)
  have len: "length (a_block (abs_fs fs) (free_blocks_head (a_super (abs_fs fs)))) = BLOCK_SIZE" using head_length [OF ok ne] by simp
  note t = take_block_rep [OF rep ne len]
  obtain fs' where 1: "sfs_fs_allocate_block fs = (Some (next_block (abs_fs fs)), fs')" "fs_ok fs'" "abs_fs fs' = take_block (abs_fs fs)"
    "\<exists>h. superblock fs' = (superblock fs)\<lparr>free_blocks_head := h\<rparr>"
    using allocate_block_take [OF ok ne] by blast
  have "alloc_ok fs'" using 1(2,3) t(1) by (simp add: alloc_ok_def)
  then show ?thesis using 1 t(2-6) by (intro exI [of _ "next_block (abs_fs fs)"] exI [of _ fs']) auto
qed

text \<open>The free space of one state is that of another. Then so is what any number of allocations find and leave.\<close>

definition same_free :: "fs_abs \<Rightarrow> fs_abs \<Rightarrow> bool" where
  "same_free A B \<longleftrightarrow> free_blocks_head (a_super B) = free_blocks_head (a_super A) \<and> (\<forall>b\<in>free_blocks A. a_block B b = a_block A b)"

definition space_ok :: "fs_abs \<Rightarrow> bool" where
  "space_ok A \<longleftrightarrow> (\<exists>ns. free_rep A ns) \<and> (\<forall>b\<in>free_blocks A. length (a_block A b) = BLOCK_SIZE)"

lemma alloc_ok_space: "alloc_ok fs \<Longrightarrow> space_ok (abs_fs fs)"
proof (erule alloc_okE)
  fix ns
  assume n: "fs_ok fs" "free_rep (abs_fs fs) ns" "free_blocks (abs_fs fs) = set (free_list (a_block (abs_fs fs)) ns)"
  then have "\<forall>b\<in>free_blocks (abs_fs fs). valid_block (superblock fs) b" by (simp add: free_rep_def)
  then show ?thesis using n(1,2) by (auto simp: space_ok_def)
qed

lemma space_take:
  assumes "space_ok A" "free_blocks A \<noteq> {}"
  shows "space_ok (take_block A)" "free_blocks (take_block A) = free_blocks A - {next_block A}" "next_block A \<in> free_blocks A"
    "free_blocks_head (a_super A) \<in> free_blocks A"
proof -
  obtain ns where rep: "free_rep A ns" and len: "\<forall>b\<in>free_blocks A. length (a_block A b) = BLOCK_SIZE"
    using assms(1) by (auto simp: space_ok_def)
  have "ns \<noteq> []" using assms(2) free_blocks_rep [OF rep] by (auto simp: free_list_def)
  then have hd: "free_blocks_head (a_super A) \<in> free_blocks A"
    using rep free_blocks_rep [OF rep] by (cases ns) (auto simp: free_rep_def free_list_def)
  note t = take_block_rep [OF rep assms(2) bspec [OF len hd]]
  show "free_blocks (take_block A) = free_blocks A - {next_block A}" "next_block A \<in> free_blocks A"
    "free_blocks_head (a_super A) \<in> free_blocks A"
    by (rule t)+
  show "space_ok (take_block A)" using t(1,3,8) len by (simp add: space_ok_def)
qed

lemma same_free_blocks: "space_ok A \<Longrightarrow> same_free A B \<Longrightarrow> free_blocks B = free_blocks A"
proof -
  assume a: "space_ok A" "same_free A B"
  then obtain ns where rep: "free_rep A ns" by (auto simp: space_ok_def)
  have b: "\<forall>n\<in>set ns. a_block B n = a_block A n"
    using a(2) free_blocks_rep [OF rep] by (simp add: same_free_def free_list_def)
  then have "index_chain (a_block B) (free_blocks_head (a_super B)) ns"
    using rep a(2) index_chain_cong [of ns "a_block B" "a_block A"] by (simp add: free_rep_def same_free_def)
  moreover have "free_list (a_block B) ns = free_list (a_block A) ns"
    using b unfolding free_list_def by (metis (no_types, lifting) map_cong)
  ultimately show ?thesis using free_blocks_rep [OF rep] by (auto simp: free_blocks_def dest: index_chain_unique)
qed

lemma same_free_take:
  assumes "space_ok A" "same_free A B" "free_blocks A \<noteq> {}"
  shows "next_block B = next_block A" "a_block B (next_block A) = a_block A (next_block A)" "same_free (take_block A) (take_block B)"
proof -
  note t = space_take [OF assms(1,3)]
  have h: "free_blocks_head (a_super B) = free_blocks_head (a_super A)" "\<forall>b\<in>free_blocks A. a_block B b = a_block A b"
    using assms(2) by (simp_all add: same_free_def)
  have b: "a_block B (free_blocks_head (a_super A)) = a_block A (free_blocks_head (a_super A))" using h(2) t(4) by blast
  show "next_block B = next_block A" unfolding next_block_def Let_def h(1) b ..
  show "a_block B (next_block A) = a_block A (next_block A)" using h(2) t(3) by blast
  show "same_free (take_block A) (take_block B)"
    unfolding same_free_def t(2) unfolding take_block_def Let_def h(1) b by (auto simp: h split: option.split)
qed

lemma same_free_takes:
  assumes "space_ok A" "same_free A B" "h \<le> card (free_blocks A)"
  shows "space_ok ((take_block ^^ h) A) \<and> same_free ((take_block ^^ h) A) ((take_block ^^ h) B) \<and>
    card (free_blocks ((take_block ^^ h) A)) = card (free_blocks A) - h"
  using assms(3)
proof (induction h)
  case 0
  then show ?case using assms by simp
next
  case (Suc h)
  then have IH: "space_ok ((take_block ^^ h) A)" "same_free ((take_block ^^ h) A) ((take_block ^^ h) B)"
    "card (free_blocks ((take_block ^^ h) A)) = card (free_blocks A) - h" by simp_all
  then have "free_blocks ((take_block ^^ h) A) \<noteq> {}" using Suc.prems by auto
  note t = space_take [OF IH(1) this] same_free_take [OF IH(1,2) this]
  show ?case using t(1-3,7) IH(3) by (simp add: card_Diff_singleton)
qed

lemma allocate_block_none:
  "alloc_ok fs \<Longrightarrow> free_blocks (abs_fs fs) = {} \<Longrightarrow> sfs_fs_allocate_block fs = (None, fs)"
  by (simp add: free_blocks_empty sfs_fs_allocate_block_def)

subsection \<open>Correctness of release\<close>

text \<open>
  The walk ends in one of two ways: it stores the number in an empty slot of an index block of
  the list, or it hangs the block behind the last index block.
\<close>

definition slot_filled :: "fs_abs \<Rightarrow> u64 list \<Rightarrow> u64 \<Rightarrow> fs_abs \<Rightarrow> bool" where
  "slot_filled A ns b A' \<longleftrightarrow> (\<exists>p i. p \<in> set ns \<and> 1 \<le> i \<and> i < 64 \<and> get_u64 i (a_block A p) = 0 \<and>
     A' = A\<lparr>a_block := (a_block A)(p := put_u64 i b (a_block A p))\<rparr>)"

definition node_appended :: "fs_abs \<Rightarrow> u64 \<Rightarrow> u64 \<Rightarrow> fs_abs \<Rightarrow> bool" where
  "node_appended A l b A' \<longleftrightarrow>
     A' = A\<lparr>a_block := (a_block A)(l := put_u64 0 b (a_block A l), b := zero_block)\<rparr>"

lemma free_block_walk_ok:
  assumes "fs_ok fs" "index_chain (a_block (abs_fs fs)) node ns"
    and "\<forall>n\<in>set ns. valid_block (superblock fs) n" "valid_block (superblock fs) b"
    and "length tmp = BLOCK_SIZE"
    and "node = 0 \<longrightarrow> valid_block (superblock fs) prev \<and> tmp = a_block (abs_fs fs) prev"
  shows "\<exists>fs'. free_block_walk fs b node prev tmp = Some (0, fs') \<and> fs_ok fs' \<and> superblock fs' = superblock fs \<and>
    (slot_filled (abs_fs fs) ns b (abs_fs fs') \<or> node_appended (abs_fs fs) (last (prev # ns)) b (abs_fs fs'))"
  using assms
proof (induction ns arbitrary: fs node prev tmp)
  case Nil
  let ?A = "abs_fs fs" and ?fs1 = "put_block fs prev (put_u64 0 b tmp)"
  from Nil have f1: "fs_ok ?fs1" "superblock ?fs1 = superblock fs" by simp_all
  from Nil f1 have "free_block_walk fs b node prev tmp = Some (0, put_block ?fs1 b zero_block)"
    by (subst free_block_walk.simps) (simp add: Let_def disk_access)
  moreover from Nil f1 have "node_appended ?A prev b (abs_fs (put_block ?fs1 b zero_block))"
    by (simp add: node_appended_def)
  ultimately show ?case using Nil f1 by simp
next
  case (Cons n ns)
  let ?A = "abs_fs fs" and ?bs = "a_block (abs_fs fs) n" and ?fs1 = "seen fs"
  from Cons.prems have n: "node = n" "n \<noteq> 0" "valid_block (superblock fs) n" "length ?bs = BLOCK_SIZE"
    by simp_all
  show ?case
  proof (cases "List.find (\<lambda>i. get_u64 i ?bs = 0) [1..<64]")
    case (Some i)
    then have i: "1 \<le> i" "i < 64" "get_u64 i ?bs = 0" using find_upt_Some by fastforce+
    let ?fs2 = "put_block ?fs1 n (put_u64 i b ?bs)"
    have "free_block_walk fs b node prev tmp = Some (0, ?fs2)"
      using Cons.prems n i Some by (subst free_block_walk.simps) (simp add: Let_def disk_access)
    moreover have "slot_filled ?A (n # ns) b (abs_fs ?fs2)"
      unfolding slot_filled_def using Cons.prems n i by (intro exI [of _ n] exI [of _ i]) simp
    ultimately show ?thesis using Cons.prems n i by (intro exI [of _ ?fs2]) simp
  next
    case None
    have step: "free_block_walk fs b node prev tmp = free_block_walk ?fs1 b (get_u64 0 ?bs) n ?bs"
      using Cons.prems n None by (subst free_block_walk.simps) (simp add: Let_def disk_access)
    have "\<exists>fs'. free_block_walk ?fs1 b (get_u64 0 ?bs) n ?bs = Some (0, fs') \<and> fs_ok fs' \<and>
        superblock fs' = superblock ?fs1 \<and>
        (slot_filled (abs_fs ?fs1) ns b (abs_fs fs') \<or> node_appended (abs_fs ?fs1) (last (n # ns)) b (abs_fs fs'))"
      using Cons.prems n by (intro Cons.IH) simp_all
    then show ?thesis unfolding step by (auto simp: slot_filled_def)
  qed
qed

lemma free_rep_append:
  assumes rep: "free_rep A ns" and ne: "ns \<noteq> []" and b: "valid_block (a_super A) b" "b \<notin> free_blocks A"
    and len: "length (a_block A (last ns)) = BLOCK_SIZE" and A': "node_appended A (last ns) b A'"
  shows "free_rep A' (ns @ [b])" "free_blocks A' = insert b (free_blocks A)"
proof -
  let ?m = "a_block A" and ?m' = "(a_block A)(last ns := put_u64 0 b (a_block A (last ns)), b := zero_block)"
  have fb: "free_blocks A = set (free_list ?m ns)" by (rule free_blocks_rep [OF rep])
  have d: "distinct ns" and bn: "b \<notin> set ns" using rep b fb by (auto simp: free_rep_def free_list_def)
  have b0: "b \<noteq> 0" using b by (auto simp: valid_block_def)
  have l: "last ns \<in> set ns" "last ns \<noteq> b" "last ns \<notin> set (butlast ns)"
    using ne bn d by (auto simp: distinct_butlast) (metis append_butlast_last_id distinct_append disjoint_iff list.set_intros(1))
  have "entries (put_u64 0 b (?m (last ns))) = entries (?m (last ns))"
    using len by (auto simp: entries_def get_put_u64 intro!: arg_cong [where f = "filter _"])
  then have e: "entries (?m' n) = entries (?m n)" if "n \<in> set ns" for n
    using that bn by auto
  have ch: "index_chain ?m' (free_blocks_head (a_super A)) (ns @ [b])"
    using rep bn ne d b0 l len
    by (intro index_chain_append [of ?m]) (auto simp: free_rep_def get_put_u64 dest: in_set_butlastD)
  have fl: "mset (free_list ?m' (ns @ [b])) = add_mset b (mset (free_list ?m ns))"
    using e by (simp add: free_list_def cong: map_cong)
  then have st: "set (free_list ?m' (ns @ [b])) = insert b (set (free_list ?m ns))"
    by (metis set_mset_add_mset_insert set_mset_mset)
  have "distinct (free_list ?m' (ns @ [b]))"
    using fl rep b fb by (metis distinct.simps(2) free_rep_def mset.simps(2) mset_eq_imp_distinct_iff)
  with ch st rep b A' show rep': "free_rep A' (ns @ [b])"
    by (simp add: free_rep_def node_appended_def)
  show "free_blocks A' = insert b (free_blocks A)"
    using free_blocks_rep [OF rep'] st fb A' by (simp add: node_appended_def)
qed

lemma free_rep_fill:
  assumes fs: "fs_ok fs" and rep: "free_rep (abs_fs fs) ns" and b: "valid_block (superblock fs) b"
    "b \<notin> free_blocks (abs_fs fs)" and A': "slot_filled (abs_fs fs) ns b A'"
  shows "free_rep A' ns" "free_blocks A' = insert b (free_blocks (abs_fs fs))"
proof -
  let ?A = "abs_fs fs"
  obtain p i where p: "p \<in> set ns" "1 \<le> i" "i < 64" "get_u64 i (a_block ?A p) = 0"
    and A: "A' = ?A\<lparr>a_block := (a_block ?A)(p := put_u64 i b (a_block ?A p))\<rparr>"
    using A' by (auto simp: slot_filled_def)
  have len: "length (a_block ?A p) = BLOCK_SIZE" using fs free_rep_valid [OF rep p(1)] by simp
  have b0: "b \<noteq> 0" using b by (auto simp: valid_block_def)
  obtain xs ys where e: "entries (put_u64 i b (a_block ?A p)) = xs @ [b] @ ys" "entries (a_block ?A p) = xs @ [] @ ys"
    using entries_slot [OF p(2,3) len p(4) b0] by auto
  have "get_u64 0 (put_u64 i b (a_block ?A p)) = get_u64 0 (a_block ?A p)"
    using p len by (simp add: get_put_u64)
  note slot = free_rep_slot [OF rep p(1) this e]
  show "free_rep A' ns" "free_blocks A' = insert b (free_blocks ?A)"
    unfolding A using slot b by auto
qed

lemma free_blocks_frame:
  assumes "slot_filled A ns b A' \<or> node_appended A l b A'" "set ns \<subseteq> F" "l \<in> F"
  shows "a_inode A' = a_inode A" "a_super A' = a_super A" "c \<notin> insert b F \<Longrightarrow> a_block A' c = a_block A c"
  using assms by (auto simp: slot_filled_def node_appended_def)

lemma free_block_ok:
  assumes ok: "alloc_ok fs" and b: "valid_block (superblock fs) b" "b \<notin> free_blocks (abs_fs fs)"
  shows "\<exists>fs'. sfs_fs_free_block fs b = Some (0, fs') \<and> alloc_ok fs' \<and>
    free_blocks (abs_fs fs') = insert b (free_blocks (abs_fs fs)) \<and>
    a_inode (abs_fs fs') = a_inode (abs_fs fs) \<and>
    (\<forall>c. c \<notin> insert b (free_blocks (abs_fs fs)) \<longrightarrow> a_block (abs_fs fs') c = a_block (abs_fs fs) c) \<and>
    (\<exists>h. superblock fs' = (superblock fs)\<lparr>free_blocks_head := h\<rparr>)"
proof -
  let ?A = "abs_fs fs" and ?h = "free_blocks_head (superblock fs)"
  obtain ns where fs: "fs_ok fs" and rep: "free_rep ?A ns" and fb: "free_blocks ?A = set (free_list (a_block ?A) ns)"
    using ok by (rule alloc_okE)
  have b0: "b \<noteq> 0" using b by (auto simp: valid_block_def)
  show ?thesis
  proof (cases "?h = 0")
    case True
    let ?sb = "(superblock fs)\<lparr>free_blocks_head := b\<rparr>"
    let ?fs' = "set_super (put_block fs b zero_block) ?sb"
    have res: "sfs_fs_free_block fs b = Some (0, ?fs')"
      using True fs b by (simp add: sfs_fs_free_block_def Let_def disk_access)
    have A: "fs_ok ?fs'" "abs_fs ?fs' = ?A\<lparr>a_super := ?sb, a_block := (a_block ?A)(b := zero_block)\<rparr>"
      using fs b by simp_all
    have emp: "free_blocks ?A = {}" using free_blocks_empty [OF ok] True by simp
    have rep': "free_rep (abs_fs ?fs') [b]"
      using b b0 valid_same_geometry(2) [of "superblock fs" ?sb]
      by (simp add: free_rep_def A free_list_def)
    then have "free_blocks (abs_fs ?fs') = {b}"
      using free_blocks_rep [OF rep'] by (simp add: A free_list_def)
    moreover have "\<exists>h. superblock ?fs' = (superblock fs)\<lparr>free_blocks_head := h\<rparr>" by simp blast
    ultimately show ?thesis
      using res A(1) rep' emp by (intro exI [of _ ?fs']) (auto simp: alloc_ok_def A(2))
  next
    case False
    then have ne: "ns \<noteq> []" using rep by (auto simp: free_rep_def)
    have ch: "index_chain (a_block ?A) ?h ns" using rep by (simp add: free_rep_def)
    have vs: "\<forall>n\<in>set ns. valid_block (superblock fs) n" using free_rep_valid [OF rep] by simp
    obtain fs' where w: "free_block_walk fs b ?h 0 zero_block = Some (0, fs')" "fs_ok fs'"
        "superblock fs' = superblock fs"
        and or: "slot_filled ?A ns b (abs_fs fs') \<or> node_appended ?A (last ns) b (abs_fs fs')"
      using free_block_walk_ok [OF fs ch vs b(1), of zero_block 0] False ne by auto
    have len: "length (a_block ?A (last ns)) = BLOCK_SIZE" using fs vs ne by simp
    have "(\<exists>ns'. free_rep (abs_fs fs') ns') \<and> free_blocks (abs_fs fs') = insert b (free_blocks ?A)"
      using or
    proof
      assume "slot_filled ?A ns b (abs_fs fs')"
      from free_rep_fill [OF fs rep b this] show ?thesis by blast
    next
      assume "node_appended ?A (last ns) b (abs_fs fs')"
      from free_rep_append [OF rep ne _ b(2) len this] b(1) show ?thesis by (metis abs_fs_sel)
    qed
    moreover have sub: "set ns \<subseteq> free_blocks ?A" "last ns \<in> free_blocks ?A"
      using ne unfolding fb by (auto simp: free_list_def)
    moreover have "sfs_fs_free_block fs b = Some (0, fs')"
      using False w(1) by (simp add: sfs_fs_free_block_def)
    moreover have "\<exists>h. superblock fs' = (superblock fs)\<lparr>free_blocks_head := h\<rparr>"
      unfolding w(3) by (intro exI [of _ ?h]) simp
    ultimately show ?thesis
      using w(2) free_blocks_frame [OF or sub] unfolding alloc_ok_def by blast
  qed
qed

subsection \<open>The allocator contract\<close>

definition block_alloc :: "filesystem \<Rightarrow> (u64 \<times> filesystem) option" where
  "block_alloc fs = (case sfs_fs_allocate_block fs of (Some b, fs) \<Rightarrow> Some (b, fs) | (None, fs) \<Rightarrow> None)"

definition block_release :: "filesystem \<Rightarrow> u64 \<Rightarrow> filesystem option" where
  "block_release fs b =
     (case sfs_fs_free_block fs b of Some (r, fs) \<Rightarrow> if r = 0 then Some fs else None | None \<Rightarrow> None)"

lemma valid_block_head [simp]: "valid_block (sb\<lparr>free_blocks_head := h\<rparr>) = valid_block sb"
  by (rule valid_same_geometry) simp

lemma valid_ino_head [simp]: "valid_ino (sb\<lparr>free_blocks_head := h\<rparr>) = valid_ino sb"
  by (rule valid_same_geometry) simp

interpretation blocks_alloc: exhaustible_allocator alloc_ok "\<lambda>fs. free_blocks (abs_fs fs)"
  "\<lambda>fs. valid_block (superblock fs)" block_alloc block_release
proof unfold_locales
  fix s
  assume "alloc_ok s" "free_blocks (abs_fs s) \<noteq> {}"
  from allocate_block_ok [OF this] obtain b s' h where
    "sfs_fs_allocate_block s = (Some b, s')" "alloc_ok s'" "b \<in> free_blocks (abs_fs s)"
    "free_blocks (abs_fs s') = free_blocks (abs_fs s) - {b}" "superblock s' = (superblock s)\<lparr>free_blocks_head := h\<rparr>"
    by blast
  then show "\<exists>a s'. block_alloc s = Some (a, s') \<and> alloc_ok s' \<and> a \<in> free_blocks (abs_fs s) \<and>
      free_blocks (abs_fs s') = free_blocks (abs_fs s) - {a} \<and> valid_block (superblock s') = valid_block (superblock s)"
    by (intro exI [of _ b] exI [of _ s']) (simp add: block_alloc_def)
next
  fix s a
  assume "alloc_ok s" "valid_block (superblock s) a" "a \<notin> free_blocks (abs_fs s)"
  from free_block_ok [OF this] show "\<exists>s'. block_release s a = Some s' \<and> alloc_ok s' \<and>
      free_blocks (abs_fs s') = insert a (free_blocks (abs_fs s)) \<and> valid_block (superblock s') = valid_block (superblock s)"
    by (auto simp: block_release_def)
next
  fix s a
  assume "alloc_ok s" "a \<in> free_blocks (abs_fs s)"
  then show "valid_block (superblock s) a"
    by (auto elim!: alloc_okE simp: free_rep_def)
next
  fix s
  assume "alloc_ok s" "free_blocks (abs_fs s) = {}"
  then show "block_alloc s = None" by (simp add: block_alloc_def allocate_block_none)
qed

end
