(* ===== verification/Inode_Alloc.thy ===== *)
theory Inode_Alloc
  imports Block_Alloc
begin

text \<open>
  The allocator of inodes of \<^verbatim>\<open>src/src/fs.c\<close>, \<^verbatim>\<open>sfs_fs_inode_allocate\<close> and
  \<^verbatim>\<open>sfs_fs_inode_deallocate\<close>. Free inodes form a linked list whose links are hidden in the size
  field; the list is headed in the superblock.
\<close>

subsection \<open>Operations\<close>

definition sfs_fs_inode_allocate :: "filesystem \<Rightarrow> (sfs_fs_inode option \<times> filesystem) option" where
  "sfs_fs_inode_allocate fs =
     (let inum = free_inode_head (superblock fs)
      in if inum = 0 then Some (None, fs)
         else do {
           (r, fs) \<leftarrow> sfs_fs_read_inode fs inum;
           (case r of
              None \<Rightarrow> Some (None, fs)
            | Some inode \<Rightarrow>
                let sb = (superblock fs)\<lparr>free_inode_head := isize inode\<rparr>;
                    (r, d) = write_superblock (disk fs) sb;
                    fs = fs\<lparr>superblock := sb, disk := d\<rparr>
                in if r \<noteq> 0 then Some (None, fs) else Some (Some inode, fs))
         })"

text \<open>The loop over the direct block pointers.\<close>

fun free_pointers :: "filesystem \<Rightarrow> u64 list \<Rightarrow> (int \<times> filesystem) option" where
  "free_pointers fs [] = Some (0, fs)"
| "free_pointers fs (p # ps) =
     (if p \<noteq> 0
      then do {
        (r, fs) \<leftarrow> sfs_fs_free_block fs p;
        if r \<noteq> 0 then Some (-1, fs) else free_pointers fs ps
      }
      else free_pointers fs ps)"

definition sfs_fs_inode_deallocate :: "filesystem \<Rightarrow> sfs_fs_inode \<Rightarrow> (int \<times> filesystem) option" where
  "sfs_fs_inode_deallocate fs inode =
     (let inode = inode\<lparr>isize := free_inode_head (superblock fs)\<rparr>
      in do {
        (r, fs) \<leftarrow> sfs_fs_write_inode fs inode;
        if r \<noteq> 0 then Some (-1, fs)
        else let sb = (superblock fs)\<lparr>free_inode_head := inumber inode\<rparr>;
                 (r, d) = write_superblock (disk fs) sb;
                 fs = fs\<lparr>superblock := sb, disk := d\<rparr>
             in if r \<noteq> 0 then Some (-1, fs)
                else free_pointers fs (take SFS_NDIR_BLOCKS (block_pointers inode))
      })"

subsection \<open>The list of free inodes\<close>

text \<open>
  The list ends at the first number that is not an inode of the table: 0, or, on a freshly
  formatted disk, the number after the last inode.
\<close>

fun inode_chain :: "(u64 \<Rightarrow> sfs_fs_inode) \<Rightarrow> u64 \<Rightarrow> u64 list \<Rightarrow> u64 \<Rightarrow> bool" where
  "inode_chain m h [] e \<longleftrightarrow> h = e"
| "inode_chain m h (n # ns) e \<longleftrightarrow> h = n \<and> inode_chain m (isize (m n)) ns e"

definition inodes_rep :: "fs_abs \<Rightarrow> u64 list \<Rightarrow> u64 \<Rightarrow> bool" where
  "inodes_rep A ns e \<longleftrightarrow> inode_chain (a_inode A) (free_inode_head (a_super A)) ns e \<and> distinct ns \<and>
     (\<forall>n\<in>set ns. valid_ino (a_super A) n \<and> inumber (a_inode A n) = n) \<and> \<not> valid_ino (a_super A) e"

definition free_inodes :: "fs_abs \<Rightarrow> u64 set" where
  "free_inodes A = {n. \<exists>ns e. inodes_rep A ns e \<and> n \<in> set ns}"

definition inode_alloc_ok :: "filesystem \<Rightarrow> bool" where
  "inode_alloc_ok fs \<longleftrightarrow> alloc_ok fs \<and> (\<exists>ns e. inodes_rep (abs_fs fs) ns e)"

lemma inode_chain_unique:
  "inode_chain m h ns e \<Longrightarrow> inode_chain m h ns' e' \<Longrightarrow> \<forall>n\<in>set ns. P n \<Longrightarrow> \<forall>n\<in>set ns'. P n \<Longrightarrow>
   \<not> P e \<Longrightarrow> \<not> P e' \<Longrightarrow> ns = ns' \<and> e = e'"
proof (induction ns arbitrary: h ns')
  case Nil
  then show ?case by (cases ns') auto
next
  case (Cons n ns)
  then show ?case by (cases ns') auto
qed

lemma inodes_rep_unique: "inodes_rep A ns e \<Longrightarrow> inodes_rep A ns' e' \<Longrightarrow> ns = ns' \<and> e = e'"
  using inode_chain_unique [of "a_inode A" "free_inode_head (a_super A)" ns e ns' e' "valid_ino (a_super A)"]
  by (simp add: inodes_rep_def)

lemma free_inodes_rep: "inodes_rep A ns e \<Longrightarrow> free_inodes A = set ns"
  by (auto simp: free_inodes_def dest: inodes_rep_unique)

lemma inode_chain_cong:
  "(\<And>n. n \<in> set ns \<Longrightarrow> isize (m' n) = isize (m n)) \<Longrightarrow> inode_chain m' h ns e = inode_chain m h ns e"
  by (induction ns arbitrary: h) auto

text \<open>The list only depends on the free inodes themselves and on the head.\<close>

lemma inodes_rep_cong:
  assumes "inodes_rep A ns e" "\<And>n. n \<in> set ns \<Longrightarrow> a_inode A' n = a_inode A n"
    "free_inode_head (a_super A') = free_inode_head (a_super A)" "valid_ino (a_super A') = valid_ino (a_super A)"
  shows "inodes_rep A' ns e"
  using assms inode_chain_cong [of ns "a_inode A'" "a_inode A"] by (simp add: inodes_rep_def)

lemma valid_ino_ihead [simp]: "valid_ino (sb\<lparr>free_inode_head := h\<rparr>) = valid_ino sb"
  by (rule valid_same_geometry) simp

lemma valid_block_ihead [simp]: "valid_block (sb\<lparr>free_inode_head := h\<rparr>) = valid_block sb"
  by (rule valid_same_geometry) simp

lemma free_rep_other [simp]:
  "free_blocks_head sb = free_blocks_head (a_super A) \<Longrightarrow> valid_block sb = valid_block (a_super A) \<Longrightarrow>
   free_rep (A\<lparr>a_super := sb\<rparr>) ns = free_rep A ns"
  "free_rep (A\<lparr>a_inode := f\<rparr>) ns = free_rep A ns"
  by (simp_all add: free_rep_def)

lemma free_blocks_other [simp]:
  "free_blocks_head sb = free_blocks_head (a_super A) \<Longrightarrow> free_blocks (A\<lparr>a_super := sb\<rparr>) = free_blocks A"
  "free_blocks (A\<lparr>a_inode := f\<rparr>) = free_blocks A"
  by (simp_all add: free_blocks_def)

lemma alloc_ok_abs: "fs_ok fs' \<Longrightarrow> alloc_ok fs \<Longrightarrow> (\<And>ns. free_rep (abs_fs fs) ns \<Longrightarrow> free_rep (abs_fs fs') ns) \<Longrightarrow> alloc_ok fs'"
  by (auto simp: alloc_ok_def)

subsection \<open>Correctness of allocation\<close>

lemma inode_allocate_ok:
  assumes ok: "inode_alloc_ok fs" and ne: "free_inodes (abs_fs fs) \<noteq> {}"
  shows "\<exists>i fs'. sfs_fs_inode_allocate fs = Some (Some i, fs') \<and> inode_alloc_ok fs' \<and>
    inumber i \<in> free_inodes (abs_fs fs) \<and> i = a_inode (abs_fs fs) (inumber i) \<and>
    free_inodes (abs_fs fs') = free_inodes (abs_fs fs) - {inumber i} \<and>
    free_blocks (abs_fs fs') = free_blocks (abs_fs fs) \<and>
    a_inode (abs_fs fs') = a_inode (abs_fs fs) \<and> a_block (abs_fs fs') = a_block (abs_fs fs) \<and>
    (\<exists>h. superblock fs' = (superblock fs)\<lparr>free_inode_head := h\<rparr>)"
proof -
  let ?A = "abs_fs fs" and ?h = "free_inode_head (superblock fs)"
  obtain ns e where fs: "fs_ok fs" and al: "alloc_ok fs" and rep: "inodes_rep ?A ns e"
    using ok by (auto simp: inode_alloc_ok_def alloc_ok_def)
  have fi: "free_inodes ?A = set ns" by (rule free_inodes_rep [OF rep])
  with ne rep obtain ns' where ns: "ns = ?h # ns'" by (cases ns) (auto simp: inodes_rep_def)
  let ?i = "a_inode ?A ?h"
  have v: "valid_ino (superblock fs) ?h" and i: "inumber ?i = ?h"
    using rep ns by (auto simp: inodes_rep_def)
  have h0: "?h \<noteq> 0" using v by (auto simp: valid_ino_def)
  let ?sb = "(superblock fs)\<lparr>free_inode_head := isize ?i\<rparr>"
  let ?fs = "set_super (after_read fs ?h) ?sb"
  have res: "sfs_fs_inode_allocate fs = Some (Some ?i, ?fs)"
    using fs v h0 by (simp add: sfs_fs_inode_allocate_def Let_def sfs_fs_read_inode_ok disk_access)
  have A: "abs_fs ?fs = ?A\<lparr>a_super := ?sb\<rparr>" "fs_ok ?fs" using fs v by simp_all
  have al': "alloc_ok ?fs"
    using A(2) al by (rule alloc_ok_abs) (simp add: A(1))
  have rep': "inodes_rep (abs_fs ?fs) ns' e" using rep ns by (simp add: A(1) inodes_rep_def)
  have "free_inodes (abs_fs ?fs) = free_inodes ?A - {?h}"
    using free_inodes_rep [OF rep'] fi ns rep by (auto simp: inodes_rep_def)
  moreover have "free_blocks (abs_fs ?fs) = free_blocks ?A"
    by (simp add: A(1))
  moreover have "inode_alloc_ok ?fs" using al' rep' by (auto simp: inode_alloc_ok_def)
  moreover have "\<exists>h. superblock ?fs = (superblock fs)\<lparr>free_inode_head := h\<rparr>" by simp blast
  moreover have "?h \<in> free_inodes ?A" using fi ns by simp
  ultimately show ?thesis
    using res i by (intro exI [of _ ?i] exI [of _ ?fs]) (simp add: A(1))
qed

subsection \<open>Correctness of deallocation\<close>

lemma free_pointers_ok:
  assumes "alloc_ok fs" "distinct (filter (\<lambda>p. p \<noteq> 0) ps)"
    and "\<forall>p\<in>set ps. p \<noteq> 0 \<longrightarrow> valid_block (superblock fs) p \<and> p \<notin> free_blocks (abs_fs fs)"
  shows "\<exists>fs'. free_pointers fs ps = Some (0, fs') \<and> alloc_ok fs' \<and>
    free_blocks (abs_fs fs') = free_blocks (abs_fs fs) \<union> (set ps - {0}) \<and>
    a_inode (abs_fs fs') = a_inode (abs_fs fs) \<and>
    (\<forall>c. c \<notin> free_blocks (abs_fs fs') \<longrightarrow> a_block (abs_fs fs') c = a_block (abs_fs fs) c) \<and>
    (\<exists>h. superblock fs' = (superblock fs)\<lparr>free_blocks_head := h\<rparr>)"
  using assms
proof (induction ps arbitrary: fs)
  case Nil
  then show ?case by (auto intro!: exI [of _ "free_blocks_head (superblock fs)"])
next
  case (Cons p ps)
  show ?case
  proof (cases "p = 0")
    case True
    with Cons.prems Cons.IH [of fs] show ?thesis by simp
  next
    case False
    from False Cons.prems have p: "valid_block (superblock fs) p" "p \<notin> free_blocks (abs_fs fs)" by auto
    from free_block_ok [OF Cons.prems(1) p] obtain fs1 h where 1: "sfs_fs_free_block fs p = Some (0, fs1)"
      "alloc_ok fs1" "free_blocks (abs_fs fs1) = insert p (free_blocks (abs_fs fs))"
      "a_inode (abs_fs fs1) = a_inode (abs_fs fs)"
      "\<forall>c. c \<notin> insert p (free_blocks (abs_fs fs)) \<longrightarrow> a_block (abs_fs fs1) c = a_block (abs_fs fs) c"
      "superblock fs1 = (superblock fs)\<lparr>free_blocks_head := h\<rparr>"
      by blast
    have "distinct (filter (\<lambda>p. p \<noteq> 0) ps)" "p \<notin> set ps" using Cons.prems(2) False by auto
    with Cons.prems(3) 1(3,6) have
      "\<forall>q\<in>set ps. q \<noteq> 0 \<longrightarrow> valid_block (superblock fs1) q \<and> q \<notin> free_blocks (abs_fs fs1)"
      by auto
    from Cons.IH [OF 1(2) \<open>distinct (filter (\<lambda>p. p \<noteq> 0) ps)\<close> this] obtain fs2 k where 2:
      "free_pointers fs1 ps = Some (0, fs2)" "alloc_ok fs2"
      "free_blocks (abs_fs fs2) = free_blocks (abs_fs fs1) \<union> (set ps - {0})"
      "a_inode (abs_fs fs2) = a_inode (abs_fs fs1)"
      "\<forall>c. c \<notin> free_blocks (abs_fs fs2) \<longrightarrow> a_block (abs_fs fs2) c = a_block (abs_fs fs1) c"
      "superblock fs2 = (superblock fs1)\<lparr>free_blocks_head := k\<rparr>"
      by blast
    have "free_pointers fs (p # ps) = Some (0, fs2)" using False 1(1) 2(1) by simp
    moreover have "\<exists>h. superblock fs2 = (superblock fs)\<lparr>free_blocks_head := h\<rparr>"
      using 1(6) 2(6) by (intro exI [of _ k]) simp
    moreover have "free_blocks (abs_fs fs2) = free_blocks (abs_fs fs) \<union> (set (p # ps) - {0})"
      using False 1(3) 2(3) by auto
    moreover have "\<forall>c. c \<notin> free_blocks (abs_fs fs2) \<longrightarrow> a_block (abs_fs fs2) c = a_block (abs_fs fs) c"
      using 1(3,5) 2(3,5) by auto
    ultimately show ?thesis using 1(4) 2(2,4) by (intro exI [of _ fs2]) simp
  qed
qed

lemma inode_deallocate_ok:
  assumes ok: "inode_alloc_ok fs" and i: "wf_inode i" "valid_ino (superblock fs) (inumber i)"
    "inumber i \<notin> free_inodes (abs_fs fs)"
    and ps: "distinct (filter (\<lambda>p. p \<noteq> 0) (take 12 (block_pointers i)))"
    "\<forall>p\<in>set (take 12 (block_pointers i)). p \<noteq> 0 \<longrightarrow> valid_block (superblock fs) p \<and> p \<notin> free_blocks (abs_fs fs)"
  shows "\<exists>fs'. sfs_fs_inode_deallocate fs i = Some (0, fs') \<and> inode_alloc_ok fs' \<and>
    free_inodes (abs_fs fs') = insert (inumber i) (free_inodes (abs_fs fs)) \<and>
    free_blocks (abs_fs fs') = free_blocks (abs_fs fs) \<union> (set (take 12 (block_pointers i)) - {0}) \<and>
    (\<forall>n. n \<noteq> inumber i \<longrightarrow> a_inode (abs_fs fs') n = a_inode (abs_fs fs) n) \<and>
    (\<forall>c. c \<notin> free_blocks (abs_fs fs') \<longrightarrow> a_block (abs_fs fs') c = a_block (abs_fs fs) c) \<and>
    same_geometry (superblock fs) (superblock fs')"
proof -
  let ?A = "abs_fs fs" and ?i = "i\<lparr>isize := free_inode_head (superblock fs)\<rparr>"
  let ?fs1 = "after_write fs ?i" and ?sb = "(superblock fs)\<lparr>free_inode_head := inumber i\<rparr>"
  let ?fs2 = "set_super ?fs1 ?sb"
  obtain ns e where fs: "fs_ok fs" and al: "alloc_ok fs" and rep: "inodes_rep ?A ns e"
    using ok by (auto simp: inode_alloc_ok_def alloc_ok_def)
  have fi: "free_inodes ?A = set ns" by (rule free_inodes_rep [OF rep])
  note aw = after_write_abs [OF fs, of ?i]
  have step: "sfs_fs_inode_deallocate fs i = free_pointers ?fs2 (take 12 (block_pointers i))"
    using fs i aw by (simp add: sfs_fs_inode_deallocate_def Let_def sfs_fs_write_inode_ok disk_access)
  have A: "abs_fs ?fs2 = ?A\<lparr>a_super := ?sb, a_inode := (a_inode ?A)(inumber i := ?i)\<rparr>" "fs_ok ?fs2"
    using i aw by simp_all
  have al2: "alloc_ok ?fs2" using A(2) al by (rule alloc_ok_abs) (simp add: A(1))
  have fb2: "free_blocks (abs_fs ?fs2) = free_blocks ?A" by (simp add: A(1))
  obtain fs' h where w: "free_pointers ?fs2 (take 12 (block_pointers i)) = Some (0, fs')" "alloc_ok fs'"
      "free_blocks (abs_fs fs') = free_blocks ?A \<union> (set (take 12 (block_pointers i)) - {0})"
      "a_inode (abs_fs fs') = a_inode (abs_fs ?fs2)"
      "\<forall>c. c \<notin> free_blocks (abs_fs fs') \<longrightarrow> a_block (abs_fs fs') c = a_block (abs_fs ?fs2) c"
      "superblock fs' = (superblock ?fs2)\<lparr>free_blocks_head := h\<rparr>"
    using free_pointers_ok [OF al2 ps(1)] ps(2) fb2 by auto
  have ch: "inode_chain (a_inode (abs_fs fs')) (free_inode_head (superblock fs)) ns e"
    using rep fi i(3) inode_chain_cong [of ns "a_inode (abs_fs fs')" "a_inode ?A"]
    by (fastforce simp: inodes_rep_def w(4) A(1))
  have rep': "inodes_rep (abs_fs fs') (inumber i # ns) e"
    unfolding inodes_rep_def using rep fi i ch by (auto simp: inodes_rep_def w(4,6) A(1))
  have "inode_alloc_ok fs'" using w(2) rep' by (auto simp: inode_alloc_ok_def)
  moreover have "free_inodes (abs_fs fs') = insert (inumber i) (free_inodes ?A)"
    using free_inodes_rep [OF rep'] fi by simp
  moreover have "same_geometry (superblock fs) (superblock fs')"
    using w(6) by (simp add: same_geometry_def)
  ultimately show ?thesis
    using step w by (intro exI [of _ fs']) (simp add: A(1))
qed

subsection \<open>The allocator contract\<close>

definition empty_inode :: "u64 \<Rightarrow> sfs_fs_inode" where
  "empty_inode n =
     \<lparr>inumber = n, mode = 0, uid = 0, gid = 0, links = 0, access_time = 0, modified_time = 0,
      change_time = 0, isize = 0, block_pointers = replicate SFS_N_BLOCKS 0\<rparr>"

definition inode_alloc :: "filesystem \<Rightarrow> (u64 \<times> filesystem) option" where
  "inode_alloc fs =
     (case sfs_fs_inode_allocate fs of Some (Some i, fs) \<Rightarrow> Some (inumber i, fs) | _ \<Rightarrow> None)"

definition inode_release :: "filesystem \<Rightarrow> u64 \<Rightarrow> filesystem option" where
  "inode_release fs n =
     (case sfs_fs_inode_deallocate fs (empty_inode n) of
        Some (r, fs) \<Rightarrow> if r = 0 then Some fs else None | None \<Rightarrow> None)"

interpretation inodes_alloc: resource_allocator inode_alloc_ok "\<lambda>fs. free_inodes (abs_fs fs)"
  "\<lambda>fs. valid_ino (superblock fs)" inode_alloc inode_release
proof unfold_locales
  fix s
  assume "inode_alloc_ok s" "free_inodes (abs_fs s) \<noteq> {}"
  from inode_allocate_ok [OF this] obtain i s' h where
    "sfs_fs_inode_allocate s = Some (Some i, s')" "inode_alloc_ok s'" "inumber i \<in> free_inodes (abs_fs s)"
    "free_inodes (abs_fs s') = free_inodes (abs_fs s) - {inumber i}"
    "superblock s' = (superblock s)\<lparr>free_inode_head := h\<rparr>"
    by blast
  then show "\<exists>a s'. inode_alloc s = Some (a, s') \<and> inode_alloc_ok s' \<and> a \<in> free_inodes (abs_fs s) \<and>
      free_inodes (abs_fs s') = free_inodes (abs_fs s) - {a} \<and> valid_ino (superblock s') = valid_ino (superblock s)"
    by (intro exI [of _ "inumber i"] exI [of _ s']) (simp add: inode_alloc_def)
next
  fix s n
  assume "inode_alloc_ok s" "valid_ino (superblock s) n" "n \<notin> free_inodes (abs_fs s)"
  with inode_deallocate_ok [of s "empty_inode n"] obtain s' where
    "sfs_fs_inode_deallocate s (empty_inode n) = Some (0, s')" "inode_alloc_ok s'"
    "free_inodes (abs_fs s') = insert n (free_inodes (abs_fs s))" "same_geometry (superblock s) (superblock s')"
    by (auto simp: empty_inode_def wf_inode_def)
  then show "\<exists>s'. inode_release s n = Some s' \<and> inode_alloc_ok s' \<and>
      free_inodes (abs_fs s') = insert n (free_inodes (abs_fs s)) \<and> valid_ino (superblock s') = valid_ino (superblock s)"
    using valid_same_geometry(1) by (intro exI [of _ s']) (simp add: inode_release_def)
next
  fix s n
  assume "inode_alloc_ok s" "n \<in> free_inodes (abs_fs s)"
  then show "valid_ino (superblock s) n" by (auto simp: free_inodes_def inodes_rep_def)
qed

end
