(* ===== verification/File_Block.thy ===== *)
theory File_Block
  imports Inode_Alloc
begin

text \<open>
  The blocks of a file, \<^verbatim>\<open>src/src/fs.c\<close>: the mapping from a logical block of a file to a block
  of the disk through 12 direct pointers and one indirect index block of 64 pointers, and the
  reading, writing and removal of a logical block.
\<close>

subsection \<open>Operations\<close>

definition sfs_fs_inode_get_block_number :: "sfs_fs_inode \<Rightarrow> u64 \<Rightarrow> u64" where
  "sfs_fs_inode_get_block_number inode iblock =
     (if 12 \<le> iblock then 0 else block_pointers inode ! unat iblock)"

definition read_from_indirect :: "filesystem \<Rightarrow> u64 \<Rightarrow> nat \<Rightarrow> bool \<Rightarrow> u64 option \<times> filesystem" where
  "read_from_indirect fs indirect_block_number index create_if_empty =
     (if indirect_block_number = 0 then (Some 0, fs)
      else let (r, index_block, d) = block_read (disk fs) indirect_block_number zero_block;
               fs = fs\<lparr>disk := d\<rparr>
           in if r \<noteq> 512 then (None, fs)
              else if create_if_empty \<and> get_u64 index index_block = 0
              then (case sfs_fs_allocate_block fs of
                      (None, fs) \<Rightarrow> (None, fs)
                    | (Some b, fs) \<Rightarrow>
                        let (r, d) = block_write (disk fs) indirect_block_number (put_u64 index b index_block);
                            fs = fs\<lparr>disk := d\<rparr>
                        in if r \<noteq> 512 then (None, fs) else (Some b, fs))
              else (Some (get_u64 index index_block), fs))"

definition in_data_area :: "sfs_fs_superblock \<Rightarrow> u64 \<Rightarrow> bool" where
  "in_data_area sb block_number \<longleftrightarrow>
     \<not> (block_number < inode_table_blocks sb + 1 \<or> blocks sb \<le> block_number)"

text \<open>
  \<^verbatim>\<open>sfs_fs_inode_block_read\<close> up to the first access to the memory \<^verbatim>\<open>block\<close> points to, which finds the number of the
  block, 0 for a hole, and that access, a \<^verbatim>\<open>memset\<close> or a transfer from the disk.
\<close>

definition block_to_read :: "filesystem \<Rightarrow> sfs_fs_inode \<Rightarrow> u64 \<Rightarrow> u64 option \<times> filesystem" where
  "block_to_read fs inode iblock =
     (let (r, fs) =
        (if iblock < 12 then (Some (block_pointers inode ! unat iblock), fs)
         else if iblock < 76
         then read_from_indirect fs (block_pointers inode ! SFS_IND_BLOCK) (unat iblock - SFS_NDIR_BLOCKS) False
         else (None, fs))
      in case r of
           None \<Rightarrow> (None, fs)
         | Some block_number \<Rightarrow>
             if block_number \<noteq> 0 \<and> \<not> in_data_area (superblock fs) block_number then (None, fs)
             else (Some block_number, fs))"

definition fill_block :: "filesystem \<Rightarrow> u64 \<Rightarrow> bytes option \<times> filesystem" where
  "fill_block fs block_number =
     (if block_number = 0 then (Some zero_block, fs)
      else let (r, block, d) = block_read (disk fs) block_number zero_block;
               fs = fs\<lparr>disk := d\<rparr>
           in if r \<noteq> 512 then (None, fs) else (Some block, fs))"

definition sfs_fs_inode_block_read :: "filesystem \<Rightarrow> sfs_fs_inode \<Rightarrow> u64 \<Rightarrow> bytes option \<times> filesystem" where
  "sfs_fs_inode_block_read fs inode iblock =
     (case block_to_read fs inode iblock of
        (None, fs) \<Rightarrow> (None, fs)
      | (Some block_number, fs) \<Rightarrow> fill_block fs block_number)"

text \<open>The two ways of finding, and if need be allocating, the block to write to.\<close>

definition direct_target ::
  "filesystem \<Rightarrow> sfs_fs_inode \<Rightarrow> nat \<Rightarrow> (u64 option \<times> sfs_fs_inode \<times> filesystem) option" where
  "direct_target fs inode iblock =
     (if block_pointers inode ! iblock = 0
      then (case sfs_fs_allocate_block fs of
              (None, fs) \<Rightarrow> Some (None, inode, fs)
            | (Some b, fs) \<Rightarrow>
                let inode = inode\<lparr>block_pointers := (block_pointers inode)[iblock := b]\<rparr>
                in do { (r, fs) \<leftarrow> sfs_fs_write_inode fs inode;
                        Some (if r \<noteq> 0 then None else Some b, inode, fs) })
      else Some (Some (block_pointers inode ! iblock), inode, fs))"

definition make_indirect ::
  "filesystem \<Rightarrow> sfs_fs_inode \<Rightarrow> (int \<times> sfs_fs_inode \<times> filesystem) option" where
  "make_indirect fs inode =
     (if block_pointers inode ! SFS_IND_BLOCK = 0
      then (case sfs_fs_allocate_block fs of
              (None, fs) \<Rightarrow> Some (-1, inode, fs)
            | (Some b, fs) \<Rightarrow>
                let (t, d) = time (disk fs);
                    fs = fs\<lparr>disk := d\<rparr>;
                    inode = inode\<lparr>block_pointers := (block_pointers inode)[SFS_IND_BLOCK := b],
                                  change_time := t\<rparr>
                in do { (r, fs) \<leftarrow> sfs_fs_write_inode fs inode;
                        Some (if r \<noteq> 0 then -1 else 0, inode, fs) })
      else Some (0, inode, fs))"

definition indirect_target ::
  "filesystem \<Rightarrow> sfs_fs_inode \<Rightarrow> nat \<Rightarrow> (u64 option \<times> sfs_fs_inode \<times> filesystem) option" where
  "indirect_target fs inode iblock = do {
     (r, inode, fs) \<leftarrow> make_indirect fs inode;
     if r \<noteq> 0 then Some (None, inode, fs)
     else let (b, fs) = read_from_indirect fs (block_pointers inode ! SFS_IND_BLOCK)
                          (iblock - SFS_NDIR_BLOCKS) True
          in Some (b, inode, fs)
   }"

text \<open>
  \<^verbatim>\<open>sfs_fs_inode_block_write\<close> up to the call of \<^verbatim>\<open>block_write\<close>, the only access to the memory \<^verbatim>\<open>block\<close> points to,
  and that call.
\<close>

definition block_to_write ::
  "filesystem \<Rightarrow> sfs_fs_inode \<Rightarrow> u64 \<Rightarrow> (u64 option \<times> sfs_fs_inode \<times> filesystem) option" where
  "block_to_write fs inode iblock = do {
     (r, inode, fs) \<leftarrow>
       (if iblock < 12 then direct_target fs inode (unat iblock)
        else if iblock < 76 then indirect_target fs inode (unat iblock)
        else Some (None, inode, fs));
     (case r of
        None \<Rightarrow> Some (None, inode, fs)
      | Some block_number \<Rightarrow>
          Some (if \<not> in_data_area (superblock fs) block_number then None else Some block_number, inode, fs))
   }"

definition put_out_block :: "filesystem \<Rightarrow> u64 \<Rightarrow> bytes \<Rightarrow> int \<times> filesystem" where
  "put_out_block fs block_number block =
     (let (r, d) = block_write (disk fs) block_number block in (if r \<noteq> 512 then -1 else 0, fs\<lparr>disk := d\<rparr>))"

definition sfs_fs_inode_block_write ::
  "filesystem \<Rightarrow> sfs_fs_inode \<Rightarrow> u64 \<Rightarrow> bytes \<Rightarrow> (int \<times> sfs_fs_inode \<times> filesystem) option" where
  "sfs_fs_inode_block_write fs inode iblock block = do {
     (r, inode, fs) \<leftarrow> block_to_write fs inode iblock;
     (case r of
        None \<Rightarrow> Some (-1, inode, fs)
      | Some block_number \<Rightarrow>
          let (r, fs) = put_out_block fs block_number block in Some (r, inode, fs))
   }"

definition sfs_fs_inode_block_remove :: "filesystem \<Rightarrow> sfs_fs_inode \<Rightarrow> u64 \<Rightarrow> (int \<times> filesystem) option" where
  "sfs_fs_inode_block_remove fs inode iblock =
     (if 12 \<le> iblock then Some (-1, fs)
      else if block_pointers inode ! unat iblock = 0 then Some (0, fs)
      else do {
        (r, fs) \<leftarrow> sfs_fs_free_block fs (block_pointers inode ! unat iblock);
        Some (if r \<noteq> 0 then -1 else 0, fs)
      })"

text \<open>The two operations in one piece.\<close>

lemma block_read_unfold:
  "sfs_fs_inode_block_read fs inode iblock =
     (let (r, fs) =
        (if iblock < 12 then (Some (block_pointers inode ! unat iblock), fs)
         else if iblock < 76
         then read_from_indirect fs (block_pointers inode ! SFS_IND_BLOCK) (unat iblock - SFS_NDIR_BLOCKS) False
         else (None, fs))
      in case r of
           None \<Rightarrow> (None, fs)
         | Some block_number \<Rightarrow>
             if block_number = 0 then (Some zero_block, fs)
             else if \<not> in_data_area (superblock fs) block_number then (None, fs)
             else let (r, block, d) = block_read (disk fs) block_number zero_block;
                      fs = fs\<lparr>disk := d\<rparr>
                  in if r \<noteq> 512 then (None, fs) else (Some block, fs))"
  by (auto simp: sfs_fs_inode_block_read_def block_to_read_def fill_block_def Let_def split: prod.splits option.splits)

lemma block_write_unfold:
  "sfs_fs_inode_block_write fs inode iblock block = do {
     (r, inode, fs) \<leftarrow>
       (if iblock < 12 then direct_target fs inode (unat iblock)
        else if iblock < 76 then indirect_target fs inode (unat iblock)
        else Some (None, inode, fs));
     (case r of
        None \<Rightarrow> Some (-1, inode, fs)
      | Some block_number \<Rightarrow>
          if \<not> in_data_area (superblock fs) block_number then Some (-1, inode, fs)
          else let (r, d) = block_write (disk fs) block_number block
               in Some (if r \<noteq> 512 then -1 else 0, inode, fs\<lparr>disk := d\<rparr>))
   }"
  by (auto simp: sfs_fs_inode_block_write_def block_to_write_def put_out_block_def Let_def bind_eq_Some_conv split: prod.splits option.splits
      intro!: Option.bind_cong)

subsection \<open>The contents of a file\<close>

text \<open>The block pointer of logical block \<open>k\<close> and the contents of that block.\<close>

definition fptr :: "fs_abs \<Rightarrow> sfs_fs_inode \<Rightarrow> nat \<Rightarrow> u64" where
  "fptr A i k =
     (if k < 12 then block_pointers i ! k
      else if k < 76 \<and> block_pointers i ! 12 \<noteq> 0 then get_u64 (k - 12) (a_block A (block_pointers i ! 12))
      else 0)"

definition fblock :: "fs_abs \<Rightarrow> sfs_fs_inode \<Rightarrow> nat \<Rightarrow> bytes" where
  "fblock A i k = (if fptr A i k = 0 then zero_block else a_block A (fptr A i k))"

text \<open>
  The blocks an inode refers to, and what makes an inode sound: every block it refers to is in
  the data area, is not free, and is referred to once.
\<close>

definition iptrs :: "fs_abs \<Rightarrow> sfs_fs_inode \<Rightarrow> u64 list" where
  "iptrs A i = filter (\<lambda>p. p \<noteq> 0) (block_pointers i ! 12 # map (fptr A i) [0..<76])"

definition inode_ok :: "fs_abs \<Rightarrow> sfs_fs_inode \<Rightarrow> bool" where
  "inode_ok A i \<longleftrightarrow> wf_inode i \<and> distinct (iptrs A i) \<and>
     (\<forall>p\<in>set (iptrs A i). valid_block (a_super A) p \<and> p \<notin> free_blocks A)"

lemma in_data_area_valid:
  assumes "geometry sb m"
  shows "in_data_area sb b \<longleftrightarrow> valid_block sb b"
proof -
  have "unat (inode_table_blocks sb + 1) = unat (inode_table_blocks sb) + 1"
    using assms by (subst unat_plus_no_overflow) (auto simp: geometry_def)
  then show ?thesis
    by (auto simp: in_data_area_def valid_block_def word_less_nat_alt word_le_nat_alt)
qed

lemma in_data_area_fs: "fs_ok fs \<Longrightarrow> in_data_area (superblock fs) b \<longleftrightarrow> valid_block (superblock fs) b"
  by (rule in_data_area_valid) (rule fs_okD)

lemma unat_less_12: "(k :: u64) < 12 \<longleftrightarrow> unat k < 12" and unat_less_76: "(k :: u64) < 76 \<longleftrightarrow> unat k < 76"
  by (simp_all add: word_less_nat_alt)

lemma inode_okD:
  assumes "inode_ok A i"
  shows "wf_inode i" "length (block_pointers i) = 14"
    "fptr A i k \<noteq> 0 \<Longrightarrow> valid_block (a_super A) (fptr A i k) \<and> fptr A i k \<notin> free_blocks A"
    "block_pointers i ! 12 \<noteq> 0 \<Longrightarrow> valid_block (a_super A) (block_pointers i ! 12) \<and> block_pointers i ! 12 \<notin> free_blocks A"
    "fptr A i k \<noteq> 0 \<Longrightarrow> fptr A i k \<noteq> block_pointers i ! 12"
    "fptr A i j = fptr A i k \<Longrightarrow> fptr A i k \<noteq> 0 \<Longrightarrow> j = k"
proof -
  show "wf_inode i" "length (block_pointers i) = 14" using assms by (simp_all add: inode_ok_def)
  have lt: "fptr A i j \<noteq> 0 \<Longrightarrow> j < 76" for j by (simp add: fptr_def split: if_splits)
  then have mem: "fptr A i j \<noteq> 0 \<Longrightarrow> fptr A i j \<in> set (iptrs A i)" for j
    by (auto simp: iptrs_def)
  show "fptr A i k \<noteq> 0 \<Longrightarrow> valid_block (a_super A) (fptr A i k) \<and> fptr A i k \<notin> free_blocks A"
    using assms mem by (simp add: inode_ok_def)
  show "block_pointers i ! 12 \<noteq> 0 \<Longrightarrow> valid_block (a_super A) (block_pointers i ! 12) \<and> block_pointers i ! 12 \<notin> free_blocks A"
    using assms by (simp add: inode_ok_def iptrs_def)
  have d: "distinct (iptrs A i)" using assms by (simp add: inode_ok_def)
  show "fptr A i k \<noteq> 0 \<Longrightarrow> fptr A i k \<noteq> block_pointers i ! 12"
  proof
    assume e: "fptr A i k \<noteq> 0" "fptr A i k = block_pointers i ! 12"
    then have "block_pointers i ! 12 \<in> fptr A i ` {0..<76}"
      using lt [of k] by (metis atLeastLessThan_iff imageI zero_le)
    with d e show False by (auto simp: iptrs_def split: if_splits)
  qed
  show "fptr A i j = fptr A i k \<Longrightarrow> fptr A i k \<noteq> 0 \<Longrightarrow> j = k"
  proof -
    assume e: "fptr A i j = fptr A i k" "fptr A i k \<noteq> 0"
    then have jk: "j < 76" "k < 76" using lt [of j] lt [of k] by simp_all
    have "distinct (filter (\<lambda>p. p \<noteq> 0) (map (fptr A i) [0..<76]))"
      using d by (simp add: iptrs_def split: if_splits)
    then have "inj_on (fptr A i) (set (filter (\<lambda>x. fptr A i x \<noteq> 0) [0..<76]))"
      by (simp add: filter_map distinct_map comp_def)
    with e jk show ?thesis by (auto dest: inj_onD)
  qed
qed

lemma inode_okI:
  assumes "wf_inode i" "\<And>k. fptr A i k \<noteq> 0 \<Longrightarrow> valid_block (a_super A) (fptr A i k) \<and> fptr A i k \<notin> free_blocks A"
    "block_pointers i ! 12 \<noteq> 0 \<Longrightarrow> valid_block (a_super A) (block_pointers i ! 12) \<and> block_pointers i ! 12 \<notin> free_blocks A"
    "\<And>k. fptr A i k \<noteq> 0 \<Longrightarrow> fptr A i k \<noteq> block_pointers i ! 12"
    "\<And>j k. fptr A i j = fptr A i k \<Longrightarrow> fptr A i k \<noteq> 0 \<Longrightarrow> j = k"
  shows "inode_ok A i"
proof -
  have "distinct (filter (\<lambda>p. p \<noteq> 0) (map (fptr A i) [0..<76]))"
    using assms(5) by (auto simp: filter_map distinct_map comp_def inj_on_def)
  moreover have "block_pointers i ! 12 \<noteq> 0 \<Longrightarrow> block_pointers i ! 12 \<notin> fptr A i ` {0..<76}"
    using assms(4) by force
  ultimately show ?thesis using assms(1-3) by (auto simp: inode_ok_def iptrs_def)
qed

subsection \<open>Reading\<close>

lemma read_from_indirect_ok:
  assumes "fs_ok fs" "ind \<noteq> 0 \<longrightarrow> valid_block (superblock fs) ind"
  shows "read_from_indirect fs ind k False =
    (Some (if ind = 0 then 0 else get_u64 k (a_block (abs_fs fs) ind)), if ind = 0 then fs else seen fs)"
  using assms by (simp add: read_from_indirect_def Let_def disk_access)

lemma inode_block_read_ok:
  assumes fs: "fs_ok fs" and i: "inode_ok (abs_fs fs) i" and k: "unat iblock < 76"
  shows "\<exists>fs'. sfs_fs_inode_block_read fs i iblock = (Some (fblock (abs_fs fs) i (unat iblock)), fs') \<and>
    fs_ok fs' \<and> abs_fs fs' = abs_fs fs \<and> superblock fs' = superblock fs \<and> inode_cache fs' = inode_cache fs"
proof -
  let ?k = "unat iblock" and ?A = "abs_fs fs"
  let ?ind = "block_pointers i ! 12"
  define fs1 where "fs1 = (if ?k < 12 \<or> ?ind = 0 then fs else seen fs)"
  have f1: "fs_ok fs1" "abs_fs fs1 = ?A" "superblock fs1 = superblock fs" "inode_cache fs1 = inode_cache fs"
    using fs by (simp_all add: fs1_def)
  have "(if iblock < 12 then (Some (block_pointers i ! unat iblock), fs)
         else if iblock < 76 then read_from_indirect fs ?ind (unat iblock - SFS_NDIR_BLOCKS) False
         else (None, fs)) = (Some (fptr ?A i ?k), fs1)"
    using k inode_okD(4) [OF i] fs
    by (simp add: fs1_def fptr_def unat_less_12 unat_less_76 read_from_indirect_ok)
  then have "sfs_fs_inode_block_read fs i iblock =
      (if fptr ?A i ?k = 0 then (Some zero_block, fs1) else (Some (a_block ?A (fptr ?A i ?k)), seen fs1))"
    using inode_okD(3) [OF i, of ?k] f1
    by (simp add: block_read_unfold in_data_area_fs [OF fs] Let_def disk_access)
  then show ?thesis using f1 by (simp add: fblock_def)
qed

text \<open>The other branches: a block beyond the indirect index, and a pointer that leaves the data area.\<close>

lemma inode_block_read_beyond: "76 \<le> iblock \<Longrightarrow> sfs_fs_inode_block_read fs i iblock = (None, fs)"
  by (simp add: block_read_unfold not_less [symmetric]) (simp add: word_less_nat_alt word_le_nat_alt)

lemma inode_block_read_range:
  assumes "unat iblock < 12" "block_pointers i ! unat iblock \<noteq> 0"
    "\<not> in_data_area (superblock fs) (block_pointers i ! unat iblock)"
  shows "sfs_fs_inode_block_read fs i iblock = (None, fs)"
  using assms by (simp add: block_read_unfold unat_less_12)

subsection \<open>Writing\<close>

text \<open>
  What a write of logical block \<open>k\<close> is: the pointers of the file are the same but for \<open>k\<close>, and
  nothing outside the free space and the file changes. A file without an index block may get one.
\<close>

definition file_written :: "fs_abs \<Rightarrow> sfs_fs_inode \<Rightarrow> nat \<Rightarrow> bytes \<Rightarrow> fs_abs \<Rightarrow> sfs_fs_inode \<Rightarrow> bool" where
  "file_written A i k v A' i' \<longleftrightarrow>
     fblock A' i' k = v \<and> (\<forall>j. j < 76 \<and> j \<noteq> k \<longrightarrow> fblock A' i' j = fblock A i j) \<and> inode_ok A' i' \<and>
     i' = i\<lparr>block_pointers := block_pointers i', change_time := change_time i'\<rparr> \<and>
     (\<forall>n. n \<noteq> inumber i \<longrightarrow> a_inode A' n = a_inode A n) \<and>
     (a_inode A (inumber i) = i \<longrightarrow> a_inode A' (inumber i) = i') \<and>
     (\<forall>b. b \<notin> free_blocks A \<and> b \<notin> set (iptrs A i) \<longrightarrow> a_block A' b = a_block A b) \<and>
     free_blocks A' \<subseteq> free_blocks A \<and> set (iptrs A' i') = set (iptrs A i) \<union> (free_blocks A - free_blocks A') \<and>
     free_blocks A' = free_blocks A - {fptr A' i' k, block_pointers i' ! 12} \<and> (\<forall>j. j \<noteq> k \<longrightarrow> fptr A' i' j = fptr A i j) \<and>
     (block_pointers i ! 12 \<noteq> 0 \<or> k < 12 \<longrightarrow> block_pointers i' ! 12 = block_pointers i ! 12) \<and>
     (block_pointers i ! 12 = 0 \<and> 12 \<le> k \<longrightarrow> block_pointers i' ! 12 \<in> free_blocks A) \<and> (fptr A i k \<noteq> 0 \<longrightarrow> fptr A' i' k = fptr A i k) \<and>
     (fptr A i k = 0 \<longrightarrow> fptr A' i' k \<in> free_blocks A) \<and>
     (k < 12 \<longrightarrow> same_free (if fptr A i k = 0 then take_block A else A) A')"

lemma zero_not_free [simp]: "0 \<notin> free_blocks A"
proof -
  have "0 \<notin> set (free_list m ns)" if "index_chain m h ns" for m h ns
    using that by (induction ns arbitrary: h) (auto simp: free_list_def entries_def)
  then show ?thesis by (auto simp: free_blocks_def)
qed

lemma set_iptrs: "set (iptrs A i) = insert (block_pointers i ! 12) (range (fptr A i)) - {0}"
proof -
  have "fptr A i j \<in> insert 0 (fptr A i ` {0..<76})" for j
  proof (cases "j < 76")
    case True
    then show ?thesis by simp
  next
    case False
    then show ?thesis by (simp add: fptr_def [of A i j])
  qed
  then have "range (fptr A i) \<subseteq> insert 0 (fptr A i ` {0..<76})" by blast
  then show ?thesis by (auto simp: iptrs_def)
qed

lemma file_writtenI:
  assumes i: "inode_ok A i" and wf: "wf_inode i'"
    and ext: "i' = i\<lparr>block_pointers := block_pointers i', change_time := change_time i'\<rparr>"
    and k: "k < 76" and p: "valid_block (a_super A) p" "p = fptr A i k \<or> fptr A i k = 0 \<and> p \<in> free_blocks A"
    and ptr: "\<And>j. fptr A' i' j = (if j = k then p else fptr A i j)" "block_pointers i' ! 12 = block_pointers i ! 12"
    and sb: "valid_block (a_super A') = valid_block (a_super A)" and free: "free_blocks A' = free_blocks A - {p}"
    and v: "a_block A' p = v"
    and same: "\<And>b. b \<notin> free_blocks A \<Longrightarrow> b \<noteq> p \<Longrightarrow> b \<noteq> block_pointers i ! 12 \<Longrightarrow> a_block A' b = a_block A b"
    and ind: "block_pointers i ! 12 = 0 \<Longrightarrow> a_block A' 0 = a_block A 0"
    and ino: "\<And>n. n \<noteq> inumber i \<Longrightarrow> a_inode A' n = a_inode A n"
      "a_inode A (inumber i) = i \<Longrightarrow> a_inode A' (inumber i) = i'"
    and sf: "k < 12 \<Longrightarrow> same_free (if fptr A i k = 0 then take_block A else A) A'"
  shows "file_written A i k v A' i'"
proof -
  note ok = inode_okD [OF i]
  have p0: "p \<noteq> 0" using p(1) by (auto simp: valid_block_def)
  have pj: "fptr A i j \<noteq> p" if "j \<noteq> k" for j
    using p p0 ok(3) [of j] ok(6) [of j k] that by metis
  have pind: "block_pointers i ! 12 \<noteq> p"
    using p p0 ok(4) ok(5) [of k] by metis
  have "fblock A' i' j = fblock A i j" if "j \<noteq> k" for j
    using that ptr same [of "fptr A i j"] ok(3,5) [of j] pj [of j] by (auto simp: fblock_def)
  moreover have "fblock A' i' k = v" using ptr v p0 by (simp add: fblock_def)
  moreover have "inode_ok A' i'"
  proof (rule inode_okI [OF wf])
    show "fptr A' i' j \<noteq> 0 \<Longrightarrow> valid_block (a_super A') (fptr A' i' j) \<and> fptr A' i' j \<notin> free_blocks A'" for j
      using ok(3) [of j] p by (auto simp: ptr sb free)
    show "block_pointers i' ! 12 \<noteq> 0 \<Longrightarrow> valid_block (a_super A') (block_pointers i' ! 12) \<and> block_pointers i' ! 12 \<notin> free_blocks A'"
      using ok(4) by (simp add: ptr sb free)
    show "fptr A' i' j \<noteq> 0 \<Longrightarrow> fptr A' i' j \<noteq> block_pointers i' ! 12" for j
      using ok(5) [of j] pind by (auto simp: ptr)
    show "fptr A' i' j = fptr A' i' l \<Longrightarrow> fptr A' i' l \<noteq> 0 \<Longrightarrow> j = l" for j l
      using ok(6) [of j l] pj by (auto simp: ptr split: if_splits)
  qed
  moreover have "range (fptr A' i') - {0} = insert p (range (fptr A i)) - {0}"
    using p ptr(1) by (auto simp: image_iff)
  then have "set (iptrs A' i') = insert (block_pointers i ! 12) (insert p (range (fptr A i))) - {0}"
    unfolding set_iptrs ptr(2) by blast
  then have "set (iptrs A' i') = set (iptrs A i) \<union> (free_blocks A - free_blocks A')"
    using p p0 unfolding set_iptrs free by auto
  moreover have "\<forall>b. b \<notin> free_blocks A \<and> b \<notin> set (iptrs A i) \<longrightarrow> a_block A' b = a_block A b"
  proof (intro allI impI)
    fix b assume b: "b \<notin> free_blocks A \<and> b \<notin> set (iptrs A i)"
    then have "b \<noteq> p" using p p0 unfolding set_iptrs by auto
    moreover have "b = 0 \<or> b \<noteq> block_pointers i ! 12" using b unfolding set_iptrs by auto
    ultimately show "a_block A' b = a_block A b" using same [of b] ind b by metis
  qed
  moreover have "block_pointers i ! 12 = 0 \<and> 12 \<le> k \<longrightarrow> block_pointers i' ! 12 \<in> free_blocks A"
    using ptr(1) [of k] ptr(2) p0 k by (auto simp: fptr_def split: if_splits)
  moreover have "block_pointers i ! 12 \<notin> free_blocks A" using ok(4) zero_not_free by metis
  then have "free_blocks A' = free_blocks A - {fptr A' i' k, block_pointers i' ! 12}" using ptr free by auto
  moreover have "\<forall>j. j \<noteq> k \<longrightarrow> fptr A' i' j = fptr A i j"
    "fptr A i k \<noteq> 0 \<longrightarrow> fptr A' i' k = fptr A i k" "fptr A i k = 0 \<longrightarrow> fptr A' i' k \<in> free_blocks A"
    using ptr(1) free p(2) p0 by auto
  ultimately show ?thesis
    unfolding file_written_def using ext ino free ptr(2) sf by blast
qed

text \<open>Changing a block that is not free does not change the free list.\<close>

lemma free_rep_off:
  assumes "free_rep A ns" "b \<notin> free_blocks A"
  shows "free_rep (A\<lparr>a_block := (a_block A)(b := v)\<rparr>) ns"
    "free_blocks (A\<lparr>a_block := (a_block A)(b := v)\<rparr>) = free_blocks A"
proof -
  have b: "b \<notin> set ns" using assms free_blocks_rep [OF assms(1)] by (simp add: free_list_def)
  then have "map (\<lambda>n. entries (((a_block A)(b := v)) n)) ns = map (\<lambda>n. entries (a_block A n)) ns"
    by (intro map_cong) auto
  then have fl: "free_list ((a_block A)(b := v)) ns = free_list (a_block A) ns"
    unfolding free_list_def by (rule arg_cong)
  moreover have "index_chain ((a_block A)(b := v)) h ns = index_chain (a_block A) h ns" for h
    using b by (intro index_chain_cong) auto
  ultimately show rep: "free_rep (A\<lparr>a_block := (a_block A)(b := v)\<rparr>) ns"
    using assms(1) by (simp add: free_rep_def)
  show "free_blocks (A\<lparr>a_block := (a_block A)(b := v)\<rparr>) = free_blocks A"
    using free_blocks_rep [OF rep] free_blocks_rep [OF assms(1)] fl by simp
qed

lemma put_block_off:
  assumes "alloc_ok fs" "valid_block (superblock fs) b" "b \<notin> free_blocks (abs_fs fs)" "length v = BLOCK_SIZE"
  shows "alloc_ok (put_block fs b v)" "free_blocks (abs_fs (put_block fs b v)) = free_blocks (abs_fs fs)"
proof -
  obtain ns where ns: "fs_ok fs" "free_rep (abs_fs fs) ns"
    "free_blocks (abs_fs fs) = set (free_list (a_block (abs_fs fs)) ns)"
    using assms(1) by (rule alloc_okE)
  with assms free_rep_off [OF ns(2) assms(3), of v]
  show "alloc_ok (put_block fs b v)" "free_blocks (abs_fs (put_block fs b v)) = free_blocks (abs_fs fs)"
    by (auto simp: alloc_ok_def)
qed

lemma after_write_alloc:
  assumes "alloc_ok fs" "valid_ino (superblock fs) (inumber i)" "wf_inode i"
  shows "alloc_ok (after_write fs i)" "free_blocks (abs_fs (after_write fs i)) = free_blocks (abs_fs fs)"
  using assms after_write_abs [OF _ assms(2,3)] by (auto simp: alloc_ok_def)

lemma alloc_ok_seen [simp]: "alloc_ok (seen fs) = alloc_ok fs" "alloc_ok (tick fs) = alloc_ok fs"
  by (simp_all add: alloc_ok_def)

lemma alloc_ok_fs: "alloc_ok fs \<Longrightarrow> fs_ok fs"
  by (simp add: alloc_ok_def)

lemma free_block_valid: "alloc_ok fs \<Longrightarrow> b \<in> free_blocks (abs_fs fs) \<Longrightarrow> valid_block (superblock fs) b"
  by (rule blocks_alloc.free_valid)

text \<open>A block that exists is overwritten in place.\<close>

lemma overwrite_ok:
  assumes al: "alloc_ok fs" and i: "inode_ok (abs_fs fs) i" and k: "k < 76" and p: "fptr (abs_fs fs) i k \<noteq> 0"
    and v: "length v = BLOCK_SIZE" and f1: "fs1 = fs \<or> fs1 = seen fs"
  shows "alloc_ok (put_block fs1 (fptr (abs_fs fs) i k) v)"
    "file_written (abs_fs fs) i k v (abs_fs (put_block fs1 (fptr (abs_fs fs) i k) v)) i"
proof -
  let ?A = "abs_fs fs" and ?p = "fptr (abs_fs fs) i k"
  have fs: "fs_ok fs" by (rule alloc_ok_fs [OF al])
  have pv: "valid_block (superblock fs) ?p" "?p \<notin> free_blocks ?A" using inode_okD(3) [OF i p] by simp_all
  have f1': "alloc_ok fs1" "fs_ok fs1" "abs_fs fs1 = ?A" "superblock fs1 = superblock fs" using f1 al fs by auto
  show "alloc_ok (put_block fs1 ?p v)" using f1' pv v by (intro put_block_off) simp_all
  have fr: "free_blocks (abs_fs (put_block fs1 ?p v)) = free_blocks ?A"
    using put_block_off(2) [of fs1 ?p v] f1' pv v by simp
  have A': "abs_fs (put_block fs1 ?p v) = ?A\<lparr>a_block := (a_block ?A)(?p := v)\<rparr>"
    using f1' pv v by simp
  have "fptr (?A\<lparr>a_block := (a_block ?A)(?p := v)\<rparr>) i j = fptr ?A i j" for j
    using inode_okD(5) [OF i p] by (auto simp: fptr_def [of _ i j])
  moreover have "same_free ?A (?A\<lparr>a_block := (a_block ?A)(?p := v)\<rparr>)" using pv(2) by (auto simp: same_free_def)
  ultimately show "file_written ?A i k v (abs_fs (put_block fs1 ?p v)) i"
    using A' fr inode_okD(1) [OF i] k pv p inode_okD(5) [OF i p]
    by (intro file_writtenI [OF i, where p = ?p]) auto
qed

text \<open>
  The states in which logical block \<open>k\<close> has just been given the fresh block \<open>b\<close>, before its
  contents are written.
\<close>

lemma fresh_ok:
  assumes al: "alloc_ok fs" and i: "inode_ok (abs_fs fs) i" and k: "k < 76" and p: "fptr (abs_fs fs) i k = 0"
    and v: "length v = BLOCK_SIZE" and b: "b \<in> free_blocks (abs_fs fs)"
    and al2: "alloc_ok fs2" and fr: "free_blocks (abs_fs fs2) = free_blocks (abs_fs fs) - {b}"
    and sb: "valid_block (superblock fs2) = valid_block (superblock fs)"
    and i': "wf_inode i'" "i' = i\<lparr>block_pointers := block_pointers i', change_time := change_time i'\<rparr>" "block_pointers i' ! 12 = block_pointers i ! 12"
    and ptr: "\<And>j. fptr (abs_fs fs2) i' j = (if j = k then b else fptr (abs_fs fs) i j)"
    and same: "\<And>c. c \<notin> free_blocks (abs_fs fs) \<Longrightarrow> c \<noteq> block_pointers i ! 12 \<Longrightarrow> a_block (abs_fs fs2) c = a_block (abs_fs fs) c"
    and ino: "\<And>n. n \<noteq> inumber i \<Longrightarrow> a_inode (abs_fs fs2) n = a_inode (abs_fs fs) n"
      "a_inode (abs_fs fs) (inumber i) = i \<Longrightarrow> a_inode (abs_fs fs2) (inumber i) = i'"
    and sf: "k < 12 \<Longrightarrow> same_free (take_block (abs_fs fs)) (abs_fs fs2) \<and> b \<notin> free_blocks (take_block (abs_fs fs))"
  shows "alloc_ok (put_block fs2 b v)" "file_written (abs_fs fs) i k v (abs_fs (put_block fs2 b v)) i'"
proof -
  let ?A = "abs_fs fs" and ?A2 = "abs_fs fs2"
  have bv: "valid_block (superblock fs) b" by (rule free_block_valid [OF al b])
  then have b0: "b \<noteq> 0" by (auto simp: valid_block_def)
  have b2: "valid_block (superblock fs2) b" "b \<notin> free_blocks ?A2" using bv sb fr by simp_all
  show "alloc_ok (put_block fs2 b v)" by (rule put_block_off [OF al2 b2 v])
  have f3: "free_blocks (abs_fs (put_block fs2 b v)) = free_blocks ?A2" by (rule put_block_off [OF al2 b2 v])
  have A': "abs_fs (put_block fs2 b v) = ?A2\<lparr>a_block := (a_block ?A2)(b := v)\<rparr>"
    using alloc_ok_fs [OF al2] b2(1) v by (rule put_block)
  have bi: "block_pointers i' ! 12 \<noteq> b" using inode_okD(4) [OF i] i'(3) b b0 by metis
  have "fptr (?A2\<lparr>a_block := (a_block ?A2)(b := v)\<rparr>) i' j = fptr ?A2 i' j" for j
    using bi by (simp add: fptr_def)
  with ptr have ptr': "fptr (abs_fs (put_block fs2 b v)) i' j = (if j = k then b else fptr ?A i j)" for j
    by (simp add: A')
  have nz: "a_block ?A 0 = []" "a_block ?A2 0 = []" by (simp_all add: abs_fs_def valid_block_def)
  show "file_written ?A i k v (abs_fs (put_block fs2 b v)) i'"
    using i i'(1,2) k _ _ ptr' i'(3)
  proof (rule file_writtenI)
    show "valid_block (a_super ?A) b" using bv by simp
    show "b = fptr ?A i k \<or> fptr ?A i k = 0 \<and> b \<in> free_blocks ?A" using p b by simp
    show "free_blocks (abs_fs (put_block fs2 b v)) = free_blocks ?A - {b}" using f3 fr by simp
    show "a_block (abs_fs (put_block fs2 b v)) c = a_block ?A c"
      if "c \<notin> free_blocks ?A" "c \<noteq> b" "c \<noteq> block_pointers i ! 12" for c
      using that same [of c] by (simp add: A')
    show "block_pointers i ! 12 = 0 \<Longrightarrow> a_block (abs_fs (put_block fs2 b v)) 0 = a_block ?A 0"
      using b0 nz by (simp add: A')
    show "same_free (if fptr ?A i k = 0 then take_block ?A else ?A) (abs_fs (put_block fs2 b v))" if "k < 12"
      using sf [OF that] p by (auto simp: A' same_free_def)
  qed (use ino sb in \<open>simp_all add: A'\<close>)
qed

text \<open>The superblocks agree but for the head of the list of free blocks.\<close>

definition head_moved :: "filesystem \<Rightarrow> filesystem \<Rightarrow> bool" where
  "head_moved fs fs' \<longleftrightarrow> (\<exists>h. superblock fs' = (superblock fs)\<lparr>free_blocks_head := h\<rparr>)"

lemma direct_write_ok:
  assumes al: "alloc_ok fs" and i: "inode_ok (abs_fs fs) i" and k: "unat iblock < 12"
    and n: "valid_ino (superblock fs) (inumber i)" and v: "length v = BLOCK_SIZE"
    and p: "block_pointers i ! unat iblock = 0" and ne: "free_blocks (abs_fs fs) \<noteq> {}"
  shows "\<exists>i' fs'. sfs_fs_inode_block_write fs i iblock v = Some (0, i', fs') \<and> alloc_ok fs' \<and>
    head_moved fs fs' \<and> file_written (abs_fs fs) i (unat iblock) v (abs_fs fs') i'"
proof -
  let ?A = "abs_fs fs" and ?k = "unat iblock"
  from allocate_block_ok [OF al ne] obtain b fs1 h where a: "sfs_fs_allocate_block fs = (Some b, fs1)"
    "alloc_ok fs1" "b \<in> free_blocks ?A" "free_blocks (abs_fs fs1) = free_blocks ?A - {b}"
    "a_inode (abs_fs fs1) = a_inode ?A" "\<forall>c. c \<notin> free_blocks ?A \<longrightarrow> a_block (abs_fs fs1) c = a_block ?A c"
    "superblock fs1 = (superblock fs)\<lparr>free_blocks_head := h\<rparr>" "abs_fs fs1 = take_block ?A"
    by blast
  let ?i = "i\<lparr>block_pointers := (block_pointers i)[?k := b]\<rparr>"
  note iok = inode_okD [OF i]
  have wf: "wf_inode ?i" using iok(1) by simp
  have n1: "valid_ino (superblock fs1) (inumber ?i)" using n a(7) by simp
  have fs1: "fs_ok fs1" by (rule alloc_ok_fs [OF a(2)])
  let ?fs2 = "after_write fs1 ?i"
  note aw = after_write_abs [OF fs1 n1 wf]
  note al2 = after_write_alloc [OF a(2) n1 wf]
  have bv: "valid_block (superblock fs) b" by (rule free_block_valid [OF al a(3)])
  have res: "sfs_fs_inode_block_write fs i iblock v = Some (0, ?i, put_block ?fs2 b v)"
    using k p a(1) n1 fs1 bv v aw(2,3) a(7)
    by (simp add: block_write_unfold unat_less_12 direct_target_def sfs_fs_write_inode_ok
        in_data_area_fs [OF aw(2), unfolded aw(3) a(7)] Let_def disk_access)
  have "fptr (abs_fs ?fs2) ?i j = (if j = ?k then b else fptr ?A i j)" for j
    using k iok(2,4) a(6) by (auto simp: fptr_def aw(1))
  moreover have "\<And>c. c \<notin> free_blocks ?A \<Longrightarrow> a_block (abs_fs ?fs2) c = a_block ?A c"
    using a(6) by (simp add: aw(1))
  moreover have "same_free (take_block ?A) (abs_fs ?fs2) \<and> b \<notin> free_blocks (take_block ?A)"
    using a(4) unfolding a(8) [symmetric] by (simp add: same_free_def aw(1))
  ultimately have "alloc_ok (put_block ?fs2 b v) \<and> file_written ?A i ?k v (abs_fs (put_block ?fs2 b v)) ?i"
    using fresh_ok [OF al i _ _ v a(3) al2(1), where k = ?k and i' = ?i] k p a(4,5,7) al2(2) wf aw
    by (simp add: fptr_def)
  moreover have "head_moved fs (put_block ?fs2 b v)"
    using a(7) aw(3) by (auto simp: head_moved_def)
  ultimately show ?thesis using res by blast
qed

lemma indirect_write_ok:
  assumes al: "alloc_ok fs" and i: "inode_ok (abs_fs fs) i" and k: "12 \<le> unat iblock" "unat iblock < 76"
    and v: "length v = BLOCK_SIZE" and ind: "block_pointers i ! 12 \<noteq> 0"
    and p: "fptr (abs_fs fs) i (unat iblock) = 0" and ne: "free_blocks (abs_fs fs) \<noteq> {}"
  shows "\<exists>i' fs'. sfs_fs_inode_block_write fs i iblock v = Some (0, i', fs') \<and> alloc_ok fs' \<and>
    head_moved fs fs' \<and> file_written (abs_fs fs) i (unat iblock) v (abs_fs fs') i'"
proof -
  let ?A = "abs_fs fs" and ?k = "unat iblock - 12" and ?ind = "block_pointers i ! 12"
  have sn: "alloc_ok (seen fs)" "free_blocks (abs_fs (seen fs)) \<noteq> {}" using al ne by simp_all
  from allocate_block_ok [OF this] obtain b fs1 h where a: "sfs_fs_allocate_block (seen fs) = (Some b, fs1)"
    "alloc_ok fs1" "b \<in> free_blocks ?A" "free_blocks (abs_fs fs1) = free_blocks ?A - {b}"
    "a_inode (abs_fs fs1) = a_inode ?A" "\<forall>c. c \<notin> free_blocks ?A \<longrightarrow> a_block (abs_fs fs1) c = a_block ?A c"
    "superblock fs1 = (superblock fs)\<lparr>free_blocks_head := h\<rparr>"
    by auto
  note iok = inode_okD [OF i]
  have iv: "valid_block (superblock fs) ?ind" "?ind \<notin> free_blocks ?A" using iok(4) ind by simp_all
  have fs: "fs_ok fs" "fs_ok fs1" using alloc_ok_fs al a(2) by blast+
  have len: "length (a_block ?A ?ind) = BLOCK_SIZE" using fs(1) iv(1) by simp
  have bv: "valid_block (superblock fs) b" by (rule free_block_valid [OF al a(3)])
  have g: "get_u64 ?k (a_block ?A ?ind) = 0" "?k < 64" using p k ind by (simp_all add: fptr_def)
  let ?idx = "put_u64 ?k b (a_block ?A ?ind)"
  let ?fs2 = "put_block fs1 ?ind ?idx"
  have len2: "length ?idx = BLOCK_SIZE" using len g by simp
  have v1: "valid_block (superblock fs1) ?ind" "?ind \<notin> free_blocks (abs_fs fs1)" using iv a(4,7) by simp_all
  note al2 = put_block_off [OF a(2) v1 len2]
  have A2: "abs_fs ?fs2 = (abs_fs fs1)\<lparr>a_block := (a_block (abs_fs fs1))(?ind := ?idx)\<rparr>"
    using fs(2) v1(1) len2 by (rule put_block)
  have ida: "in_data_area ((superblock fs)\<lparr>free_blocks_head := h\<rparr>) b"
    using in_data_area_fs [OF fs(2)] a(7) bv by simp
  have res: "sfs_fs_inode_block_write fs i iblock v = Some (0, i, put_block ?fs2 b v)"
    using k ind fs iv(1) g len2 a v1(1) bv v ida alloc_ok_fs [OF al2(1)]
    by (simp add: block_write_unfold unat_less_12 unat_less_76 indirect_target_def make_indirect_def
        read_from_indirect_def Let_def disk_access)
  have ptr: "fptr (abs_fs ?fs2) i j = (if j = unat iblock then b else fptr ?A i j)" for j
  proof (cases "12 \<le> j \<and> j < 76")
    case True
    then have "?k = j - 12 \<longleftrightarrow> j = unat iblock" using k by auto
    with True show ?thesis using len g ind by (auto simp: fptr_def A2 get_put_u64)
  next
    case False
    with k show ?thesis by (auto simp: fptr_def A2)
  qed
  have "alloc_ok (put_block ?fs2 b v) \<and> file_written ?A i (unat iblock) v (abs_fs (put_block ?fs2 b v)) i"
    using fresh_ok [OF al i k(2) p v a(3) al2(1), where i' = i] a(4-7) al2(2) iok(1) ptr A2 k(1)
    by (simp add: put_block_off(1) [OF al2(1)] bv v)
  moreover have "head_moved fs (put_block ?fs2 b v)" using a(7) by (auto simp: head_moved_def)
  ultimately show ?thesis using res by blast
qed

lemma inode_block_overwrite:
  assumes al: "alloc_ok fs" and i: "inode_ok (abs_fs fs) i" and k: "unat iblock < 76" and v: "length v = BLOCK_SIZE"
    and p: "fptr (abs_fs fs) i (unat iblock) \<noteq> 0"
  obtains fs1 where "fs1 = fs \<or> fs1 = seen fs"
    "sfs_fs_inode_block_write fs i iblock v = Some (0, i, put_block fs1 (fptr (abs_fs fs) i (unat iblock)) v)"
proof (cases "unat iblock < 12")
  have fs: "fs_ok fs" by (rule alloc_ok_fs [OF al])
  have pv: "valid_block (superblock fs) (fptr (abs_fs fs) i (unat iblock))" using inode_okD(3) [OF i p] by simp
  {
    case True
    then have "sfs_fs_inode_block_write fs i iblock v = Some (0, i, put_block fs (fptr (abs_fs fs) i (unat iblock)) v)"
      using fs pv v p
      by (simp add: block_write_unfold unat_less_12 direct_target_def fptr_def
          in_data_area_fs [OF fs] Let_def disk_access)
    then show ?thesis using that [of fs] by simp
  next
    case False
    with p have "block_pointers i ! 12 \<noteq> 0" by (simp add: fptr_def split: if_splits)
    with False have
      "sfs_fs_inode_block_write fs i iblock v = Some (0, i, put_block (seen fs) (fptr (abs_fs fs) i (unat iblock)) v)"
      using fs pv v p k inode_okD(4) [OF i]
      by (simp add: block_write_unfold unat_less_12 unat_less_76 indirect_target_def make_indirect_def
          read_from_indirect_def fptr_def in_data_area_fs [OF fs] Let_def disk_access)
    then show ?thesis using that [of "seen fs"] by simp
  }
qed

text \<open>
  A file that has no index block gets the next free block as one. If that holds zeros the file is as before; what was
  asked for goes on as on a file with an index block.
\<close>

lemma head_moved_trans: "head_moved fs fs1 \<Longrightarrow> head_moved fs1 fs2 \<Longrightarrow> head_moved fs fs2"
  by (auto simp: head_moved_def)

definition indexed :: "fs_abs \<Rightarrow> sfs_fs_inode \<Rightarrow> fs_abs \<Rightarrow> sfs_fs_inode \<Rightarrow> bool" where
  "indexed A i A' i' \<longleftrightarrow>
     i' = i\<lparr>block_pointers := block_pointers i', change_time := change_time i'\<rparr> \<and> inode_ok A' i' \<and>
     block_pointers i' ! 12 \<in> free_blocks A \<and> free_blocks A' = free_blocks A - {block_pointers i' ! 12} \<and>
     fptr A' i' = fptr A i \<and> a_inode A' = (a_inode A)(inumber i := i') \<and>
     (\<forall>c. c \<notin> free_blocks A \<longrightarrow> a_block A' c = a_block A c)"

lemma make_indirect_ok:
  assumes al: "alloc_ok fs" and i: "inode_ok (abs_fs fs) i" and n: "valid_ino (superblock fs) (inumber i)"
    and ind: "block_pointers i ! 12 = 0" and ne: "free_blocks (abs_fs fs) \<noteq> {}"
    and z: "a_block (abs_fs fs) (next_block (abs_fs fs)) = zero_block"
  obtains i1 fs1 where "make_indirect fs i = Some (0, i1, fs1)" "alloc_ok fs1" "head_moved fs fs1" "indexed (abs_fs fs) i (abs_fs fs1) i1"
proof -
  let ?A = "abs_fs fs"
  from allocate_block_ok [OF al ne] obtain b fs1 h where a: "sfs_fs_allocate_block fs = (Some b, fs1)"
    "alloc_ok fs1" "b \<in> free_blocks ?A" "free_blocks (abs_fs fs1) = free_blocks ?A - {b}"
    "a_inode (abs_fs fs1) = a_inode ?A" "\<forall>c. c \<notin> free_blocks ?A \<longrightarrow> a_block (abs_fs fs1) c = a_block ?A c"
    "superblock fs1 = (superblock fs)\<lparr>free_blocks_head := h\<rparr>" "b = next_block ?A" "a_block (abs_fs fs1) b = a_block ?A b"
    by blast
  let ?i = "i\<lparr>block_pointers := (block_pointers i)[12 := b], change_time := fs_now fs1\<rparr>"
  note iok = inode_okD [OF i]
  have b: "valid_block (superblock fs) b" "b \<noteq> 0" using free_block_valid [OF al a(3)] by (auto simp: valid_block_def)
  have wf: "wf_inode ?i" using iok(1) by (simp add: wf_inode_def)
  have n1: "valid_ino (superblock (tick fs1)) (inumber ?i)" using n a(7) by simp
  have f: "fs_ok (tick fs1)" "alloc_ok (tick fs1)" using alloc_ok_fs [OF a(2)] a(2) by simp_all
  let ?fs2 = "after_write (tick fs1) ?i"
  note aw = after_write_abs [OF f(1) n1 wf] and al2 = after_write_alloc [OF f(2) n1 wf]
  have res: "make_indirect fs i = Some (0, ?i, ?fs2)"
    using a(1) ind f(1) n1 by (simp add: make_indirect_def Let_def disk_access sfs_fs_write_inode_ok)
  have p12: "block_pointers ?i ! 12 = b" using iok(2) by simp
  have fr: "free_blocks (abs_fs ?fs2) = free_blocks ?A - {b}" using al2(2) a(4) by simp
  have z2: "a_block (abs_fs ?fs2) b = zero_block"
  proof -
    have "a_block (abs_fs fs1) b = zero_block" using a(9) z unfolding a(8) [symmetric] by simp
    then show ?thesis by (simp add: aw(1))
  qed
  have ptr: "fptr (abs_fs ?fs2) ?i j = fptr ?A i j" for j
  proof (cases "j < 12")
    case True
    then show ?thesis by (simp add: fptr_def)
  next
    case False
    then show ?thesis using ind z2 p12 by (auto simp: fptr_def)
  qed
  have "inode_ok (abs_fs ?fs2) ?i"
  proof (rule inode_okI [OF wf])
    show "fptr (abs_fs ?fs2) ?i j \<noteq> 0 \<Longrightarrow> valid_block (a_super (abs_fs ?fs2)) (fptr (abs_fs ?fs2) ?i j) \<and>
        fptr (abs_fs ?fs2) ?i j \<notin> free_blocks (abs_fs ?fs2)" for j
      using iok(3) [of j] aw(3) a(7) unfolding ptr fr by simp
    show "block_pointers ?i ! 12 \<noteq> 0 \<Longrightarrow> valid_block (a_super (abs_fs ?fs2)) (block_pointers ?i ! 12) \<and>
        block_pointers ?i ! 12 \<notin> free_blocks (abs_fs ?fs2)"
      using b(1) aw(3) a(7) unfolding p12 fr by simp
    show "fptr (abs_fs ?fs2) ?i j \<noteq> 0 \<Longrightarrow> fptr (abs_fs ?fs2) ?i j \<noteq> block_pointers ?i ! 12" for j
      using iok(3) [of j] a(3) unfolding ptr p12 by auto
    show "fptr (abs_fs ?fs2) ?i j = fptr (abs_fs ?fs2) ?i k \<Longrightarrow> fptr (abs_fs ?fs2) ?i k \<noteq> 0 \<Longrightarrow> j = k" for j k
      using iok(6) [of j k] unfolding ptr by simp
  qed
  then have "indexed ?A i (abs_fs ?fs2) ?i"
    unfolding indexed_def p12 fr using a(3,5,6) ptr by (auto simp: aw(1))
  moreover have "head_moved fs ?fs2" using a(7) aw(3) by (auto simp: head_moved_def)
  ultimately show ?thesis using that res al2(1) by blast
qed

lemma block_write_index:
  assumes "make_indirect fs i = Some (0, i1, fs1)" "block_pointers i1 ! 12 \<noteq> 0" "12 \<le> unat iblock" "unat iblock < 76"
  shows "sfs_fs_inode_block_write fs i iblock v = sfs_fs_inode_block_write fs1 i1 iblock v"
proof -
  have "make_indirect fs1 i1 = Some (0, i1, fs1)" using assms(2) by (simp add: make_indirect_def)
  then have "indirect_target fs i (unat iblock) = indirect_target fs1 i1 (unat iblock)"
    using assms(1) by (simp add: indirect_target_def)
  then show ?thesis using assms(3,4) by (simp add: block_write_unfold unat_less_12 unat_less_76)
qed

lemma file_written_indexed:
  assumes x: "indexed A i A1 i1" and i: "inode_ok A i" and ind: "block_pointers i ! 12 = 0" and k: "12 \<le> k" "k < 76"
    and w: "file_written A1 i1 k v A' i'"
  shows "file_written A i k v A' i'"
proof -
  let ?b = "block_pointers i1 ! 12"
  have x1: "i1 = i\<lparr>block_pointers := block_pointers i1, change_time := change_time i1\<rparr>" "?b \<in> free_blocks A"
    "free_blocks A1 = free_blocks A - {?b}" "fptr A1 i1 = fptr A i" "a_inode A1 = (a_inode A)(inumber i := i1)"
    "\<And>c. c \<notin> free_blocks A \<Longrightarrow> a_block A1 c = a_block A c"
    using x by (simp_all add: indexed_def)
  have b0: "?b \<noteq> 0" using x1(2) zero_not_free by metis
  have n: "inumber i1 = inumber i" using arg_cong [OF x1(1), of inumber] by simp
  have ip: "set (iptrs A1 i1) = insert ?b (set (iptrs A i))" unfolding set_iptrs x1(4) ind using b0 by auto
  have fb: "fblock A1 i1 j = fblock A i j" for j
    using x1(6) [of "fptr A i j"] inode_okD(3) [OF i, of j] by (auto simp: fblock_def x1(4))
  have w1: "fblock A' i' k = v" "\<forall>j. j < 76 \<and> j \<noteq> k \<longrightarrow> fblock A' i' j = fblock A1 i1 j" "inode_ok A' i'"
    "i' = i1\<lparr>block_pointers := block_pointers i', change_time := change_time i'\<rparr>"
    "\<forall>m. m \<noteq> inumber i1 \<longrightarrow> a_inode A' m = a_inode A1 m" "a_inode A1 (inumber i1) = i1 \<longrightarrow> a_inode A' (inumber i1) = i'"
    "\<forall>b. b \<notin> free_blocks A1 \<and> b \<notin> set (iptrs A1 i1) \<longrightarrow> a_block A' b = a_block A1 b"
    "free_blocks A' \<subseteq> free_blocks A1" "set (iptrs A' i') = set (iptrs A1 i1) \<union> (free_blocks A1 - free_blocks A')"
    "free_blocks A' = free_blocks A1 - {fptr A' i' k, block_pointers i' ! 12}" "\<forall>j. j \<noteq> k \<longrightarrow> fptr A' i' j = fptr A1 i1 j"
    "block_pointers i' ! 12 = ?b" "fptr A1 i1 k \<noteq> 0 \<longrightarrow> fptr A' i' k = fptr A1 i1 k"
    "fptr A1 i1 k = 0 \<longrightarrow> fptr A' i' k \<in> free_blocks A1"
    using w b0 unfolding file_written_def by blast+
  have "i' = i\<lparr>block_pointers := block_pointers i', change_time := change_time i'\<rparr>"
    by (subst w1(4), subst x1(1)) simp
  moreover have "\<forall>b. b \<notin> free_blocks A \<and> b \<notin> set (iptrs A i) \<longrightarrow> a_block A' b = a_block A b"
    using w1(7) x1(2,3,6) ip by auto
  moreover have "set (iptrs A' i') = set (iptrs A i) \<union> (free_blocks A - free_blocks A')"
    unfolding w1(9) ip using x1(2,3) w1(8) by auto
  moreover have "free_blocks A' = free_blocks A - {fptr A' i' k, block_pointers i' ! 12}"
    unfolding w1(10) w1(12) x1(3) by auto
  moreover have "fptr A i k = 0" using ind k by (simp add: fptr_def)
  ultimately show ?thesis
    unfolding file_written_def using w1(1-3,5,6,8,11,12,14) x1(2-5) n fb ind k
    by simp
qed

lemma inode_block_write_ok:
  assumes al: "alloc_ok fs" and i: "inode_ok (abs_fs fs) i" and k: "unat iblock < 76"
    and n: "valid_ino (superblock fs) (inumber i)" and v: "length v = BLOCK_SIZE"
    and ind: "12 \<le> unat iblock \<Longrightarrow> block_pointers i ! 12 = 0 \<Longrightarrow>
      a_block (abs_fs fs) (next_block (abs_fs fs)) = zero_block \<and> 2 \<le> card (free_blocks (abs_fs fs))"
    and space: "fptr (abs_fs fs) i (unat iblock) = 0 \<Longrightarrow> free_blocks (abs_fs fs) \<noteq> {}"
  shows "\<exists>i' fs'. sfs_fs_inode_block_write fs i iblock v = Some (0, i', fs') \<and> alloc_ok fs' \<and>
    head_moved fs fs' \<and> file_written (abs_fs fs) i (unat iblock) v (abs_fs fs') i'"
proof (cases "fptr (abs_fs fs) i (unat iblock) = 0")
  case True
  show ?thesis
  proof (cases "unat iblock < 12")
    case True
    with \<open>fptr (abs_fs fs) i (unat iblock) = 0\<close> space show ?thesis
      by (intro direct_write_ok [OF al i True n v]) (simp_all add: fptr_def)
  next
    case False
    then have k12: "12 \<le> unat iblock" by simp
    show ?thesis
    proof (cases "block_pointers i ! 12 = 0")
      case False
      with \<open>fptr (abs_fs fs) i (unat iblock) = 0\<close> k12 space k show ?thesis
        by (intro indirect_write_ok [OF al i _ k v]) simp_all
    next
      case True
      note z = ind [OF k12 True]
      obtain i1 fs1 where 1: "make_indirect fs i = Some (0, i1, fs1)" "alloc_ok fs1" "head_moved fs fs1"
        "indexed (abs_fs fs) i (abs_fs fs1) i1"
        using make_indirect_ok [OF al i n True space [OF \<open>fptr (abs_fs fs) i (unat iblock) = 0\<close>]] z by blast
      have x: "inode_ok (abs_fs fs1) i1" "block_pointers i1 ! 12 \<in> free_blocks (abs_fs fs)"
        "free_blocks (abs_fs fs1) = free_blocks (abs_fs fs) - {block_pointers i1 ! 12}" "fptr (abs_fs fs1) i1 = fptr (abs_fs fs) i"
        using 1(4) by (simp_all add: indexed_def)
      have b0: "block_pointers i1 ! 12 \<noteq> 0" using x(2) zero_not_free by metis
      have "card (free_blocks (abs_fs fs1)) \<noteq> 0" using z x(2) unfolding x(3) by (simp add: card_Diff_singleton)
      then have "free_blocks (abs_fs fs1) \<noteq> {}" by auto
      with indirect_write_ok [OF 1(2) x(1) k12 k v b0] x(4) \<open>fptr (abs_fs fs) i (unat iblock) = 0\<close> obtain i2 fs2 where
        2: "sfs_fs_inode_block_write fs1 i1 iblock v = Some (0, i2, fs2)" "alloc_ok fs2" "head_moved fs1 fs2"
          "file_written (abs_fs fs1) i1 (unat iblock) v (abs_fs fs2) i2" by auto
      show ?thesis
        using 2(1,2) head_moved_trans [OF 1(3) 2(3)] file_written_indexed [OF 1(4) i True k12 k 2(4)] block_write_index [OF 1(1) b0 k12 k]
        by (intro exI [of _ i2] exI [of _ fs2]) simp
    qed
  qed
next
  case False
  then obtain fs1 where 1: "fs1 = fs \<or> fs1 = seen fs"
    "sfs_fs_inode_block_write fs i iblock v = Some (0, i, put_block fs1 (fptr (abs_fs fs) i (unat iblock)) v)"
    using inode_block_overwrite [OF al i k v] by metis
  then have "head_moved fs (put_block fs1 (fptr (abs_fs fs) i (unat iblock)) v)"
    by (auto simp: head_moved_def intro: exI [of _ "free_blocks_head (superblock fs)"])
  then show ?thesis using 1 overwrite_ok [OF al i k False v 1(1)] by blast
qed

text \<open>The branches that fail leave the file system as it was.\<close>

lemma inode_block_write_beyond: "76 \<le> iblock \<Longrightarrow> sfs_fs_inode_block_write fs i iblock v = Some (-1, i, fs)"
  by (simp add: block_write_unfold word_less_nat_alt word_le_nat_alt)

lemma inode_block_write_hole:
  assumes al: "alloc_ok fs" and i: "inode_ok (abs_fs fs) i" and fb: "free_blocks (abs_fs fs) = {}"
    and k: "unat iblock < 76" and p: "fptr (abs_fs fs) i (unat iblock) = 0"
  shows "\<exists>fs'. sfs_fs_inode_block_write fs i iblock v = Some (-1, i, fs') \<and> alloc_ok fs' \<and> abs_fs fs' = abs_fs fs"
proof -
  let ?ind = "block_pointers i ! 12"
  consider "unat iblock < 12" | "12 \<le> unat iblock" "?ind = 0" | "12 \<le> unat iblock" "?ind \<noteq> 0" by linarith
  then show ?thesis
  proof cases
    case 1
    then have "block_pointers i ! unat iblock = 0" using p by (simp add: fptr_def)
    then show ?thesis using 1 al fb by (simp add: block_write_unfold unat_less_12 direct_target_def allocate_block_none)
  next
    case 2
    then show ?thesis
      using al fb k by (simp add: block_write_unfold unat_less_12 unat_less_76 indirect_target_def make_indirect_def allocate_block_none)
  next
    case 3
    have sn: "alloc_ok (seen fs)" "free_blocks (abs_fs (seen fs)) = {}" using al fb by simp_all
    have "valid_block (superblock fs) ?ind" using inode_okD(4) [OF i] 3(2) by simp
    moreover have "get_u64 (unat iblock - 12) (a_block (abs_fs fs) ?ind) = 0" using p k 3 by (simp add: fptr_def)
    ultimately have "sfs_fs_inode_block_write fs i iblock v = Some (-1, i, seen fs)"
      using 3 k alloc_ok_fs [OF al] allocate_block_none [OF sn]
      by (simp add: block_write_unfold unat_less_12 unat_less_76 indirect_target_def make_indirect_def
          read_from_indirect_def Let_def disk_access)
    then show ?thesis using sn(1) by simp
  qed
qed

text \<open>
  A new indirect index is not cleared: its 64 pointers are whatever the block held when it was
  allocated. The file is as before only if that was zeros.
\<close>

lemma make_indirect_stale:
  assumes al: "alloc_ok fs" and i: "wf_inode i" "valid_ino (superblock fs) (inumber i)" "block_pointers i ! 12 = 0"
    and a: "sfs_fs_allocate_block fs = (Some b, fs1)"
  shows "\<exists>i' fs'. make_indirect fs i = Some (0, i', fs') \<and> block_pointers i' ! 12 = b \<and>
    (\<forall>j. 12 \<le> j \<and> j < 76 \<longrightarrow> fptr (abs_fs fs') i' j = get_u64 (j - 12) (a_block (abs_fs fs1) b)) \<and>
    (inode_ok (abs_fs fs) i \<and> a_block (abs_fs fs1) b = zero_block \<longrightarrow> indexed (abs_fs fs) i (abs_fs fs') i')"
proof -
  have ne: "free_blocks (abs_fs fs) \<noteq> {}" using a allocate_block_none [OF al] by auto
  from allocate_block_ok [OF al ne] a obtain h where 1: "alloc_ok fs1" "b \<in> free_blocks (abs_fs fs)"
    "superblock fs1 = (superblock fs)\<lparr>free_blocks_head := h\<rparr>" "b = next_block (abs_fs fs)"
    "a_block (abs_fs fs1) b = a_block (abs_fs fs) b"
    by auto
  have b0: "b \<noteq> 0" using free_block_valid [OF al 1(2)] by (auto simp: valid_block_def)
  let ?i = "i\<lparr>block_pointers := (block_pointers i)[12 := b], change_time := fs_now fs1\<rparr>"
  have wf: "wf_inode ?i" using i(1) by (simp add: wf_inode_def)
  have f: "fs_ok (tick fs1)" "valid_ino (superblock (tick fs1)) (inumber ?i)"
    using alloc_ok_fs [OF 1(1)] i(2) 1(3) by simp_all
  note aw = after_write_abs [OF f wf]
  have res: "make_indirect fs i = Some (0, ?i, after_write (tick fs1) ?i)"
    using a i(3) f by (simp add: make_indirect_def Let_def disk_access sfs_fs_write_inode_ok)
  have "indexed (abs_fs fs) i (abs_fs (after_write (tick fs1) ?i)) ?i"
    if "inode_ok (abs_fs fs) i" "a_block (abs_fs fs1) b = zero_block"
  proof -
    have "a_block (abs_fs fs) (next_block (abs_fs fs)) = zero_block" using that(2) unfolding 1(5) 1(4) [symmetric] .
    from make_indirect_ok [OF al that(1) i(2,3) ne this] show ?thesis using res by (metis option.inject prod.inject)
  qed
  moreover have "block_pointers ?i ! 12 = b" using i(1) by simp
  moreover have "\<forall>j. 12 \<le> j \<and> j < 76 \<longrightarrow>
      fptr (abs_fs (after_write (tick fs1) ?i)) ?i j = get_u64 (j - 12) (a_block (abs_fs fs1) b)"
    using b0 i(1) by (auto simp: fptr_def aw(1))
  ultimately show ?thesis using res by blast
qed

text \<open>Removing a block returns it to the free space but leaves the pointer in the inode.\<close>

lemma block_remove_frees:
  assumes al: "alloc_ok fs" and i: "inode_ok (abs_fs fs) i" and k: "unat iblock < 12"
    and p: "block_pointers i ! unat iblock \<noteq> 0"
  shows "\<exists>fs'. sfs_fs_inode_block_remove fs i iblock = Some (0, fs') \<and> alloc_ok fs' \<and>
    free_blocks (abs_fs fs') = insert (block_pointers i ! unat iblock) (free_blocks (abs_fs fs)) \<and>
    a_inode (abs_fs fs') = a_inode (abs_fs fs)"
proof -
  let ?p = "block_pointers i ! unat iblock"
  have "fptr (abs_fs fs) i (unat iblock) = ?p" using k by (simp add: fptr_def)
  then have "valid_block (superblock fs) ?p" "?p \<notin> free_blocks (abs_fs fs)"
    using inode_okD(3) [OF i, of "unat iblock"] p by simp_all
  from free_block_ok [OF al this] show ?thesis
    using k p by (auto simp: sfs_fs_inode_block_remove_def word_le_nat_alt)
qed

end
