(* ===== verification/Cstring.thy ===== *)
theory Cstring
  imports Prelude
begin

text \<open>
  The functions of \<^verbatim>\<open><string.h>\<close> and \<^verbatim>\<open><libgen.h>\<close> that \<^verbatim>\<open>src/src/dir.c\<close> and \<^verbatim>\<open>src/src/sfs.c\<close> apply to
  names and paths. A C string that the code receives is the list of its bytes before the
  terminating zero; an array of \<^verbatim>\<open>char\<close> inside a structure is the list of all its bytes, and
  \<open>cstr\<close> reads it as a string. \<^verbatim>\<open>dirname\<close> and \<^verbatim>\<open>basename\<close> are those of POSIX, which leaves a path
  that begins with two slashes to the implementation; here such a path is treated as one that
  begins with one slash.
\<close>

definition cstr :: "bytes \<Rightarrow> bytes" where
  "cstr bs = takeWhile (\<lambda>b. b \<noteq> 0) bs"

definition c_string :: "bytes \<Rightarrow> bool" where
  "c_string s \<longleftrightarrow> 0 \<notin> set s"

definition strncmp_eq :: "nat \<Rightarrow> bytes \<Rightarrow> bytes \<Rightarrow> bool" where
  "strncmp_eq n a b \<longleftrightarrow> cstr (take n a) = cstr (take n b)"

definition strncpy :: "nat \<Rightarrow> bytes \<Rightarrow> bytes" where
  "strncpy n s = take n s @ replicate (n - length s) 0"

abbreviation SLASH :: u8 where "SLASH \<equiv> 47"
abbreviation DOT :: u8 where "DOT \<equiv> 46"

definition strip_slashes :: "bytes \<Rightarrow> bytes" where
  "strip_slashes s = rev (dropWhile (\<lambda>c. c = SLASH) (rev s))"

definition dirname :: "bytes \<Rightarrow> bytes" where
  "dirname s =
     (let t = strip_slashes s
      in if t = [] then (if s = [] then [DOT] else [SLASH])
         else let u = rev (dropWhile (\<lambda>c. c \<noteq> SLASH) (rev t))
              in if u = [] then [DOT]
                 else if strip_slashes u = [] then [SLASH] else strip_slashes u)"

definition basename :: "bytes \<Rightarrow> bytes" where
  "basename s =
     (let t = strip_slashes s
      in if t = [] then (if s = [] then [DOT] else [SLASH])
         else rev (takeWhile (\<lambda>c. c \<noteq> SLASH) (rev t)))"

text \<open>\<^verbatim>\<open>strsep(&s, "/")\<close>: the token, if any, and the new value of \<^verbatim>\<open>s\<close>.\<close>

fun strsep :: "bytes option \<Rightarrow> bytes option \<times> bytes option" where
  "strsep None = (None, None)"
| "strsep (Some s) =
     (Some (takeWhile (\<lambda>c. c \<noteq> SLASH) s),
      case dropWhile (\<lambda>c. c \<noteq> SLASH) s of [] \<Rightarrow> None | c # rest \<Rightarrow> Some rest)"

subsection \<open>Names\<close>

lemma cstr_id [simp]: "c_string s \<Longrightarrow> cstr s = s"
  by (auto simp: cstr_def c_string_def takeWhile_eq_all_conv)

lemma cstr_padded: "c_string s \<Longrightarrow> cstr (s @ replicate n 0) = s"
  by (cases n) (auto simp: cstr_def c_string_def takeWhile_append)

lemma length_strncpy [simp, sfs_len]: "length (strncpy n s) = n"
  by (simp add: strncpy_def)

lemma c_string_take: "c_string s \<Longrightarrow> c_string (take n s)"
  by (auto simp: c_string_def dest: in_set_takeD)

lemma cstr_strncpy: "c_string s \<Longrightarrow> cstr (strncpy n s) = take n s"
  by (simp add: strncpy_def cstr_padded c_string_take)

text \<open>What is stored under a name is found under that name and under no other.\<close>

lemma strncmp_strncpy:
  "c_string s \<Longrightarrow> c_string t \<Longrightarrow> length s \<le> n \<Longrightarrow> length t \<le> n \<Longrightarrow> strncmp_eq n (strncpy n s) t \<longleftrightarrow> s = t"
  by (simp add: strncmp_eq_def cstr_strncpy)

subsection \<open>Paths\<close>

text \<open>A path \<open>"/name"\<close> splits into the root and \<open>name\<close>.\<close>

lemma strip_slashes_id: "s = [] \<or> last s \<noteq> SLASH \<Longrightarrow> strip_slashes s = s"
  by (cases s rule: rev_cases) (auto simp: strip_slashes_def)

lemma no_slash_rev:
  assumes "SLASH \<notin> set nm"
  shows "takeWhile (\<lambda>c. c \<noteq> SLASH) (rev nm @ [SLASH]) = rev nm"
    "dropWhile (\<lambda>c. c \<noteq> SLASH) (rev nm @ [SLASH]) = [SLASH]"
proof -
  have "\<forall>c\<in>set (rev nm). c \<noteq> SLASH" using assms by auto
  then show "takeWhile (\<lambda>c. c \<noteq> SLASH) (rev nm @ [SLASH]) = rev nm"
    "dropWhile (\<lambda>c. c \<noteq> SLASH) (rev nm @ [SLASH]) = [SLASH]"
    using takeWhile_append2 [of "rev nm" "\<lambda>c. c \<noteq> SLASH" "[SLASH]"]
      dropWhile_append2 [of "rev nm" "\<lambda>c. c \<noteq> SLASH" "[SLASH]"] by auto
qed

lemma root_path:
  assumes "nm \<noteq> []" "SLASH \<notin> set nm"
  shows "dirname (SLASH # nm) = [SLASH]" "basename (SLASH # nm) = nm"
proof -
  have "last (SLASH # nm) \<noteq> SLASH" using assms last_in_set [of nm] by (metis last.simps last_append list.distinct(1))
  then have "strip_slashes (SLASH # nm) = SLASH # nm" by (intro strip_slashes_id) simp
  then show "dirname (SLASH # nm) = [SLASH]" "basename (SLASH # nm) = nm"
    using no_slash_rev [OF assms(2)] by (simp_all add: dirname_def basename_def Let_def strip_slashes_def)
qed

lemma nested_path:
  assumes "nm \<noteq> []" "SLASH \<notin> set nm" "d \<noteq> []" "SLASH \<notin> set d"
  shows "dirname (SLASH # d @ SLASH # nm) = SLASH # d"
proof -
  have "last (SLASH # d @ SLASH # nm) = last nm" using assms(1) by simp
  then have "last (SLASH # d @ SLASH # nm) \<noteq> SLASH" using assms(1,2) last_in_set [of nm] by metis
  then have 1: "strip_slashes (SLASH # d @ SLASH # nm) = SLASH # d @ SLASH # nm"
    by (intro strip_slashes_id) simp
  have "last (SLASH # d) \<noteq> SLASH" using assms last_in_set [of d] by (metis last.simps)
  then have 2: "strip_slashes (SLASH # d @ [SLASH]) = SLASH # d"
    using strip_slashes_id [of "SLASH # d"] by (simp add: strip_slashes_def)
  have "\<forall>c\<in>set (rev nm). c \<noteq> SLASH" using assms by auto
  then have 3: "rev (dropWhile (\<lambda>c. c \<noteq> SLASH) (rev (SLASH # d @ SLASH # nm))) = SLASH # d @ [SLASH]"
    using dropWhile_append2 [of "rev nm" "\<lambda>c. c \<noteq> SLASH" "SLASH # rev d @ [SLASH]"] by auto
  show ?thesis unfolding dirname_def Let_def 1 3 2 by simp
qed

lemma slash_path: "dirname [SLASH] = [SLASH]" "basename [SLASH] = [SLASH]"
  by (simp_all add: dirname_def basename_def strip_slashes_def)

end
