(* ===== verification/Directory.thy ===== *)
theory Directory
  imports File_Block Cstring
begin

text \<open>
  Directories, \<^verbatim>\<open>src/src/dir.c\<close>: a directory is a file whose blocks hold one entry each (an entry
  takes 264 of the 512 bytes), an entry with inode number 0 being vacant. The pointer
  \<^verbatim>\<open>it->inode\<close> of an iterator refers to a variable of the caller; the model keeps the value of that
  variable in the iterator and the caller takes it back from there. A pointer to an entry is its
  index in the cached block.
\<close>

unbundle bit_operations_syntax

subsection \<open>Operations\<close>

definition sfs_dir_root :: "filesystem \<Rightarrow> (sfs_fs_inode option \<times> filesystem) option" where
  "sfs_dir_root fs = sfs_fs_read_inode fs 1"

record dir_iterator =
  it_inode :: sfs_fs_inode
  it_iblock :: u64
  it_entry :: nat
  cached_block :: bytes

text \<open>\<open>mem\<close> is what \<^verbatim>\<open>malloc\<close> returns: \<open>None\<close>, or memory with these bytes in the place of the block.\<close>

definition sfs_dir_iterate :: "bytes option \<Rightarrow> sfs_fs_inode \<Rightarrow> dir_iterator option option" where
  "sfs_dir_iterate mem inode =
     (if mode inode AND S_IFDIR = 0 then None
      else case mem of
             None \<Rightarrow> Some None
           | Some raw \<Rightarrow> Some (Some \<lparr>it_inode = inode, it_iblock = 0, it_entry = 0, cached_block = raw\<rparr>))"

text \<open>The part of the loop that reads the next block; \<open>False\<close> is \<^verbatim>\<open>goto end\<close>.\<close>

definition iter_load :: "filesystem \<Rightarrow> dir_iterator \<Rightarrow> (bool \<times> dir_iterator \<times> filesystem) option" where
  "iter_load fs it =
     (if it_entry it \<noteq> 0 then Some (True, it, fs)
      else case sfs_fs_inode_block_read fs (it_inode it) (it_iblock it) of
             (None, fs) \<Rightarrow> Some (False, it, fs)
           | (Some block, fs) \<Rightarrow>
               let (t, d) = time (disk fs);
                   fs = fs\<lparr>disk := d\<rparr>;
                   inode = (it_inode it)\<lparr>access_time := t\<rparr>
               in do {
                    (r, fs) \<leftarrow> sfs_fs_write_inode fs inode;
                    Some (r = 0, it\<lparr>it_inode := inode, cached_block := block\<rparr>, fs)
                  })"

lemma iter_load_beyond: "iter_load fs it = Some (True, it', fs') \<Longrightarrow> it_entry it = 0 \<Longrightarrow> it_iblock it < 76"
  using inode_block_read_beyond [of "it_iblock it" fs "it_inode it"]
  by (auto simp: iter_load_def not_less [symmetric] split: option.splits prod.splits)

lemma iter_load_iblock: "iter_load fs it = Some (b, it', fs') \<Longrightarrow> it_iblock it' = it_iblock it"
  by (auto simp: iter_load_def Let_def split: option.splits prod.splits if_splits bind_splits)

text \<open>
  The loop advances to the next entry in use. The result is the entry and its inode when the
  caller asked for it, or \<open>None\<close>, which is also the end of the iterator's life.
\<close>

function sfs_dir_iternext ::
  "filesystem \<Rightarrow> dir_iterator \<Rightarrow> bool \<Rightarrow> ((nat \<times> sfs_fs_inode option) option \<times> dir_iterator \<times> filesystem) option" where
  "sfs_dir_iternext fs it want_inode =
     (if isize (it_inode it) \<le> it_iblock it * 512 then Some (None, it, fs)
      else do {
        (ok, it', fs') \<leftarrow> iter_load fs it;
        if \<not> ok then Some (None, it', fs')
        else case List.find (\<lambda>j. de_inumber (get_entry j (cached_block it')) \<noteq> 0) [it_entry it..<ENTRIES_PER_BLOCK] of
               Some j \<Rightarrow>
                 if want_inode
                 then do {
                   (r, fs'') \<leftarrow> sfs_fs_read_inode fs' (de_inumber (get_entry j (cached_block it')));
                   case r of
                     None \<Rightarrow> Some (None, it', fs'')
                   | Some inode \<Rightarrow> Some (Some (j, Some inode), it'\<lparr>it_entry := j + 1\<rparr>, fs'')
                 }
                 else Some (Some (j, None), it'\<lparr>it_entry := j + 1\<rparr>, fs')
             | None \<Rightarrow> sfs_dir_iternext fs' (it'\<lparr>it_iblock := it_iblock it' + 1, it_entry := 0\<rparr>) want_inode
      })"
  by pat_completeness auto

termination
proof (relation "measure (\<lambda>(fs, it, w). if it_entry it = 0 then 77 - unat (it_iblock it) else 78)", goal_cases)
  case 1
  show ?case by simp
next
  case (2 fs it want_inode x ok y it' fs')
  show ?case
  proof (cases "it_entry it = 0")
    case True
    with 2 have "it_iblock it < 76" by (auto dest!: iter_load_beyond)
    then have "unat (it_iblock it) < 76" by (simp add: unat_less_76)
    moreover have "it_iblock it' = it_iblock it" using 2 by (auto dest!: iter_load_iblock)
    ultimately show ?thesis using True by (simp add: unat_plus_no_overflow)
  next
    case False
    then show ?thesis by simp
  qed
qed

declare sfs_dir_iternext.simps [simp del]

text \<open>\<^verbatim>\<open>if (inode.links == 0) sfs_fs_inode_deallocate(..) else sfs_fs_write_inode(..)\<close>.\<close>

definition drop_link :: "filesystem \<Rightarrow> sfs_fs_inode \<Rightarrow> (int \<times> filesystem) option" where
  "drop_link fs i = (if links i = 0 then sfs_fs_inode_deallocate fs i else sfs_fs_write_inode fs i)"

definition sfs_dir_iter_unlink :: "filesystem \<Rightarrow> dir_iterator \<Rightarrow> nat \<Rightarrow> (int \<times> dir_iterator \<times> filesystem) option" where
  "sfs_dir_iter_unlink fs it direntry = do {
     (r, fs) \<leftarrow> sfs_fs_read_inode fs (de_inumber (get_entry direntry (cached_block it)));
     case r of
       None \<Rightarrow> Some (-1, it, fs)
     | Some inode \<Rightarrow>
         let (t, d) = time (disk fs);
             fs = fs\<lparr>disk := d\<rparr>;
             inode = inode\<lparr>links := links inode - 1, change_time := t\<rparr>
         in do {
              (r, fs) \<leftarrow> drop_link fs inode;
              if r \<noteq> 0 then Some (-1, it, fs)
              else let (t, d) = time (disk fs);
                       fs = fs\<lparr>disk := d\<rparr>;
                       it = it\<lparr>cached_block := put_entry_inumber direntry 0 (cached_block it),
                               it_inode := (it_inode it)\<lparr>modified_time := t\<rparr>\<rparr>
                   in do {
                        (r, fs) \<leftarrow> sfs_fs_write_inode fs (it_inode it);
                        if r \<noteq> 0 then Some (-1, it, fs)
                        else do {
                          (r, directory, fs) \<leftarrow>
                            sfs_fs_inode_block_write fs (it_inode it) (it_iblock it) (cached_block it);
                          Some (if r \<noteq> 0 then -1 else 0, it\<lparr>it_inode := directory\<rparr>, fs)
                        }
                      }
            }
   }"

text \<open>\<^verbatim>\<open>free(iterator)\<close>: what remains is the caller's inode.\<close>

definition sfs_dir_iterclose :: "dir_iterator \<Rightarrow> int \<times> sfs_fs_inode" where
  "sfs_dir_iterclose it = (0, it_inode it)"

text \<open>The two ways \<^verbatim>\<open>sfs_dir_link\<close> ends: in the vacant entry \<open>j\<close> of block \<open>i\<close>, and in a new block.\<close>

definition link_at ::
  "filesystem \<Rightarrow> sfs_fs_inode \<Rightarrow> bytes \<Rightarrow> sfs_fs_inode \<Rightarrow> u64 \<Rightarrow> bytes \<Rightarrow> nat \<Rightarrow>
   (int \<times> sfs_fs_inode \<times> sfs_fs_inode \<times> filesystem) option" where
  "link_at fs directory name inode i tmp_block j =
     (let tmp_block = put_entry_name j (strncpy 256 name) (put_entry_inumber j (inumber inode) tmp_block)
      in do {
        (r, directory, fs) \<leftarrow> sfs_fs_inode_block_write fs directory i tmp_block;
        if r \<noteq> 0 then Some (-1, directory, inode, fs)
        else let (t, d) = time (disk fs);
                 fs = fs\<lparr>disk := d\<rparr>;
                 inode = inode\<lparr>links := links inode + 1, change_time := t\<rparr>;
                 directory = directory\<lparr>modified_time := t\<rparr>
             in do {
                  (r, fs) \<leftarrow> sfs_fs_write_inode fs directory;
                  if r \<noteq> 0 then Some (-1, directory, inode, fs)
                  else do {
                    (r, fs) \<leftarrow> sfs_fs_write_inode fs inode;
                    Some (if r \<noteq> 0 then -1 else 0, directory, inode, fs)
                  }
                }
      })"

definition link_append ::
  "filesystem \<Rightarrow> sfs_fs_inode \<Rightarrow> bytes \<Rightarrow> sfs_fs_inode \<Rightarrow>
   (int \<times> sfs_fs_inode \<times> sfs_fs_inode \<times> filesystem) option" where
  "link_append fs directory name inode =
     (let tmp_block = put_entry_name 0 (strncpy 256 name) (put_entry_inumber 0 (inumber inode) zero_block)
      in do {
        (r, directory, fs) \<leftarrow> sfs_fs_inode_block_write fs directory (isize directory div 512) tmp_block;
        if r \<noteq> 0 then Some (-1, directory, inode, fs)
        else let (t, d) = time (disk fs);
                 fs = fs\<lparr>disk := d\<rparr>;
                 directory = directory\<lparr>isize := isize directory + 512, modified_time := t\<rparr>
             in do {
                  (r, fs) \<leftarrow> sfs_fs_write_inode fs directory;
                  if r \<noteq> 0 then Some (-1, directory, inode, fs)
                  else let (t, d) = time (disk fs);
                           fs = fs\<lparr>disk := d\<rparr>;
                           inode = inode\<lparr>links := links inode + 1, change_time := t\<rparr>
                       in do {
                            (r, fs) \<leftarrow> sfs_fs_write_inode fs inode;
                            Some (if r \<noteq> 0 then -1 else 0, directory, inode, fs)
                          }
                }
      })"

fun link_scan ::
  "filesystem \<Rightarrow> sfs_fs_inode \<Rightarrow> bytes \<Rightarrow> sfs_fs_inode \<Rightarrow> u64 list \<Rightarrow>
   (int \<times> sfs_fs_inode \<times> sfs_fs_inode \<times> filesystem) option" where
  "link_scan fs directory name inode [] = link_append fs directory name inode"
| "link_scan fs directory name inode (i # is) =
     (case sfs_fs_inode_block_read fs directory i of
        (None, fs) \<Rightarrow> Some (-1, directory, inode, fs)
      | (Some tmp_block, fs) \<Rightarrow>
          (case List.find (\<lambda>j. de_inumber (get_entry j tmp_block) = 0) [0..<ENTRIES_PER_BLOCK] of
             Some j \<Rightarrow> link_at fs directory name inode i tmp_block j
           | None \<Rightarrow> link_scan fs directory name inode is))"

definition sfs_dir_link ::
  "filesystem \<Rightarrow> sfs_fs_inode \<Rightarrow> bytes \<Rightarrow> sfs_fs_inode \<Rightarrow>
   (int \<times> sfs_fs_inode \<times> sfs_fs_inode \<times> filesystem) option" where
  "sfs_dir_link fs directory name inode =
     (if 255 < length name then Some (-1, directory, inode, fs)
      else link_scan fs directory name inode (map of_nat [0..<unat (isize directory div 512)]))"

subsection \<open>The contents of a directory\<close>

definition dslot :: "fs_abs \<Rightarrow> sfs_fs_inode \<Rightarrow> nat \<Rightarrow> sfs_dir_entry" where
  "dslot A d k = get_entry 0 (fblock A d k)"

definition dsize :: "sfs_fs_inode \<Rightarrow> nat" where
  "dsize d = unat (isize d) div BLOCK_SIZE"

definition dlive :: "fs_abs \<Rightarrow> sfs_fs_inode \<Rightarrow> nat \<Rightarrow> bool" where
  "dlive A d k \<longleftrightarrow> de_inumber (dslot A d k) \<noteq> 0"

definition dir_ok :: "fs_abs \<Rightarrow> sfs_fs_inode \<Rightarrow> bool" where
  "dir_ok A d \<longleftrightarrow> inode_ok A d \<and> valid_ino (a_super A) (inumber d) \<and> a_inode A (inumber d) = d \<and>
     mode d AND S_IFDIR \<noteq> 0 \<and> BLOCK_SIZE dvd unat (isize d) \<and> dsize d \<le> 76"

lemma dir_okD:
  assumes "dir_ok A d"
  shows "inode_ok A d" "valid_ino (a_super A) (inumber d)" "a_inode A (inumber d) = d" "wf_inode d"
    "mode d AND S_IFDIR \<noteq> 0" "unat (isize d) = BLOCK_SIZE * dsize d" "dsize d \<le> 76"
  using assms by (auto simp: dir_ok_def inode_ok_def dsize_def)

text \<open>Iterating changes nothing but the access time of the directory.\<close>

definition touched :: "fs_abs \<Rightarrow> sfs_fs_inode \<Rightarrow> fs_abs \<Rightarrow> sfs_fs_inode \<Rightarrow> bool" where
  "touched A d A' d' \<longleftrightarrow>
     (\<exists>t. d' = d\<lparr>access_time := t\<rparr>) \<and> A' = A\<lparr>a_inode := (a_inode A)(inumber d := d')\<rparr>"

lemma touched_refl [simp]: "a_inode A (inumber d) = d \<Longrightarrow> touched A d A d"
  by (auto simp: touched_def fun_upd_idem intro!: exI [of _ "access_time d"])

lemma touched_same:
  assumes "touched A d A' d'"
  shows "inumber d' = inumber d" "mode d' = mode d" "isize d' = isize d" "block_pointers d' = block_pointers d"
    "links d' = links d" "dsize d' = dsize d" "a_super A' = a_super A" "a_block A' = a_block A"
    "a_inode A' (inumber d) = d'" "n \<noteq> inumber d \<Longrightarrow> a_inode A' n = a_inode A n"
    "wf_inode d' = wf_inode d"
  using assms by (auto simp: touched_def dsize_def)

lemma touched_trans: "touched A d A1 d1 \<Longrightarrow> touched A1 d1 A2 d2 \<Longrightarrow> touched A d A2 d2"
  by (auto simp: touched_def)

text \<open>The blocks of a file and the free space do not depend on the inode table.\<close>

lemma fptr_cong: "a_block A' = a_block A \<Longrightarrow> block_pointers d' = block_pointers d \<Longrightarrow> fptr A' d' = fptr A d"
  by (simp add: fptr_def fun_eq_iff)

lemma fblock_cong: "a_block A' = a_block A \<Longrightarrow> block_pointers d' = block_pointers d \<Longrightarrow> fblock A' d' = fblock A d"
  using fptr_cong [of A' A d' d] by (auto simp: fblock_def fun_eq_iff)

lemma free_blocks_cong: "a_block A' = a_block A \<Longrightarrow> free_blocks_head (a_super A') = free_blocks_head (a_super A) \<Longrightarrow>
    free_blocks A' = free_blocks A"
  by (simp add: free_blocks_def)

lemma inode_ok_cong:
  "a_block A' = a_block A \<Longrightarrow> a_super A' = a_super A \<Longrightarrow> block_pointers d' = block_pointers d \<Longrightarrow>
   inode_ok A' d' = inode_ok A d"
  by (simp add: inode_ok_def iptrs_def fptr_cong [of A' A d' d] free_blocks_cong [of A' A] wf_inode_def)

lemma touched_dir:
  assumes "touched A d A' d'"
  shows "fblock A' d' = fblock A d" "dslot A' d' = dslot A d" "dlive A' d' = dlive A d" "dir_ok A d \<Longrightarrow> dir_ok A' d'"
    "free_blocks A' = free_blocks A"
proof -
  note s = touched_same [OF assms]
  show f: "fblock A' d' = fblock A d" using s by (intro fblock_cong)
  then show "dslot A' d' = dslot A d" "dlive A' d' = dlive A d" by (simp_all add: dslot_def dlive_def fun_eq_iff)
  show "free_blocks A' = free_blocks A" using s by (intro free_blocks_cong) simp_all
  show "dir_ok A d \<Longrightarrow> dir_ok A' d'"
    using s inode_ok_cong [of A' A d' d] by (simp add: dir_ok_def)
qed

lemma touched_alloc_ok:
  assumes "alloc_ok fs" "touched (abs_fs fs) d (abs_fs fs') d'" "fs_ok fs'"
  shows "alloc_ok fs'"
proof -
  note s = touched_same [OF assms(2)]
  from assms(1) obtain ns where "free_rep (abs_fs fs) ns" by (auto simp: alloc_ok_def)
  then have "free_rep (abs_fs fs') ns" using s by (simp add: free_rep_def)
  with assms(3) show ?thesis by (auto simp: alloc_ok_def)
qed

subsection \<open>Iterating\<close>

lemma iter_load_ok:
  assumes fs: "fs_ok fs" and d: "dir_ok (abs_fs fs) (it_inode it)" and e: "it_entry it = 0"
    and k: "unat (it_iblock it) < 76"
  shows "\<exists>d' fs'. iter_load fs it =
      Some (True, it\<lparr>it_inode := d', cached_block := fblock (abs_fs fs) (it_inode it) (unat (it_iblock it))\<rparr>, fs') \<and>
    fs_ok fs' \<and> superblock fs' = superblock fs \<and> touched (abs_fs fs) (it_inode it) (abs_fs fs') d'"
proof -
  let ?d = "it_inode it"
  from inode_block_read_ok [OF fs dir_okD(1) [OF d] k] obtain fs1 where
    1: "sfs_fs_inode_block_read fs ?d (it_iblock it) = (Some (fblock (abs_fs fs) ?d (unat (it_iblock it))), fs1)"
      "fs_ok fs1" "abs_fs fs1 = abs_fs fs" "superblock fs1 = superblock fs"
    by blast
  let ?d' = "?d\<lparr>access_time := fs_now fs1\<rparr>"
  have f: "fs_ok (tick fs1)" "valid_ino (superblock (tick fs1)) (inumber ?d')" "wf_inode ?d'"
    using 1 dir_okD [OF d] by simp_all
  note aw = after_write_abs [OF f]
  have "iter_load fs it =
      Some (True, it\<lparr>it_inode := ?d', cached_block := fblock (abs_fs fs) ?d (unat (it_iblock it))\<rparr>,
        after_write (tick fs1) ?d')"
    using e 1 f by (simp add: iter_load_def Let_def disk_access sfs_fs_write_inode_ok)
  moreover have "touched (abs_fs fs) ?d (abs_fs (after_write (tick fs1) ?d')) ?d'"
    using 1 by (auto simp: touched_def aw(1))
  ultimately show ?thesis using aw 1 by auto
qed

definition next_live :: "fs_abs \<Rightarrow> sfs_fs_inode \<Rightarrow> nat \<Rightarrow> nat option" where
  "next_live A d k = List.find (dlive A d) [k..<dsize d]"

lemma next_live_rec: "next_live A d k = (if dsize d \<le> k then None else if dlive A d k then Some k else next_live A d (k + 1))"
  by (simp add: next_live_def upt_conv_Cons)

lemma touched_next_live: "touched A d A' d' \<Longrightarrow> next_live A' d' = next_live A d"
  by (simp add: next_live_def fun_eq_iff touched_dir touched_same)

text \<open>What a call that finds entry \<open>k\<close>, or none, leaves behind.\<close>

definition iter_result ::
  "fs_abs \<Rightarrow> sfs_fs_inode \<Rightarrow> bool \<Rightarrow> nat option \<Rightarrow>
   (nat \<times> sfs_fs_inode option) option \<Rightarrow> dir_iterator \<Rightarrow> fs_abs \<Rightarrow> bool" where
  "iter_result A d w f r it A' \<longleftrightarrow> touched A d A' (it_inode it) \<and>
     (case f of
        None \<Rightarrow> r = None
      | Some k \<Rightarrow> r = Some (0, if w then Some (a_inode A' (de_inumber (dslot A d k))) else None) \<and>
          it_entry it = 1 \<and> unat (it_iblock it) = k \<and> cached_block it = fblock A d k)"

lemma iter_result_touched:
  assumes "touched A d A1 d1" "iter_result A1 d1 w f r it A'"
  shows "iter_result A d w f r it A'"
  using assms touched_trans [OF assms(1)] touched_dir [OF assms(1)]
  by (auto simp: iter_result_def split: option.splits)

lemma size_passed:
  assumes "dir_ok A d" "unat b < 2 ^ 32"
  shows "isize d \<le> b * 512 \<longleftrightarrow> dsize d \<le> unat b"
proof -
  have "unat (b * 512) = unat b * 512" using assms(2) by (simp add: unat_word_ariths unat_of_nat_u64)
  then show ?thesis using dir_okD(6) [OF assms(1)] by (simp add: word_le_nat_alt)
qed

lemma unat_Suc_small: "unat (b :: u64) < 2 ^ 32 \<Longrightarrow> unat (b + 1) = unat b + 1"
  by (subst unat_plus_no_overflow) simp_all

lemma iternext_fresh:
  assumes "fs_ok fs" "dir_ok (abs_fs fs) (it_inode it)" "it_entry it = 0" "unat (it_iblock it) \<le> 76"
    and "w \<Longrightarrow> \<forall>k<dsize (it_inode it). dlive (abs_fs fs) (it_inode it) k \<longrightarrow>
      valid_ino (superblock fs) (de_inumber (dslot (abs_fs fs) (it_inode it) k))"
  shows "\<exists>r it' fs'. sfs_dir_iternext fs it w = Some (r, it', fs') \<and> fs_ok fs' \<and> superblock fs' = superblock fs \<and>
    iter_result (abs_fs fs) (it_inode it) w (next_live (abs_fs fs) (it_inode it) (unat (it_iblock it))) r it' (abs_fs fs')"
  using assms
proof (induction "76 - unat (it_iblock it)" arbitrary: fs it rule: less_induct)
  case less
  let ?A = "abs_fs fs" and ?d = "it_inode it" and ?k = "unat (it_iblock it)"
  note d = dir_okD [OF less.prems(2)]
  have small: "?k < 2 ^ 32" using less.prems(4) by simp
  show ?case
  proof (cases "dsize ?d \<le> ?k")
    case True
    then show ?thesis
      using less.prems(1) d size_passed [OF less.prems(2) small]
      by (subst sfs_dir_iternext.simps) (auto simp: iter_result_def next_live_rec)
  next
    case False
    then have kd: "?k < dsize ?d" and k: "?k < 76" using d(7) by simp_all
    from iter_load_ok [OF less.prems(1-3) k] obtain d1 fs1 where
      1: "iter_load fs it = Some (True, it\<lparr>it_inode := d1, cached_block := fblock ?A ?d ?k\<rparr>, fs1)"
        "fs_ok fs1" "superblock fs1 = superblock fs" "touched ?A ?d (abs_fs fs1) d1" by blast
    have step: "\<not> isize ?d \<le> it_iblock it * 512" using False size_passed [OF less.prems(2) small] by simp
    show ?thesis
    proof (cases "dlive ?A ?d ?k")
      case True
      let ?n = "de_inumber (dslot ?A ?d ?k)"
      have f: "next_live ?A ?d ?k = Some ?k" using True False by (simp add: next_live_rec)
      have live: "de_inumber (get_entry 0 (fblock ?A ?d ?k)) \<noteq> 0" using True by (simp add: dlive_def dslot_def)
      show ?thesis
      proof (cases w)
        case True
        with less.prems(5) kd \<open>dlive ?A ?d ?k\<close> 1(3) have v: "valid_ino (superblock fs1) ?n" by simp
        have "sfs_dir_iternext fs it w =
            Some (Some (0, Some (a_inode (abs_fs fs1) ?n)),
              it\<lparr>it_inode := d1, cached_block := fblock ?A ?d ?k, it_entry := 1\<rparr>, after_read fs1 ?n)"
          using True live v less.prems(3) step 1 sfs_fs_read_inode_ok [OF 1(2) v]
          by (subst sfs_dir_iternext.simps) (simp add: dslot_def)
        then show ?thesis using v 1 True f by (simp add: iter_result_def)
      next
        case False
        with live less.prems(3) step 1 have "sfs_dir_iternext fs it w =
            Some (Some (0, None), it\<lparr>it_inode := d1, cached_block := fblock ?A ?d ?k, it_entry := 1\<rparr>, fs1)"
          by (subst sfs_dir_iternext.simps) simp
        then show ?thesis using 1 False f by (simp add: iter_result_def)
      qed
    next
      case dead: False
      then have vac: "de_inumber (get_entry 0 (fblock ?A ?d ?k)) = 0" by (simp add: dlive_def dslot_def)
      let ?it = "it\<lparr>it_inode := d1, cached_block := fblock ?A ?d ?k, it_iblock := it_iblock it + 1, it_entry := 0\<rparr>"
      have k1: "unat (it_iblock ?it) = ?k + 1" using small by (simp add: unat_Suc_small)
      note t = touched_dir [OF 1(4)] touched_next_live [OF 1(4)]
      have "\<exists>r it' fs'. sfs_dir_iternext fs1 ?it w = Some (r, it', fs') \<and> fs_ok fs' \<and> superblock fs' = superblock fs1 \<and>
          iter_result (abs_fs fs1) (it_inode ?it) w (next_live (abs_fs fs1) (it_inode ?it) (unat (it_iblock ?it)))
            r it' (abs_fs fs')"
        using less.prems t k k1 1 touched_same(6) [OF 1(4)] by (intro less.hyps) (simp_all add: dlive_def)
      moreover have "sfs_dir_iternext fs it w = sfs_dir_iternext fs1 ?it w"
        using vac less.prems(3) step 1 by (subst sfs_dir_iternext.simps) simp
      moreover have "next_live ?A ?d ?k = next_live ?A ?d (?k + 1)"
        using dead False by (subst next_live_rec) simp
      ultimately show ?thesis
        using 1(3) k1 t(6) iter_result_touched [OF 1(4)] by auto
    qed
  qed
qed

text \<open>The position of an iterator: the first entry it has not passed.\<close>

definition iter_pos :: "dir_iterator \<Rightarrow> nat" where
  "iter_pos it = unat (it_iblock it) + it_entry it"

definition iter_ok :: "fs_abs \<Rightarrow> dir_iterator \<Rightarrow> bool" where
  "iter_ok A it \<longleftrightarrow> dir_ok A (it_inode it) \<and> it_entry it \<le> 1 \<and> unat (it_iblock it) \<le> 76 \<and>
     (it_entry it = 1 \<longrightarrow> unat (it_iblock it) < dsize (it_inode it))"

lemma iternext_ok:
  assumes "fs_ok fs" "iter_ok (abs_fs fs) it"
    and "w \<Longrightarrow> \<forall>k<dsize (it_inode it). dlive (abs_fs fs) (it_inode it) k \<longrightarrow>
      valid_ino (superblock fs) (de_inumber (dslot (abs_fs fs) (it_inode it) k))"
  shows "\<exists>r it' fs'. sfs_dir_iternext fs it w = Some (r, it', fs') \<and> fs_ok fs' \<and> superblock fs' = superblock fs \<and>
    iter_result (abs_fs fs) (it_inode it) w (next_live (abs_fs fs) (it_inode it) (iter_pos it)) r it' (abs_fs fs')"
proof (cases "it_entry it = 0")
  case True
  with assms show ?thesis using iternext_fresh [of fs it w] by (simp add: iter_ok_def iter_pos_def)
next
  case False
  let ?it = "it\<lparr>it_iblock := it_iblock it + 1, it_entry := 0\<rparr>"
  have d: "dir_ok (abs_fs fs) (it_inode it)" "it_entry it = 1" "unat (it_iblock it) < dsize (it_inode it)"
    using assms(2) False by (auto simp: iter_ok_def)
  then have k: "unat (it_iblock it) < 76" using dir_okD(7) by fastforce
  then have k1: "unat (it_iblock ?it) = unat (it_iblock it) + 1" by (simp add: unat_Suc_small)
  have "\<not> isize (it_inode it) \<le> it_iblock it * 512" using size_passed [OF d(1)] d(3) k by simp
  then have "sfs_dir_iternext fs it w = sfs_dir_iternext fs ?it w"
    using d by (subst sfs_dir_iternext.simps) (simp add: iter_load_def)
  moreover have "\<exists>r it' fs'. sfs_dir_iternext fs ?it w = Some (r, it', fs') \<and> fs_ok fs' \<and> superblock fs' = superblock fs \<and>
    iter_result (abs_fs fs) (it_inode ?it) w (next_live (abs_fs fs) (it_inode ?it) (unat (it_iblock ?it))) r it' (abs_fs fs')"
    using assms d k k1 by (intro iternext_fresh) simp_all
  ultimately show ?thesis using k1 d(2) by (simp add: iter_pos_def)
qed

lemma next_live_Some: "next_live A d k = Some j \<Longrightarrow> k \<le> j \<and> j < dsize d \<and> dlive A d j \<and> (\<forall>i. k \<le> i \<and> i < j \<longrightarrow> \<not> dlive A d i)"
  using find_upt_Some [of "dlive A d" k "dsize d" j] by (auto simp: next_live_def)

lemma next_live_None: "next_live A d k = None \<longleftrightarrow> (\<forall>i. k \<le> i \<and> i < dsize d \<longrightarrow> \<not> dlive A d i)"
  by (auto simp: next_live_def find_upt_None)

text \<open>The iterator can go on after it has returned an entry.\<close>

lemma iter_result_ok:
  assumes "iter_ok A it" "iter_result A (it_inode it) w (next_live A (it_inode it) (iter_pos it)) r it' A'" "r \<noteq> None"
  shows "iter_ok A' it'" "iter_pos it' = Suc (unat (it_iblock it'))"
    "next_live A (it_inode it) (iter_pos it) = Some (unat (it_iblock it'))"
proof -
  let ?f = "next_live A (it_inode it) (iter_pos it)"
  from assms(2,3) obtain k where k: "?f = Some k" "it_entry it' = 1" "unat (it_iblock it') = k"
    by (auto simp: iter_result_def split: option.splits)
  have t: "touched A (it_inode it) A' (it_inode it')" using assms(2) by (simp add: iter_result_def)
  have d: "dir_ok A (it_inode it)" using assms(1) by (simp add: iter_ok_def)
  have "k < dsize (it_inode it')" using next_live_Some [OF k(1)] touched_same(6) [OF t] by simp
  moreover have "dir_ok A' (it_inode it')" using touched_dir(4) [OF t d] .
  ultimately show "iter_ok A' it'" using k dir_okD(7) [of A' "it_inode it'"] by (simp add: iter_ok_def)
  show "iter_pos it' = Suc (unat (it_iblock it'))" "?f = Some (unat (it_iblock it'))"
    using k by (simp_all add: iter_pos_def)
qed

subsection \<open>Linking\<close>

text \<open>What it means that entry \<open>k\<close> of directory \<open>d\<close> now names inode \<open>i\<close>.\<close>

definition linked ::
  "fs_abs \<Rightarrow> sfs_fs_inode \<Rightarrow> sfs_fs_inode \<Rightarrow> nat \<Rightarrow> bytes \<Rightarrow> fs_abs \<Rightarrow> sfs_fs_inode \<Rightarrow> sfs_fs_inode \<Rightarrow> bool" where
  "linked A d i k nm A' d' i' \<longleftrightarrow>
     dir_ok A' d' \<and> inumber d' = inumber d \<and> dsize d' = max (dsize d) (Suc k) \<and>
     dslot A' d' k = \<lparr>de_inumber = inumber i, de_name = strncpy 256 nm\<rparr> \<and>
     (\<forall>j<76. j \<noteq> k \<longrightarrow> dslot A' d' j = dslot A d j) \<and>
     (\<exists>t. i' = i\<lparr>links := links i + 1, change_time := t\<rparr>) \<and> a_inode A' (inumber i) = i' \<and>
     (\<forall>n. n \<noteq> inumber d \<and> n \<noteq> inumber i \<longrightarrow> a_inode A' n = a_inode A n) \<and>
     (\<forall>b. b \<notin> free_blocks A \<and> b \<notin> set (iptrs A d) \<longrightarrow> a_block A' b = a_block A b) \<and>
     free_blocks A' \<subseteq> free_blocks A \<and> set (iptrs A' d') = set (iptrs A d) \<union> (free_blocks A - free_blocks A')"

definition entry_block :: "u64 \<Rightarrow> bytes \<Rightarrow> bytes \<Rightarrow> bytes" where
  "entry_block n nm block = put_entry_name 0 (strncpy 256 nm) (put_entry_inumber 0 n block)"

lemma entry_block:
  assumes "length block = BLOCK_SIZE"
  shows "length (entry_block n nm block) = BLOCK_SIZE"
    "get_entry 0 (entry_block n nm block) = \<lparr>de_inumber = n, de_name = strncpy 256 nm\<rparr>"
  using assms by (simp_all add: entry_block_def get_put_entry)

lemma iptrs_cong: "a_block A' = a_block A \<Longrightarrow> block_pointers d' = block_pointers d \<Longrightarrow> iptrs A' d' = iptrs A d"
  by (simp add: iptrs_def fptr_cong [of A' A d' d])

lemma file_written_same:
  assumes "file_written A d k v A1 d1"
  shows "inumber d1 = inumber d" "wf_inode d1" "isize d1 = isize d" "mode d1 = mode d" "links d1 = links d"
proof -
  have e: "d1 = d\<lparr>block_pointers := block_pointers d1, change_time := change_time d1\<rparr>" using assms by (simp add: file_written_def)
  show "inumber d1 = inumber d" "isize d1 = isize d" "mode d1 = mode d" "links d1 = links d"
    by (subst e, simp)+
  show "wf_inode d1" using assms by (simp add: file_written_def inode_ok_def)
qed

lemma linkedI:
  assumes d: "dir_ok A d" and k: "k < 76" and w: "file_written A d k v A1 d1"
    and v: "get_entry 0 v = \<lparr>de_inumber = inumber i, de_name = strncpy 256 nm\<rparr>"
    and i: "inumber i \<noteq> inumber d" "i' = i\<lparr>links := links i + 1, change_time := t\<rparr>"
    and d': "d' = d1\<lparr>isize := sz, modified_time := t'\<rparr>" "unat sz = BLOCK_SIZE * max (dsize d) (Suc k)"
    and A': "A' = A1\<lparr>a_inode := (a_inode A1)(inumber d := d', inumber i := i')\<rparr>"
    and g: "valid_ino (a_super A1) = valid_ino (a_super A)"
  shows "linked A d i k nm A' d' i'"
proof -
  note d1 = file_written_same [OF w]
  have w': "fblock A1 d1 k = v" "\<And>j. j < 76 \<Longrightarrow> j \<noteq> k \<Longrightarrow> fblock A1 d1 j = fblock A d j" "inode_ok A1 d1"
    "\<And>n. n \<noteq> inumber d \<Longrightarrow> a_inode A1 n = a_inode A n"
    "\<And>b. b \<notin> free_blocks A \<Longrightarrow> b \<notin> set (iptrs A d) \<Longrightarrow> a_block A1 b = a_block A b"
    "free_blocks A1 \<subseteq> free_blocks A" "set (iptrs A1 d1) = set (iptrs A d) \<union> (free_blocks A - free_blocks A1)"
    using w unfolding file_written_def by blast+
  have bp: "block_pointers d' = block_pointers d1" "a_block A' = a_block A1" "a_super A' = a_super A1"
    "inumber d' = inumber d" "mode d' = mode d"
    using d' A' d1 by simp_all
  have f: "fblock A' d' = fblock A1 d1" "free_blocks A' = free_blocks A1" "iptrs A' d' = iptrs A1 d1"
    "inode_ok A' d' = inode_ok A1 d1"
    using bp by (intro fblock_cong free_blocks_cong iptrs_cong inode_ok_cong; simp)+
  have sz: "dsize d' = max (dsize d) (Suc k)" "BLOCK_SIZE dvd unat (isize d')" using d' by (simp_all add: dsize_def)
  have "a_inode A' (inumber d) = d'" using A' i(1) by simp
  then have "dir_ok A' d'"
    using dir_okD [OF d] w'(3) f(4) sz bp g k unfolding dir_ok_def by simp
  moreover have "dslot A' d' k = get_entry 0 v" "\<forall>j<76. j \<noteq> k \<longrightarrow> dslot A' d' j = dslot A d j"
    using w'(1,2) f(1) by (simp_all add: dslot_def)
  moreover have "a_inode A' (inumber i) = i'" "\<forall>n. n \<noteq> inumber d \<and> n \<noteq> inumber i \<longrightarrow> a_inode A' n = a_inode A n"
    using A' w'(4) by simp_all
  ultimately show ?thesis
    unfolding linked_def using w'(5-7) f(2,3) i(2) v bp(2,4) sz(1) by metis
qed

lemma length_fblock [sfs_len]: "fs_ok fs \<Longrightarrow> inode_ok (abs_fs fs) d \<Longrightarrow> length (fblock (abs_fs fs) d k) = BLOCK_SIZE"
  using inode_okD(3) [of "abs_fs fs" d k] by (simp add: fblock_def)

text \<open>
  Conditions under which a block of a file can be written: there is space, and the index exists or the next free block,
  which will be the index, holds zeros.
\<close>

definition index_ready :: "fs_abs \<Rightarrow> bool" where
  "index_ready A \<longleftrightarrow> a_block A (next_block A) = zero_block \<and> 2 \<le> card (free_blocks A)"

definition writable :: "fs_abs \<Rightarrow> sfs_fs_inode \<Rightarrow> nat \<Rightarrow> bool" where
  "writable A i k \<longleftrightarrow> k < 76 \<and> (12 \<le> k \<and> block_pointers i ! 12 = 0 \<longrightarrow> index_ready A) \<and> (fptr A i k = 0 \<longrightarrow> free_blocks A \<noteq> {})"

lemma index_ready_cong:
  assumes "a_block A' = a_block A" "free_blocks_head (a_super A') = free_blocks_head (a_super A)"
  shows "index_ready A' = index_ready A"
  unfolding index_ready_def next_block_def Let_def assms free_blocks_cong [OF assms] ..

lemma write_block_ok:
  assumes "alloc_ok fs" "inode_ok (abs_fs fs) i" "valid_ino (superblock fs) (inumber i)"
    and "writable (abs_fs fs) i (unat iblock)" "length v = BLOCK_SIZE"
  obtains i' fs' where "sfs_fs_inode_block_write fs i iblock v = Some (0, i', fs')" "alloc_ok fs'" "head_moved fs fs'"
    "file_written (abs_fs fs) i (unat iblock) v (abs_fs fs') i'"
  using inode_block_write_ok [OF assms(1,2) _ assms(3,5)] assms(4) unfolding writable_def index_ready_def by blast

text \<open>Two inodes written one after the other, at different times.\<close>

lemma two_writes:
  assumes al: "alloc_ok fs" and i: "valid_ino (superblock fs) (inumber i)" "wf_inode i"
    and j: "valid_ino (superblock fs) (inumber j)" "wf_inode j"
  shows "sfs_fs_write_inode fs i = Some (0, after_write fs i)"
    "sfs_fs_write_inode (after_write fs i) j = Some (0, after_write (after_write fs i) j)"
    "sfs_fs_write_inode (tick (after_write fs i)) j = Some (0, after_write (tick (after_write fs i)) j)"
    "alloc_ok (after_write (after_write fs i) j)" "alloc_ok (after_write (tick (after_write fs i)) j)"
    "abs_fs (after_write (after_write fs i) j) =
       (abs_fs fs)\<lparr>a_inode := (a_inode (abs_fs fs))(inumber i := i, inumber j := j)\<rparr>"
    "abs_fs (after_write (tick (after_write fs i)) j) =
       (abs_fs fs)\<lparr>a_inode := (a_inode (abs_fs fs))(inumber i := i, inumber j := j)\<rparr>"
    "superblock (after_write (after_write fs i) j) = superblock fs"
    "superblock (after_write (tick (after_write fs i)) j) = superblock fs"
proof -
  have fs: "fs_ok fs" by (rule alloc_ok_fs [OF al])
  note 1 = after_write_abs [OF fs i] after_write_alloc [OF al i]
  have 2: "alloc_ok (tick (after_write fs i))" "valid_ino (superblock (after_write fs i)) (inumber j)"
    "valid_ino (superblock (tick (after_write fs i))) (inumber j)" "fs_ok (tick (after_write fs i))"
    using 1 j by simp_all
  note 3 = after_write_abs [OF 1(2) 2(2) j(2)] after_write_abs [OF 2(4,3) j(2)]
    after_write_alloc [OF 1(4) 2(2) j(2)] after_write_alloc [OF 2(1,3) j(2)]
  show "sfs_fs_write_inode fs i = Some (0, after_write fs i)" by (rule sfs_fs_write_inode_ok [OF fs i(1)])
  show "sfs_fs_write_inode (after_write fs i) j = Some (0, after_write (after_write fs i) j)"
    "sfs_fs_write_inode (tick (after_write fs i)) j = Some (0, after_write (tick (after_write fs i)) j)"
    by (rule sfs_fs_write_inode_ok [OF 1(2) 2(2)], rule sfs_fs_write_inode_ok [OF 2(4,3)])
  show "alloc_ok (after_write (after_write fs i) j)" "alloc_ok (after_write (tick (after_write fs i)) j)"
    "superblock (after_write (after_write fs i) j) = superblock fs"
    "superblock (after_write (tick (after_write fs i)) j) = superblock fs"
    "abs_fs (after_write (after_write fs i) j) =
       (abs_fs fs)\<lparr>a_inode := (a_inode (abs_fs fs))(inumber i := i, inumber j := j)\<rparr>"
    "abs_fs (after_write (tick (after_write fs i)) j) =
       (abs_fs fs)\<lparr>a_inode := (a_inode (abs_fs fs))(inumber i := i, inumber j := j)\<rparr>"
    using 1 3 by simp_all
qed

lemma head_moved_valid: "head_moved fs fs' \<Longrightarrow> valid_ino (superblock fs') = valid_ino (superblock fs)"
  by (auto simp: head_moved_def)

lemma link_at_ok:
  assumes al: "alloc_ok fs" and d: "dir_ok (abs_fs fs) d" and k: "unat iblock < dsize d"
    and i: "valid_ino (superblock fs) (inumber i)" "wf_inode i" "inumber i \<noteq> inumber d"
    and w: "writable (abs_fs fs) d (unat iblock)"
  shows "\<exists>d' i' fs'. link_at fs d nm i iblock (fblock (abs_fs fs) d (unat iblock)) 0 = Some (0, d', i', fs') \<and>
    alloc_ok fs' \<and> head_moved fs fs' \<and> linked (abs_fs fs) d i (unat iblock) nm (abs_fs fs') d' i'"
proof -
  let ?v = "entry_block (inumber i) nm (fblock (abs_fs fs) d (unat iblock))"
  note d0 = dir_okD [OF d]
  have v: "length ?v = BLOCK_SIZE" "get_entry 0 ?v = \<lparr>de_inumber = inumber i, de_name = strncpy 256 nm\<rparr>"
    by (rule entry_block, rule length_fblock [OF alloc_ok_fs [OF al] d0(1)])+
  obtain d1 fs1 where 1: "sfs_fs_inode_block_write fs d iblock ?v = Some (0, d1, fs1)" "alloc_ok fs1" "head_moved fs fs1"
    "file_written (abs_fs fs) d (unat iblock) ?v (abs_fs fs1) d1"
    by (rule write_block_ok [OF al d0(1) _ w v(1)]) (use d0 in simp_all)
  note f = file_written_same [OF 1(4)] and g = head_moved_valid [OF 1(3)]
  let ?t = "fs_now fs1"
  let ?i = "i\<lparr>links := links i + 1, change_time := ?t\<rparr>" and ?d = "d1\<lparr>modified_time := ?t\<rparr>"
  have p: "alloc_ok (tick fs1)" "valid_ino (superblock (tick fs1)) (inumber ?d)" "wf_inode ?d"
    "valid_ino (superblock (tick fs1)) (inumber ?i)" "wf_inode ?i"
    using 1(2) i d0(2) f g by simp_all
  note tw = two_writes [OF p]
  have "link_at fs d nm i iblock (fblock (abs_fs fs) d (unat iblock)) 0 =
      Some (0, ?d, ?i, after_write (after_write (tick fs1) ?d) ?i)"
    using 1(1) tw by (simp add: link_at_def entry_block_def Let_def disk_access)
  moreover have "linked (abs_fs fs) d i (unat iblock) nm (abs_fs (after_write (after_write (tick fs1) ?d) ?i)) ?d ?i"
  proof (rule linkedI [OF d _ 1(4) v(2) i(3)])
    show "?d = d1\<lparr>isize := isize d, modified_time := ?t\<rparr>" using f(3) by simp
    show "abs_fs (after_write (after_write (tick fs1) ?d) ?i) =
        (abs_fs fs1)\<lparr>a_inode := (a_inode (abs_fs fs1))(inumber d := ?d, inumber i := ?i)\<rparr>"
      using tw(6) f(1) by simp
  qed (use k d0 g in \<open>simp_all add: max_def\<close>)
  moreover have "head_moved fs (after_write (after_write (tick fs1) ?d) ?i)"
    using 1(3) tw(8) by (simp add: head_moved_def)
  ultimately show ?thesis using tw(4) by blast
qed

lemma link_append_ok:
  assumes al: "alloc_ok fs" and d: "dir_ok (abs_fs fs) d" and k: "dsize d < 76"
    and i: "valid_ino (superblock fs) (inumber i)" "wf_inode i" "inumber i \<noteq> inumber d"
    and w: "writable (abs_fs fs) d (dsize d)"
  shows "\<exists>d' i' fs'. link_append fs d nm i = Some (0, d', i', fs') \<and>
    alloc_ok fs' \<and> head_moved fs fs' \<and> linked (abs_fs fs) d i (dsize d) nm (abs_fs fs') d' i'"
proof -
  let ?v = "entry_block (inumber i) nm zero_block" and ?b = "isize d div 512"
  note d0 = dir_okD [OF d]
  have b: "unat ?b = dsize d" by (simp add: unat_div dsize_def)
  have v: "length ?v = BLOCK_SIZE" "get_entry 0 ?v = \<lparr>de_inumber = inumber i, de_name = strncpy 256 nm\<rparr>"
    by (rule entry_block, simp)+
  obtain d1 fs1 where 1: "sfs_fs_inode_block_write fs d ?b ?v = Some (0, d1, fs1)" "alloc_ok fs1" "head_moved fs fs1"
    "file_written (abs_fs fs) d (dsize d) ?v (abs_fs fs1) d1"
    by (rule write_block_ok [OF al d0(1) _ _ v(1), of ?b]) (use d0 w b in simp_all)
  note f = file_written_same [OF 1(4)] and g = head_moved_valid [OF 1(3)]
  let ?d = "d1\<lparr>isize := isize d1 + 512, modified_time := fs_now fs1\<rparr>"
  let ?fs2 = "after_write (tick fs1) ?d"
  let ?i = "i\<lparr>links := links i + 1, change_time := fs_now ?fs2\<rparr>"
  have p: "alloc_ok (tick fs1)" "valid_ino (superblock (tick fs1)) (inumber ?d)" "wf_inode ?d"
    "valid_ino (superblock (tick fs1)) (inumber ?i)" "wf_inode ?i"
    using 1(2) i d0(2) f g by simp_all
  note tw = two_writes [OF p]
  have "link_append fs d nm i = Some (0, ?d, ?i, after_write (tick ?fs2) ?i)"
    using 1(1) tw by (simp add: link_append_def entry_block_def Let_def disk_access)
  moreover have "unat (isize d + 512) = BLOCK_SIZE * Suc (dsize d)"
    using d0(6) k by (subst unat_plus_no_overflow) simp_all
  then have "linked (abs_fs fs) d i (dsize d) nm (abs_fs (after_write (tick ?fs2) ?i)) ?d ?i"
    using k f g tw(7) by (intro linkedI [OF d _ 1(4) v(2) i(3)]) (simp_all add: max_def)
  moreover have "head_moved fs (after_write (tick ?fs2) ?i)"
    using 1(3) tw(9) by (simp add: head_moved_def)
  ultimately show ?thesis using tw(5) by blast
qed

definition vacant_from :: "fs_abs \<Rightarrow> sfs_fs_inode \<Rightarrow> nat \<Rightarrow> nat" where
  "vacant_from A d j = (case List.find (\<lambda>k. \<not> dlive A d k) [j..<dsize d] of Some k \<Rightarrow> k | None \<Rightarrow> dsize d)"

lemma vacant_from_rec:
  "vacant_from A d j = (if j < dsize d \<and> dlive A d j then vacant_from A d (Suc j) else if j < dsize d then j else dsize d)"
  by (auto simp: vacant_from_def upt_conv_Cons)

lemma alloc_ok_same: "alloc_ok fs \<Longrightarrow> fs_ok fs' \<Longrightarrow> abs_fs fs' = abs_fs fs \<Longrightarrow> alloc_ok fs'"
  by (simp add: alloc_ok_def)

lemma link_scan_ok:
  assumes "alloc_ok fs" "dir_ok (abs_fs fs) d" "j \<le> dsize d"
    and "valid_ino (superblock fs) (inumber i)" "wf_inode i" "inumber i \<noteq> inumber d"
    and "writable (abs_fs fs) d (vacant_from (abs_fs fs) d j)"
  shows "\<exists>d' i' fs'. link_scan fs d nm i (map of_nat [j..<dsize d]) = Some (0, d', i', fs') \<and>
    alloc_ok fs' \<and> head_moved fs fs' \<and> linked (abs_fs fs) d i (vacant_from (abs_fs fs) d j) nm (abs_fs fs') d' i'"
  using assms
proof (induction "dsize d - j" arbitrary: fs j)
  case 0
  then have "j = dsize d" by simp
  moreover have "vacant_from (abs_fs fs) d (dsize d) = dsize d" by (simp add: vacant_from_rec)
  ultimately show ?case using 0 link_append_ok [of fs d i nm] by (auto simp: writable_def)
next
  case (Suc m)
  let ?A = "abs_fs fs" and ?b = "of_nat j :: u64"
  have j: "j < dsize d" using Suc.hyps(2) by simp
  note d0 = dir_okD [OF Suc.prems(2)]
  have b: "unat ?b = j" using j d0(7) by (simp add: unat_of_nat_u64)
  have fs: "fs_ok fs" by (rule alloc_ok_fs [OF Suc.prems(1)])
  from inode_block_read_ok [OF fs d0(1), of ?b] obtain fs1 where 1:
    "sfs_fs_inode_block_read fs d ?b = (Some (fblock ?A d j), fs1)" "fs_ok fs1" "abs_fs fs1 = ?A"
    "superblock fs1 = superblock fs"
    using j d0(7) b by auto
  have al1: "alloc_ok fs1" by (rule alloc_ok_same [OF Suc.prems(1) 1(2,3)])
  have upt: "[j..<dsize d] = j # [Suc j..<dsize d]" using j by (rule upt_conv_Cons)
  show ?case
  proof (cases "dlive ?A d j")
    case True
    then have "link_scan fs d nm i (map of_nat [j..<dsize d]) = link_scan fs1 d nm i (map of_nat [Suc j..<dsize d])"
      using 1(1) by (simp add: upt dlive_def dslot_def)
    moreover have "vacant_from ?A d j = vacant_from ?A d (Suc j)" using True j by (subst vacant_from_rec) simp
    ultimately show ?thesis
      using Suc.hyps(1) [of "Suc j" fs1] Suc.hyps(2) Suc.prems al1 1 j by (simp add: head_moved_def)
  next
    case False
    then have "link_scan fs d nm i (map of_nat [j..<dsize d]) = link_at fs1 d nm i ?b (fblock ?A d j) 0"
      using 1(1) by (simp add: upt dlive_def dslot_def)
    moreover have "vacant_from ?A d j = j" using False j by (subst vacant_from_rec) simp
    ultimately show ?thesis
      using link_at_ok [of fs1 d ?b i nm] Suc.prems al1 1 j b by (simp add: head_moved_def)
  qed
qed

lemma dir_link_ok:
  assumes al: "alloc_ok fs" and d: "dir_ok (abs_fs fs) d"
    and i: "valid_ino (superblock fs) (inumber i)" "wf_inode i" "inumber i \<noteq> inumber d"
    and nm: "length nm \<le> 255" and w: "writable (abs_fs fs) d (vacant_from (abs_fs fs) d 0)"
  shows "\<exists>d' i' fs'. sfs_dir_link fs d nm i = Some (0, d', i', fs') \<and>
    alloc_ok fs' \<and> head_moved fs fs' \<and> linked (abs_fs fs) d i (vacant_from (abs_fs fs) d 0) nm (abs_fs fs') d' i'"
proof -
  have "unat (isize d div 512) = dsize d" by (simp add: unat_div dsize_def)
  then have "sfs_dir_link fs d nm i = link_scan fs d nm i (map of_nat [0..<dsize d])"
    using nm by (simp add: sfs_dir_link_def)
  then show ?thesis using link_scan_ok [OF al d _ i w] by simp
qed

end
