(* ===== verification/Dir_Unlink.thy ===== *)
theory Dir_Unlink
  imports Directory
begin

text \<open>
  Unlinking an entry, \<^verbatim>\<open>sfs_dir_iter_unlink\<close> of \<^verbatim>\<open>src/src/dir.c\<close>, and the step it shares with the
  release of an open file: a link of an inode is dropped, and the inode deallocated with its last
  link.
\<close>

subsection \<open>Frame lemmas\<close>

text \<open>A file keeps its contents as long as its blocks are kept and stay off the free list.\<close>

lemma file_frame:
  assumes d: "inode_ok A d"
    and same: "\<And>b. b \<in> set (iptrs A d) \<Longrightarrow> a_block A' b = a_block A b \<and> b \<notin> free_blocks A'"
    and g: "valid_block (a_super A') = valid_block (a_super A)"
  shows "fptr A' d = fptr A d" "iptrs A' d = iptrs A d" "inode_ok A' d" "fblock A' d = fblock A d"
proof -
  show p: "fptr A' d = fptr A d"
  proof
    fix k
    have "block_pointers d ! 12 \<noteq> 0 \<Longrightarrow> block_pointers d ! 12 \<in> set (iptrs A d)" by (simp add: iptrs_def)
    then show "fptr A' d k = fptr A d k" using same by (simp add: fptr_def)
  qed
  then show i: "iptrs A' d = iptrs A d" by (simp add: iptrs_def)
  show "inode_ok A' d" using d same g by (simp add: inode_ok_def i)
  have "fptr A d k \<noteq> 0 \<Longrightarrow> fptr A d k \<in> set (iptrs A d)" for k by (auto simp: set_iptrs)
  then show "fblock A' d = fblock A d" using same p by (simp add: fblock_def fun_eq_iff)
qed

lemma inode_alloc_keep:
  assumes ok: "inode_alloc_ok fs" and al: "alloc_ok fs'" and h: "head_moved fs fs'"
    and same: "\<And>n. n \<in> free_inodes (abs_fs fs) \<Longrightarrow> a_inode (abs_fs fs') n = a_inode (abs_fs fs) n"
  shows "inode_alloc_ok fs'" "free_inodes (abs_fs fs') = free_inodes (abs_fs fs)"
proof -
  from ok obtain ns e where rep: "inodes_rep (abs_fs fs) ns e" by (auto simp: inode_alloc_ok_def)
  have "inodes_rep (abs_fs fs') ns e"
    using h same free_inodes_rep [OF rep] by (intro inodes_rep_cong [OF rep]) (auto simp: head_moved_def)
  then show "inode_alloc_ok fs'" "free_inodes (abs_fs fs') = free_inodes (abs_fs fs)"
    using al free_inodes_rep [OF rep] free_inodes_rep by (auto simp: inode_alloc_ok_def)
qed

lemma inode_alloc_okD: "inode_alloc_ok fs \<Longrightarrow> alloc_ok fs" "inode_alloc_ok fs \<Longrightarrow> fs_ok fs"
  by (simp_all add: inode_alloc_ok_def alloc_ok_def)

lemma inode_alloc_ok_tick [simp]: "inode_alloc_ok (tick fs) = inode_alloc_ok fs" "inode_alloc_ok (seen fs) = inode_alloc_ok fs"
  by (simp_all add: inode_alloc_ok_def)

lemma after_write_inode_alloc:
  assumes "inode_alloc_ok fs" "valid_ino (superblock fs) (inumber i)" "wf_inode i" "inumber i \<notin> free_inodes (abs_fs fs)"
  shows "inode_alloc_ok (after_write fs i)" "free_inodes (abs_fs (after_write fs i)) = free_inodes (abs_fs fs)"
proof -
  note f = inode_alloc_okD [OF assms(1)]
  note aw = after_write_abs [OF f(2) assms(2,3)] after_write_alloc [OF f(1) assms(2,3)]
  have h: "head_moved fs (after_write fs i)"
    using aw(3) by (auto simp: head_moved_def intro: exI [of _ "free_blocks_head (superblock fs)"])
  show "inode_alloc_ok (after_write fs i)" "free_inodes (abs_fs (after_write fs i)) = free_inodes (abs_fs fs)"
    by (rule inode_alloc_keep [OF assms(1) aw(4) h]; use aw(1) assms(4) in auto)+
qed

subsection \<open>Dropping a link\<close>

definition direct_blocks :: "sfs_fs_inode \<Rightarrow> u64 set" where
  "direct_blocks i = set (take 12 (block_pointers i)) - {0}"

text \<open>What becomes of the inode \<open>i\<close>, already updated, when it is written back or deallocated.\<close>

definition dropped :: "fs_abs \<Rightarrow> sfs_fs_inode \<Rightarrow> fs_abs \<Rightarrow> bool" where
  "dropped A i A' \<longleftrightarrow>
     (\<forall>m. m \<noteq> inumber i \<longrightarrow> a_inode A' m = a_inode A m) \<and> (links i \<noteq> 0 \<longrightarrow> a_inode A' (inumber i) = i) \<and>
     free_inodes A' = (if links i = 0 then insert (inumber i) (free_inodes A) else free_inodes A) \<and>
     free_blocks A' = (if links i = 0 then free_blocks A \<union> direct_blocks i else free_blocks A) \<and>
     (\<forall>c. c \<notin> free_blocks A' \<longrightarrow> a_block A' c = a_block A c) \<and> same_geometry (a_super A) (a_super A')"

lemma direct_pointers:
  assumes "inode_ok A i"
  shows "distinct (filter (\<lambda>p. p \<noteq> 0) (take 12 (block_pointers i)))" "direct_blocks i \<subseteq> set (iptrs A i)"
    "p \<in> set (take 12 (block_pointers i)) \<Longrightarrow> p \<noteq> 0 \<Longrightarrow> valid_block (a_super A) p \<and> p \<notin> free_blocks A"
proof -
  note ok = inode_okD [OF assms]
  have t: "take 12 (block_pointers i) = map (fptr A i) [0..<12]"
    using ok(2) by (intro nth_equalityI) (simp_all add: fptr_def)
  have "[0..<76] = [0..<12] @ [12..<76]" by (simp add: upt_add_eq_append [of 0 12 64, simplified])
  then have f: "filter (\<lambda>p. p \<noteq> 0) (map (fptr A i) [0..<76]) =
      filter (\<lambda>p. p \<noteq> 0) (take 12 (block_pointers i)) @ filter (\<lambda>p. p \<noteq> 0) (map (fptr A i) [12..<76])"
    by (simp add: t)
  have "distinct (filter (\<lambda>p. p \<noteq> 0) (map (fptr A i) [0..<76]))"
    using assms by (auto simp: inode_ok_def iptrs_def split: if_splits)
  then show "distinct (filter (\<lambda>p. p \<noteq> 0) (take 12 (block_pointers i)))" unfolding f by simp
  show s: "direct_blocks i \<subseteq> set (iptrs A i)"
    unfolding direct_blocks_def t set_iptrs by auto
  show "p \<in> set (take 12 (block_pointers i)) \<Longrightarrow> p \<noteq> 0 \<Longrightarrow> valid_block (a_super A) p \<and> p \<notin> free_blocks A"
    using s assms unfolding inode_ok_def direct_blocks_def by blast
qed

lemma drop_link_ok:
  assumes ok: "inode_alloc_ok fs" and i: "inode_ok (abs_fs fs) i" "valid_ino (superblock fs) (inumber i)"
    "inumber i \<notin> free_inodes (abs_fs fs)"
  shows "\<exists>fs'. drop_link fs i = Some (0, fs') \<and> inode_alloc_ok fs' \<and> dropped (abs_fs fs) i (abs_fs fs')"
proof (cases "links i = 0")
  case True
  have "\<exists>fs'. sfs_fs_inode_deallocate fs i = Some (0, fs') \<and> inode_alloc_ok fs' \<and>
    free_inodes (abs_fs fs') = insert (inumber i) (free_inodes (abs_fs fs)) \<and>
    free_blocks (abs_fs fs') = free_blocks (abs_fs fs) \<union> (set (take 12 (block_pointers i)) - {0}) \<and>
    (\<forall>n. n \<noteq> inumber i \<longrightarrow> a_inode (abs_fs fs') n = a_inode (abs_fs fs) n) \<and>
    (\<forall>c. c \<notin> free_blocks (abs_fs fs') \<longrightarrow> a_block (abs_fs fs') c = a_block (abs_fs fs) c) \<and>
    same_geometry (superblock fs) (superblock fs')"
    using direct_pointers(3) [OF i(1)]
    by (intro inode_deallocate_ok [OF ok inode_okD(1) [OF i(1)] i(2,3) direct_pointers(1) [OF i(1)]]) auto
  then show ?thesis using True by (auto simp: drop_link_def dropped_def direct_blocks_def)
next
  case False
  note f = inode_alloc_okD [OF ok]
  have wf: "wf_inode i" by (rule inode_okD [OF i(1)])
  note aw = after_write_abs [OF f(2) i(2) wf] after_write_inode_alloc [OF ok i(2) wf i(3)]
  have "drop_link fs i = Some (0, after_write fs i)"
    using False f i by (simp add: drop_link_def sfs_fs_write_inode_ok)
  moreover have "dropped (abs_fs fs) i (abs_fs (after_write fs i))"
    using False aw(5) by (simp add: dropped_def aw(1))
  ultimately show ?thesis using aw(4) by blast
qed

subsection \<open>Clearing an entry\<close>

definition clear_entry :: "bytes \<Rightarrow> bytes" where
  "clear_entry block = put_entry_inumber 0 0 block"

lemma clear_entry:
  assumes "length block = BLOCK_SIZE"
  shows "length (clear_entry block) = BLOCK_SIZE"
    "get_entry 0 (clear_entry block) = (get_entry 0 block)\<lparr>de_inumber := 0\<rparr>"
  using assms by (simp_all add: clear_entry_def get_put_entry)

lemma live_allocated: "dlive A d k \<Longrightarrow> fptr A d k \<noteq> 0"
  by (auto simp: dlive_def dslot_def fblock_def)

text \<open>The directory \<open>d\<close> with its time and its block \<open>k\<close> rewritten, the rest untouched.\<close>

lemma rewrite_entry_ok:
  assumes ok: "inode_alloc_ok fs" and d: "inode_ok (abs_fs fs) d" "valid_ino (superblock fs) (inumber d)"
    "inumber d \<notin> free_inodes (abs_fs fs)" and d': "d' = d\<lparr>modified_time := t\<rparr>"
    and k: "unat iblock < 76" "fptr (abs_fs fs) d (unat iblock) \<noteq> 0" and v: "length v = BLOCK_SIZE"
  shows "\<exists>fs'. sfs_fs_write_inode fs d' = Some (0, after_write fs d') \<and>
    sfs_fs_inode_block_write (after_write fs d') d' iblock v = Some (0, d', fs') \<and> inode_alloc_ok fs' \<and>
    abs_fs fs' = (abs_fs fs)\<lparr>a_inode := (a_inode (abs_fs fs))(inumber d := d'),
      a_block := (a_block (abs_fs fs))(fptr (abs_fs fs) d (unat iblock) := v)\<rparr> \<and>
    free_inodes (abs_fs fs') = free_inodes (abs_fs fs) \<and> free_blocks (abs_fs fs') = free_blocks (abs_fs fs)"
proof -
  let ?p = "fptr (abs_fs fs) d (unat iblock)"
  note f = inode_alloc_okD [OF ok]
  have d0: "valid_ino (superblock fs) (inumber d')" "wf_inode d'" "inumber d' \<notin> free_inodes (abs_fs fs)"
    "inumber d' = inumber d" "block_pointers d' = block_pointers d"
    using d d' inode_okD(1) [OF d(1)] by simp_all
  let ?fs1 = "after_write fs d'"
  note aw = after_write_abs [OF f(2) d0(1,2)] after_write_inode_alloc [OF ok d0(1-3)]
  have e: "fptr (abs_fs ?fs1) d' = fptr (abs_fs fs) d" "inode_ok (abs_fs ?fs1) d'"
    using aw(1) d0 d(1) fptr_cong [of "abs_fs ?fs1" "abs_fs fs" d' d] inode_ok_cong [of "abs_fs ?fs1" "abs_fs fs" d' d]
    by simp_all
  obtain fs2 where 2: "fs2 = ?fs1 \<or> fs2 = seen ?fs1"
    "sfs_fs_inode_block_write ?fs1 d' iblock v = Some (0, d', put_block fs2 ?p v)"
    using inode_block_overwrite [OF inode_alloc_okD(1) [OF aw(4)] e(2) k(1) v] k(2) e(1) by metis
  have p: "valid_block (superblock fs) ?p" "?p \<notin> free_blocks (abs_fs fs)" using inode_okD(3) [OF d(1) k(2)] by simp_all
  have 3: "inode_alloc_ok fs2" "superblock fs2 = superblock fs" "abs_fs fs2 = abs_fs ?fs1" "fs_ok fs2"
    "free_blocks (abs_fs fs2) = free_blocks (abs_fs fs)"
    using 2(1) aw inode_alloc_okD by auto
  note pb = put_block_off [OF inode_alloc_okD(1) [OF 3(1)], of ?p v]
  have 4: "alloc_ok (put_block fs2 ?p v)" "free_blocks (abs_fs (put_block fs2 ?p v)) = free_blocks (abs_fs fs)"
    "abs_fs (put_block fs2 ?p v) = (abs_fs ?fs1)\<lparr>a_block := (a_block (abs_fs ?fs1))(?p := v)\<rparr>"
    using pb p v 3 by simp_all
  have h: "head_moved fs2 (put_block fs2 ?p v)"
    by (auto simp: head_moved_def intro: exI [of _ "free_blocks_head (superblock fs2)"])
  note ik = inode_alloc_keep [OF 3(1) 4(1) h]
  show ?thesis
    using 2(2) 4 ik aw 3(3) d0 sfs_fs_write_inode_ok [OF f(2) d0(1)]
    by (intro exI [of _ "put_block fs2 ?p v"]) simp
qed

text \<open>What it means that entry \<open>k\<close> is gone and the inode \<open>i\<close> it named has the links that \<open>i\<close> says.\<close>

definition unlinked :: "fs_abs \<Rightarrow> sfs_fs_inode \<Rightarrow> nat \<Rightarrow> sfs_fs_inode \<Rightarrow> fs_abs \<Rightarrow> sfs_fs_inode \<Rightarrow> bool" where
  "unlinked A d k i A' d' \<longleftrightarrow>
     dir_ok A' d' \<and> inumber d' = inumber d \<and> dsize d' = dsize d \<and> iptrs A' d' = iptrs A d \<and>
     dslot A' d' k = (dslot A d k)\<lparr>de_inumber := 0\<rparr> \<and> (\<forall>j. j \<noteq> k \<longrightarrow> dslot A' d' j = dslot A d j) \<and>
     (\<forall>m. m \<noteq> inumber d \<and> m \<noteq> inumber i \<longrightarrow> a_inode A' m = a_inode A m) \<and>
     (links i \<noteq> 0 \<longrightarrow> a_inode A' (inumber i) = i) \<and>
     free_inodes A' = (if links i = 0 then insert (inumber i) (free_inodes A) else free_inodes A) \<and>
     free_blocks A' = (if links i = 0 then free_blocks A \<union> direct_blocks i else free_blocks A) \<and>
     (\<forall>c. c \<notin> free_blocks A' \<and> c \<notin> set (iptrs A d) \<longrightarrow> a_block A' c = a_block A c) \<and>
     same_geometry (a_super A) (a_super A')"

lemma unlinkedI:
  assumes d: "dir_ok A d" and k: "fptr A d k \<noteq> 0" "length (fblock A d k) = BLOCK_SIZE" and n: "inumber i \<noteq> inumber d"
    and dr: "dropped A i A1" and keep: "set (iptrs A d) \<inter> free_blocks A1 = {}"
    and A': "A' = A1\<lparr>a_inode := (a_inode A1)(inumber d := d'), a_block := (a_block A1)(fptr A d k := clear_entry (fblock A d k))\<rparr>"
      "free_inodes A' = free_inodes A1" "free_blocks A' = free_blocks A1" and d': "d' = d\<lparr>modified_time := t\<rparr>"
  shows "unlinked A d k i A' d'"
proof -
  note d0 = dir_okD [OF d] and io = inode_okD [OF dir_okD(1) [OF d]]
  note dr' = dr [unfolded dropped_def]
  have g: "valid_block (a_super A1) = valid_block (a_super A)" "valid_ino (a_super A1) = valid_ino (a_super A)"
    using dr' valid_same_geometry by auto
  have "\<And>b. b \<in> set (iptrs A d) \<Longrightarrow> a_block A1 b = a_block A b \<and> b \<notin> free_blocks A1" using keep dr' by auto
  note f1 = file_frame [OF d0(1) this g(1)]
  let ?p = "fptr A d k"
  have sel: "a_super A' = a_super A1" "a_inode A' = (a_inode A1)(inumber d := d')"
    "a_block A' = (a_block A1)(?p := clear_entry (fblock A d k))"
    and sel': "block_pointers d' = block_pointers d" "inumber d' = inumber d" "mode d' = mode d" "dsize d' = dsize d"
      "isize d' = isize d"
    using A'(1) d' by (simp_all add: dsize_def)
  have p: "fptr A d j \<noteq> 0 \<Longrightarrow> fptr A d j = ?p \<longleftrightarrow> j = k" "block_pointers d ! 12 \<noteq> ?p" for j
    using io(6) [of j k] io(5) [of k] k by auto
  have ptr: "fptr A' d' = fptr A d"
    using f1(1) p(2) by (auto simp: fptr_def fun_eq_iff sel sel' split: if_splits)
  then have ip: "iptrs A' d' = iptrs A d" by (simp add: iptrs_def sel')
  have "inode_ok A' d'"
    using f1(2,3) A'(3) by (simp add: inode_ok_def ip wf_inode_def sel sel')
  moreover have slot: "fblock A' d' j = (if j = k then clear_entry (fblock A d k) else fblock A d j)" for j
    using fun_cong [OF f1(4), of j] ptr p(1) [of j] k by (auto simp: fblock_def sel f1(1) split: if_splits)
  ultimately have "dir_ok A' d'"
    using d0 g by (simp add: dir_ok_def sel sel')
  moreover have "dslot A' d' j = (if j = k then (dslot A d k)\<lparr>de_inumber := 0\<rparr> else dslot A d j)" for j
    using clear_entry(2) [OF k(2)] by (simp add: dslot_def slot)
  moreover have "?p \<in> set (iptrs A d)" using k by (auto simp: set_iptrs)
  ultimately show ?thesis
    using ip A'(2,3) dr' n by (auto simp: unlinked_def sel sel')
qed

lemma iter_unlink_ok:
  assumes ok: "inode_alloc_ok fs" and A: "A = abs_fs fs" and it: "it_inode it = d" "unat (it_iblock it) = k" "cached_block it = fblock A d k"
    and d: "dir_ok A d" "inumber d \<notin> free_inodes A" and k: "k < dsize d" "dlive A d k"
    and n: "n = de_inumber (dslot A d k)" "valid_ino (superblock fs) n" "n \<notin> free_inodes A" "n \<noteq> inumber d"
    and i: "i = a_inode A n" "inumber i = n" "inode_ok A i" "set (iptrs A i) \<inter> set (iptrs A d) = {}"
  shows "\<exists>t it' fs'. sfs_dir_iter_unlink fs it 0 = Some (0, it', fs') \<and> inode_alloc_ok fs' \<and>
    unlinked A d k (i\<lparr>links := links i - 1, change_time := t\<rparr>) (abs_fs fs') (it_inode it')"
proof -
  note f = inode_alloc_okD [OF ok] and d0 = dir_okD [OF d(1)]
  let ?fs1 = "tick (after_read fs n)" and ?t = "fs_now (after_read fs n)"
  let ?i = "i\<lparr>links := links i - 1, change_time := ?t\<rparr>"
  have 1: "inode_alloc_ok ?fs1" "abs_fs ?fs1 = A" "superblock ?fs1 = superblock fs"
    using f n A ok by (simp_all add: inode_alloc_ok_def alloc_ok_def)
  have "inode_ok A ?i" using i(3) inode_ok_cong [of A A ?i i] by simp
  then obtain fs2 where 2: "drop_link ?fs1 ?i = Some (0, fs2)" "inode_alloc_ok fs2" "dropped A ?i (abs_fs fs2)"
    using drop_link_ok [OF 1(1), of ?i] 1(2,3) i(2) n by auto
  note dr = 2(3) [unfolded dropped_def]
  have "direct_blocks ?i \<subseteq> set (iptrs A i)" using direct_pointers(2) [OF i(3)] by (simp add: direct_blocks_def)
  then have keep: "set (iptrs A d) \<inter> free_blocks (abs_fs fs2) = {}"
    using dr i(4) d0(1) by (auto simp: inode_ok_def)
  have g: "valid_block (superblock fs2) = valid_block (a_super A)" "valid_ino (superblock fs2) = valid_ino (a_super A)"
    using dr valid_same_geometry A by auto
  have ff: "fptr (abs_fs fs2) d = fptr A d" "inode_ok (abs_fs fs2) d"
    by (rule file_frame [OF d0(1)]; use keep dr g in auto)+
  have df: "inumber d \<notin> free_inodes (abs_fs fs2)" using dr d(2) n(4) i(2) by auto
  let ?d = "d\<lparr>modified_time := fs_now fs2\<rparr>" and ?v = "clear_entry (fblock A d k)"
  have len: "length (fblock A d k) = BLOCK_SIZE" using length_fblock [OF f(2)] d0(1) A by simp
  have p: "fptr A d k \<noteq> 0" by (rule live_allocated [OF k(2)])
  have "\<exists>fs'. sfs_fs_write_inode (tick fs2) ?d = Some (0, after_write (tick fs2) ?d) \<and>
    sfs_fs_inode_block_write (after_write (tick fs2) ?d) ?d (it_iblock it) ?v = Some (0, ?d, fs') \<and> inode_alloc_ok fs' \<and>
    abs_fs fs' = (abs_fs (tick fs2))\<lparr>a_inode := (a_inode (abs_fs (tick fs2)))(inumber d := ?d),
      a_block := (a_block (abs_fs (tick fs2)))(fptr (abs_fs (tick fs2)) d (unat (it_iblock it)) := ?v)\<rparr> \<and>
    free_inodes (abs_fs fs') = free_inodes (abs_fs (tick fs2)) \<and> free_blocks (abs_fs fs') = free_blocks (abs_fs (tick fs2))"
    using 2(2) ff df g d0 it(2) k p clear_entry(1) [OF len] by (intro rewrite_entry_ok) simp_all
  then obtain fs3 where 3: "sfs_fs_write_inode (tick fs2) ?d = Some (0, after_write (tick fs2) ?d)"
    "sfs_fs_inode_block_write (after_write (tick fs2) ?d) ?d (it_iblock it) ?v = Some (0, ?d, fs3)" "inode_alloc_ok fs3"
    "abs_fs fs3 = (abs_fs fs2)\<lparr>a_inode := (a_inode (abs_fs fs2))(inumber d := ?d),
      a_block := (a_block (abs_fs fs2))(fptr A d k := ?v)\<rparr>"
    "free_inodes (abs_fs fs3) = free_inodes (abs_fs fs2)" "free_blocks (abs_fs fs3) = free_blocks (abs_fs fs2)"
    using it(2) ff(1) by auto
  have "unlinked A d k ?i (abs_fs fs3) ?d"
    using i(2) n(4) by (intro unlinkedI [OF d(1) p len _ 2(3) keep 3(4-6)]) auto
  moreover have "sfs_dir_iter_unlink fs it 0 = Some (0, it\<lparr>cached_block := ?v, it_inode := ?d\<rparr>, fs3)"
    using n(1) it 2(1) 3(1,2) sfs_fs_read_inode_ok [OF f(2) n(2)] i(1) A [symmetric]
    unfolding sfs_dir_iter_unlink_def
    by (simp add: Let_def disk_access clear_entry_def dslot_def)
  ultimately show ?thesis using 3(3) by (intro exI [of _ ?t] exI [of _ "it\<lparr>cached_block := ?v, it_inode := ?d\<rparr>"] exI [of _ fs3]) simp
qed

end
