(* ===== verification/Fd_Pool.thy ===== *)
theory Fd_Pool
  imports Allocator
begin

text \<open>
  The pool of file descriptors, \<^verbatim>\<open>src/src/filedescriptor.c\<close>: a linked list of slabs of 4088
  slots, of which the unused ones form a free list. Slot \<open>i\<close> of slab \<open>s\<close> is addressed by the
  number \<open>4088 * s + i\<close>, which stands for its address.

  A slot is a union: bytes 8 to 15 are the inode number of an open descriptor and the link of a
  free one. The model keeps which of the two was stored last; reading the inode number of a free
  slot yields the address in its link.
\<close>

subsection \<open>State\<close>

datatype cell = Inumber u64 | Next "nat option"

record slot =
  slot_fd :: int
  slot_cell :: cell
  slot_flags :: u64

record pool =
  slabs :: "slot list list"
  freelist :: "nat option"
  slot_addr :: "nat \<Rightarrow> u64"

abbreviation SLOTS_PER_SLAB :: nat where "SLOTS_PER_SLAB \<equiv> 4088"
abbreviation INT_MAX :: int where "INT_MAX \<equiv> 2147483647"

definition get_slot :: "pool \<Rightarrow> nat \<Rightarrow> slot" where
  "get_slot p k = slabs p ! (k div SLOTS_PER_SLAB) ! (k mod SLOTS_PER_SLAB)"

definition set_slot :: "pool \<Rightarrow> nat \<Rightarrow> slot \<Rightarrow> pool" where
  "set_slot p k s =
     p\<lparr>slabs := (slabs p)[k div SLOTS_PER_SLAB := (slabs p ! (k div SLOTS_PER_SLAB))[k mod SLOTS_PER_SLAB := s]]\<rparr>"

text \<open>The descriptor fields of \<^verbatim>\<open>struct sfs_fd\<close>, read and assigned through a slot.\<close>

definition sfs_fd_inumber :: "pool \<Rightarrow> nat \<Rightarrow> u64" where
  "sfs_fd_inumber p k =
     (case slot_cell (get_slot p k) of
        Inumber n \<Rightarrow> n | Next None \<Rightarrow> 0 | Next (Some j) \<Rightarrow> slot_addr p j)"

definition sfs_fd_set :: "pool \<Rightarrow> nat \<Rightarrow> u64 \<Rightarrow> u64 \<Rightarrow> pool" where
  "sfs_fd_set p k inum flags = set_slot p k ((get_slot p k)\<lparr>slot_cell := Inumber inum, slot_flags := flags\<rparr>)"

subsection \<open>Operations\<close>

text \<open>
  The loops that thread a new slab into a free list. \<open>raw\<close> is the memory \<^verbatim>\<open>malloc\<close> returned,
  whose contents are arbitrary; \<open>base\<close> is the number of the first slot.
\<close>

definition thread_slots :: "nat \<Rightarrow> slot list \<Rightarrow> slot list" where
  "thread_slots base raw =
     map (\<lambda>i. (raw ! i)\<lparr>slot_fd := int (base + i),
                         slot_cell := Next (if i < SLOTS_PER_SLAB - 1 then Some (base + i + 1) else None)\<rparr>)
       [0..<SLOTS_PER_SLAB]"

definition sfs_filedescriptor_pool_init :: "bool \<Rightarrow> slot list option \<Rightarrow> (nat \<Rightarrow> u64) \<Rightarrow> pool option" where
  "sfs_filedescriptor_pool_init malloc_pool malloc_slab addr =
     (if \<not> malloc_pool then None
      else case malloc_slab of
             None \<Rightarrow> None
           | Some raw \<Rightarrow> Some \<lparr>slabs = [thread_slots 0 raw], freelist = Some 0, slot_addr = addr\<rparr>)"

fun deinit_walk :: "slot list list \<Rightarrow> slot list list \<Rightarrow> slot list list \<times> slot list list" where
  "deinit_walk freed (s # t # rest) = deinit_walk (freed @ [s]) (t # rest)"
| "deinit_walk freed rest = (freed, rest)"

text \<open>The slabs given back to \<^verbatim>\<open>free\<close> and those still allocated.\<close>

definition sfs_filedescriptor_pool_deinit :: "pool \<Rightarrow> (slot list list \<times> pool) option" where
  "sfs_filedescriptor_pool_deinit p =
     (if slabs p = [] then None
      else let (freed, rest) = deinit_walk [] (slabs p) in Some (freed, p\<lparr>slabs := rest\<rparr>))"

text \<open>
  Taking the head of the free list; \<^verbatim>\<open>init_slot_as_sfs_fd\<close> copies the descriptor number onto
  itself. A head whose link bytes hold an inode number has no meaningful successor.
\<close>

definition init_slot_as_sfs_fd :: "pool \<Rightarrow> nat \<Rightarrow> pool" where
  "init_slot_as_sfs_fd p k = set_slot p k ((get_slot p k)\<lparr>slot_fd := slot_fd (get_slot p k)\<rparr>)"

definition take_slot :: "pool \<Rightarrow> nat \<Rightarrow> (nat option \<times> pool) option" where
  "take_slot p k =
     (case slot_cell (get_slot p k) of
        Next nx \<Rightarrow> Some (Some k, init_slot_as_sfs_fd (p\<lparr>freelist := nx\<rparr>) k)
      | Inumber n \<Rightarrow> None)"

text \<open>
  When the free list is empty a slab is appended and the function calls itself; the free list is
  then not empty, so that call takes its head. The slots of the slabs there are and the numbers of the
  new ones are counted in an \<^verbatim>\<open>int\<close>: the count before \<^verbatim>\<open>malloc\<close> is called, the numbers after it, and
  signed overflow in either is undefined.
\<close>

definition sfs_filedescriptor_allocate :: "pool \<Rightarrow> slot list option \<Rightarrow> (nat option \<times> pool) option" where
  "sfs_filedescriptor_allocate p malloc_slab =
     (case freelist p of
        Some k \<Rightarrow> take_slot p k
      | None \<Rightarrow>
          let num_fds_already = SLOTS_PER_SLAB * length (slabs p)
          in if INT_MAX < int num_fds_already then None
             else (case malloc_slab of
                     None \<Rightarrow> Some (None, p)
                   | Some raw \<Rightarrow>
                       if INT_MAX < int num_fds_already + int SLOTS_PER_SLAB then None
                       else take_slot (p\<lparr>slabs := slabs p @ [thread_slots num_fds_already raw],
                                         freelist := Some num_fds_already\<rparr>) num_fds_already))"

fun slab_walk :: "nat \<Rightarrow> slot list list \<Rightarrow> slot list list" where
  "slab_walk 0 s = s"
| "slab_walk (Suc i) [] = []"
| "slab_walk (Suc i) (x # s) = slab_walk i s"

definition sfs_filedescriptor_get_from_fd :: "pool \<Rightarrow> int \<Rightarrow> nat option option" where
  "sfs_filedescriptor_get_from_fd p fd =
     (if fd < 0 then None
      else let slab_index = nat fd div SLOTS_PER_SLAB;
               slot_index = nat fd mod SLOTS_PER_SLAB
           in Some (case slab_walk slab_index (slabs p) of
                      [] \<Rightarrow> None
                    | s # rest \<Rightarrow> Some (SLOTS_PER_SLAB * slab_index + slot_index)))"

definition sfs_filedescriptor_free :: "pool \<Rightarrow> nat \<Rightarrow> pool" where
  "sfs_filedescriptor_free p k =
     (set_slot p k ((get_slot p k)\<lparr>slot_fd := slot_fd (get_slot p k), slot_cell := Next (freelist p)\<rparr>))
       \<lparr>freelist := Some k\<rparr>"

subsection \<open>Invariant\<close>

definition pool_size :: "pool \<Rightarrow> nat" where
  "pool_size p = SLOTS_PER_SLAB * length (slabs p)"

text \<open>The number of descriptors that whole slabs can provide within an \<^verbatim>\<open>int\<close>.\<close>

abbreviation MAX_FDS :: nat where "MAX_FDS \<equiv> SLOTS_PER_SLAB * 525314"

fun fd_chain :: "(nat \<Rightarrow> slot) \<Rightarrow> nat option \<Rightarrow> nat list \<Rightarrow> bool" where
  "fd_chain f h [] \<longleftrightarrow> h = None"
| "fd_chain f h (k # ks) \<longleftrightarrow> h = Some k \<and> (\<exists>nx. slot_cell (f k) = Next nx \<and> fd_chain f nx ks)"

definition fds_rep :: "pool \<Rightarrow> nat list \<Rightarrow> bool" where
  "fds_rep p ks \<longleftrightarrow> fd_chain (get_slot p) (freelist p) ks \<and> distinct ks \<and> (\<forall>k\<in>set ks. k < pool_size p)"

definition pool_ok :: "pool \<Rightarrow> bool" where
  "pool_ok p \<longleftrightarrow> slabs p \<noteq> [] \<and> (\<forall>s\<in>set (slabs p). length s = SLOTS_PER_SLAB) \<and>
     pool_size p \<le> MAX_FDS \<and> (\<forall>k<pool_size p. slot_fd (get_slot p k) = int k) \<and> (\<exists>ks. fds_rep p ks)"

definition free_fds :: "pool \<Rightarrow> nat set" where
  "free_fds p = {k. \<exists>ks. fds_rep p ks \<and> k \<in> set ks} \<union> {pool_size p..<MAX_FDS}"

lemma fd_chain_unique: "fd_chain f h ks \<Longrightarrow> fd_chain f h ks' \<Longrightarrow> ks = ks'"
proof (induction ks arbitrary: h ks')
  case Nil
  then show ?case by (cases ks') auto
next
  case (Cons k ks)
  then show ?case by (cases ks') auto
qed

lemma free_fds_rep: "fds_rep p ks \<Longrightarrow> free_fds p = set ks \<union> {pool_size p..<MAX_FDS}"
  by (auto simp: free_fds_def fds_rep_def dest: fd_chain_unique)

lemma fd_chain_cong: "(\<And>k. k \<in> set ks \<Longrightarrow> slot_cell (g k) = slot_cell (f k)) \<Longrightarrow> fd_chain g h ks = fd_chain f h ks"
  by (induction ks arbitrary: h) auto

lemma fd_chain_upt:
  assumes "a < b" "\<And>k. a \<le> k \<Longrightarrow> k < b \<Longrightarrow> slot_cell (f k) = Next (if k + 1 < b then Some (k + 1) else None)"
  shows "fd_chain f (Some a) [a..<b]"
  using assms
proof (induction "b - a" arbitrary: a)
  case 0
  then show ?case by simp
next
  case (Suc n)
  show ?case
  proof (cases "a + 1 < b")
    case True
    then have "fd_chain f (Some (a + 1)) [a + 1..<b]"
      using Suc.hyps(2) Suc.prems by (intro Suc.hyps(1)) auto
    with True Suc.prems show ?thesis by (simp add: upt_conv_Cons)
  next
    case False
    with Suc.prems have "b = Suc a" by simp
    with Suc.prems show ?thesis by simp
  qed
qed

lemma slab_walk_drop: "slab_walk n s = drop n s"
  by (induction n s rule: slab_walk.induct) auto

lemma slot_coords: "k < SLOTS_PER_SLAB * n \<Longrightarrow> k div SLOTS_PER_SLAB < n" "k mod SLOTS_PER_SLAB < SLOTS_PER_SLAB"
  by (simp_all add: less_mult_imp_div_less mult.commute)

lemma get_set_slot:
  assumes "\<forall>s\<in>set (slabs p). length s = SLOTS_PER_SLAB" "k < pool_size p"
  shows "get_slot (set_slot p k v) j = (if j = k then v else get_slot p j)"
proof -
  note c = slot_coords(1) [OF assms(2) [unfolded pool_size_def]] slot_coords(2) [of k]
  have "j = k \<longleftrightarrow> j div SLOTS_PER_SLAB = k div SLOTS_PER_SLAB \<and> j mod SLOTS_PER_SLAB = k mod SLOTS_PER_SLAB"
    by (metis div_mult_mod_eq)
  moreover have "length (slabs p ! (k div SLOTS_PER_SLAB)) = SLOTS_PER_SLAB" using assms c by simp
  ultimately show ?thesis
    using c by (auto simp: get_slot_def set_slot_def nth_list_update)
qed

lemma set_slot_frame [simp, sfs_frame]:
  "freelist (set_slot p k v) = freelist p" "pool_size (set_slot p k v) = pool_size p"
  "slot_addr (set_slot p k v) = slot_addr p" "slabs (set_slot p k v) = [] \<longleftrightarrow> slabs p = []"
  by (simp_all add: set_slot_def pool_size_def)

lemma set_slot_lengths:
  assumes "\<forall>s\<in>set (slabs p). length s = SLOTS_PER_SLAB" "k < pool_size p"
  shows "\<forall>s\<in>set (slabs (set_slot p k v)). length s = SLOTS_PER_SLAB"
  using assms slot_coords(1) [OF assms(2) [unfolded pool_size_def]]
  by (auto simp: set_slot_def dest!: subsetD [OF set_update_subset_insert])

lemma pool_freelist_frame [simp]:
  "get_slot (p\<lparr>freelist := x\<rparr>) = get_slot p" "pool_size (p\<lparr>freelist := x\<rparr>) = pool_size p"
  by (simp_all add: fun_eq_iff get_slot_def pool_size_def)

subsection \<open>Correctness\<close>

lemma pool_okE:
  assumes "pool_ok p"
  obtains ks where "\<forall>s\<in>set (slabs p). length s = SLOTS_PER_SLAB" "slabs p \<noteq> []" "pool_size p \<le> MAX_FDS"
    "\<forall>k<pool_size p. slot_fd (get_slot p k) = int k" "fds_rep p ks" "free_fds p = set ks \<union> {pool_size p..<MAX_FDS}"
  using assms free_fds_rep unfolding pool_ok_def by blast

lemma length_thread_slots [simp, sfs_len]: "length (thread_slots base raw) = SLOTS_PER_SLAB"
  by (simp add: thread_slots_def)

lemma nth_thread_slots:
  "i < SLOTS_PER_SLAB \<Longrightarrow>
   slot_fd (thread_slots base raw ! i) = int (base + i) \<and>
   slot_cell (thread_slots base raw ! i) = Next (if i < SLOTS_PER_SLAB - 1 then Some (base + i + 1) else None)"
  by (simp add: thread_slots_def)

text \<open>A slab appended to the list: the old slots are as before, the new ones form a free list.\<close>

lemma append_slab:
  assumes len: "\<forall>s\<in>set (slabs p). length s = SLOTS_PER_SLAB" and N: "pool_size p = N"
    and p': "p' = p\<lparr>slabs := slabs p @ [thread_slots N raw], freelist := Some N\<rparr>"
  shows "pool_size p' = N + SLOTS_PER_SLAB" "k < N \<Longrightarrow> get_slot p' k = get_slot p k"
    "N \<le> k \<Longrightarrow> k < N + SLOTS_PER_SLAB \<Longrightarrow> slot_fd (get_slot p' k) = int k \<and>
       slot_cell (get_slot p' k) = Next (if k + 1 < N + SLOTS_PER_SLAB then Some (k + 1) else None)"
    "fds_rep p' [N..<N + SLOTS_PER_SLAB]"
proof -
  show N': "pool_size p' = N + SLOTS_PER_SLAB" using N p' by (simp add: pool_size_def)
  show "get_slot p' k = get_slot p k" if "k < N" for k
    using that slot_coords(1) [of k "length (slabs p)"] N p' by (simp add: get_slot_def nth_append pool_size_def)
  show new: "slot_fd (get_slot p' k) = int k \<and>
       slot_cell (get_slot p' k) = Next (if k + 1 < N + SLOTS_PER_SLAB then Some (k + 1) else None)"
    if k: "N \<le> k" "k < N + SLOTS_PER_SLAB" for k
  proof -
    have q: "k div SLOTS_PER_SLAB = length (slabs p)"
      using k N unfolding pool_size_def by (intro div_nat_eqI) auto
    then have "k mod SLOTS_PER_SLAB = k - N"
      using minus_mult_div_eq_mod [of k SLOTS_PER_SLAB] N by (simp add: pool_size_def)
    with q have "get_slot p' k = thread_slots N raw ! (k - N)" using p' by (simp add: get_slot_def)
    with nth_thread_slots [of "k - N" N raw] k show ?thesis by auto
  qed
  show "fds_rep p' [N..<N + SLOTS_PER_SLAB]"
    using new N' p' fd_chain_upt [of N "N + SLOTS_PER_SLAB" "get_slot p'"] by (auto simp: fds_rep_def)
qed

lemma pool_init_ok:
  assumes "sfs_filedescriptor_pool_init mp ms addr = Some p"
  shows "pool_ok p" "free_fds p = {0..<MAX_FDS}" "fds_rep p [0..<SLOTS_PER_SLAB]" "pool_size p = SLOTS_PER_SLAB"
proof -
  obtain raw where p: "p = \<lparr>slabs = [thread_slots 0 raw], freelist = Some 0, slot_addr = addr\<rparr>"
    using assms by (auto simp: sfs_filedescriptor_pool_init_def split: if_splits option.splits)
  have e: "p = \<lparr>slabs = [], freelist = None, slot_addr = addr\<rparr>\<lparr>slabs := [] @ [thread_slots 0 raw], freelist := Some 0\<rparr>"
    using p by simp
  note a = append_slab [of "\<lparr>slabs = [], freelist = None, slot_addr = addr\<rparr>" 0 p raw]
  show rep: "fds_rep p [0..<SLOTS_PER_SLAB]" and N: "pool_size p = SLOTS_PER_SLAB"
    using a e by (simp_all add: pool_size_def)
  have "\<forall>k<pool_size p. slot_fd (get_slot p k) = int k" using a(3) e N by (simp add: pool_size_def)
  with rep N p show "pool_ok p" by (auto simp: pool_ok_def)
  show "free_fds p = {0..<MAX_FDS}" unfolding free_fds_rep [OF rep] N set_upt by auto
qed

lemma take_slot_ok:
  assumes len: "\<forall>s\<in>set (slabs p). length s = SLOTS_PER_SLAB" and ne: "slabs p \<noteq> []" and N: "pool_size p \<le> MAX_FDS"
    and fd: "\<forall>k<pool_size p. slot_fd (get_slot p k) = int k" and rep: "fds_rep p (k # ks)"
  shows "\<exists>p'. take_slot p k = Some (Some k, p') \<and> pool_ok p' \<and> fds_rep p' ks \<and> pool_size p' = pool_size p \<and>
    (\<forall>j<pool_size p. get_slot p' j = get_slot p j)"
proof -
  obtain nx where nx: "freelist p = Some k" "slot_cell (get_slot p k) = Next nx" "fd_chain (get_slot p) nx ks"
    and k: "k < pool_size p" "distinct ks" "\<forall>j\<in>set ks. j < pool_size p"
    using rep by (auto simp: fds_rep_def)
  let ?p1 = "p\<lparr>freelist := nx\<rparr>"
  let ?p = "init_slot_as_sfs_fd ?p1 k"
  have same: "get_slot ?p j = get_slot p j" for j
    using get_set_slot [of ?p1 k _ j] len k by (simp add: init_slot_as_sfs_fd_def)
  have "fds_rep ?p ks"
    using nx k fd_chain_cong [of ks "get_slot ?p" "get_slot p"] same
    by (simp add: fds_rep_def init_slot_as_sfs_fd_def)
  moreover have "pool_ok ?p"
    using \<open>fds_rep ?p ks\<close> ne N fd same set_slot_lengths [of ?p1 k] len k
    by (auto simp: pool_ok_def init_slot_as_sfs_fd_def)
  moreover have "take_slot p k = Some (Some k, ?p)" using nx by (simp add: take_slot_def)
  moreover have "pool_size ?p = pool_size p" by (simp add: init_slot_as_sfs_fd_def)
  ultimately show ?thesis using same by blast
qed

text \<open>Allocation takes the head of the free list, or the first slot of a new slab, whose others it lists in order.\<close>

lemma fd_allocate_rep:
  assumes ok: "pool_ok p" and rep: "fds_rep p ks" and room: "ks = [] \<Longrightarrow> pool_size p < MAX_FDS"
  defines "N \<equiv> pool_size p"
  defines "ks' \<equiv> if ks = [] then [N..<N + SLOTS_PER_SLAB] else ks"
  shows "\<exists>p'. sfs_filedescriptor_allocate p (Some raw) = Some (Some (hd ks'), p') \<and> pool_ok p' \<and> fds_rep p' (tl ks') \<and>
    pool_size p' = (if ks = [] then N + SLOTS_PER_SLAB else N) \<and> (\<forall>j<N. get_slot p' j = get_slot p j)"
proof -
  have len: "\<forall>s\<in>set (slabs p). length s = SLOTS_PER_SLAB" and n: "slabs p \<noteq> []" and M: "N \<le> MAX_FDS"
    and fd: "\<forall>k<N. slot_fd (get_slot p k) = int k"
    using ok unfolding N_def pool_ok_def by blast+
  show ?thesis
  proof (cases ks)
    case (Cons k ks2)
    then obtain p' where "take_slot p k = Some (Some k, p')" "pool_ok p'" "fds_rep p' ks2" "pool_size p' = N"
      "\<forall>j<N. get_slot p' j = get_slot p j"
      using take_slot_ok [OF len n, of k ks2] M fd rep unfolding N_def by blast
    moreover have "freelist p = Some k" using rep Cons by (auto simp: fds_rep_def)
    ultimately show ?thesis using Cons by (intro exI [of _ p']) (simp add: sfs_filedescriptor_allocate_def ks'_def)
  next
    case Nil
    let ?p1 = "p\<lparr>slabs := slabs p @ [thread_slots N raw], freelist := Some N\<rparr>"
    note a = append_slab [OF len N_def [symmetric, THEN meta_eq_to_obj_eq], of ?p1 raw, OF refl]
    have fl: "freelist p = None" using rep Nil by (simp add: fds_rep_def)
    have "length (slabs p) < 525314" using room [OF Nil] by (simp add: pool_size_def)
    then have N1: "N + SLOTS_PER_SLAB \<le> MAX_FDS" unfolding N_def pool_size_def by linarith
    have u: "[N..<N + SLOTS_PER_SLAB] = N # [Suc N..<N + SLOTS_PER_SLAB]" by (rule upt_conv_Cons) simp
    have fd1: "\<forall>k<pool_size ?p1. slot_fd (get_slot ?p1 k) = int k" using a(1,2,3) fd by (metis not_le)
    have "\<exists>p'. take_slot ?p1 N = Some (Some N, p') \<and> pool_ok p' \<and> fds_rep p' [Suc N..<N + SLOTS_PER_SLAB] \<and>
        pool_size p' = pool_size ?p1 \<and> (\<forall>j<pool_size ?p1. get_slot p' j = get_slot ?p1 j)"
      using len a(1,4) N1 fd1 u by (intro take_slot_ok) auto
    then obtain p' where p': "take_slot ?p1 N = Some (Some N, p')" "pool_ok p'" "fds_rep p' [Suc N..<N + SLOTS_PER_SLAB]"
      "pool_size p' = N + SLOTS_PER_SLAB" "\<forall>j<N + SLOTS_PER_SLAB. get_slot p' j = get_slot ?p1 j"
      using a(1) by auto
    have "sfs_filedescriptor_allocate p (Some raw) = Some (Some N, p')"
      using fl N1 p'(1) by (simp add: sfs_filedescriptor_allocate_def N_def pool_size_def)
    moreover have "\<forall>j<N. get_slot p' j = get_slot p j" using p'(5) a(2) by simp
    moreover have "hd ks' = N" "tl ks' = [Suc N..<N + SLOTS_PER_SLAB]" using Nil u by (simp_all add: ks'_def)
    ultimately show ?thesis using p'(2-4) Nil by (intro exI [of _ p']) simp
  qed
qed

lemma fd_allocate_ok:
  assumes ok: "pool_ok p" and ne: "free_fds p \<noteq> {}"
  shows "\<exists>k p'. sfs_filedescriptor_allocate p (Some raw) = Some (Some k, p') \<and> pool_ok p' \<and>
    k \<in> free_fds p \<and> free_fds p' = free_fds p - {k} \<and> k < pool_size p' \<and> slot_fd (get_slot p' k) = int k \<and>
    (\<forall>j<pool_size p. get_slot p' j = get_slot p j)"
proof -
  obtain ks where rep: "fds_rep p ks" and fr: "free_fds p = set ks \<union> {pool_size p..<MAX_FDS}"
    using ok by (rule pool_okE)
  have room: "ks = [] \<Longrightarrow> pool_size p < MAX_FDS" using ne fr by auto
  let ?N = "pool_size p"
  let ?ks = "if ks = [] then [?N..<?N + SLOTS_PER_SLAB] else ks"
  obtain p' where p': "sfs_filedescriptor_allocate p (Some raw) = Some (Some (hd ?ks), p')" "pool_ok p'" "fds_rep p' (tl ?ks)"
    "pool_size p' = (if ks = [] then ?N + SLOTS_PER_SLAB else ?N)" "\<forall>j<?N. get_slot p' j = get_slot p j"
    using fd_allocate_rep [OF ok rep room, of raw] by blast
  have u: "[?N..<?N + SLOTS_PER_SLAB] = ?N # [Suc ?N..<?N + SLOTS_PER_SLAB]" by (rule upt_conv_Cons) simp
  have M: "pool_size p' \<le> MAX_FDS" using p'(2) by (simp add: pool_ok_def)
  have k: "hd ?ks \<in> free_fds p \<and> free_fds p' = free_fds p - {hd ?ks} \<and> hd ?ks < pool_size p'"
    using free_fds_rep [OF p'(3)] fr rep p'(4) M u by (cases ks) (auto simp: fds_rep_def)
  then have "slot_fd (get_slot p' (hd ?ks)) = int (hd ?ks)" using p'(2) by (simp add: pool_ok_def)
  then show ?thesis using p'(1,2,5) k by blast
qed

lemma get_slot_free:
  assumes "\<forall>s\<in>set (slabs p). length s = SLOTS_PER_SLAB" "k < pool_size p"
  shows "get_slot (sfs_filedescriptor_free p k) j =
    (if j = k then (get_slot p k)\<lparr>slot_cell := Next (freelist p)\<rparr> else get_slot p j)"
  using get_set_slot [OF assms] by (simp add: sfs_filedescriptor_free_def)

text \<open>Freeing puts the descriptor at the head of the free list.\<close>

lemma fd_free_rep:
  assumes ok: "pool_ok p" and rep: "fds_rep p ks" and k: "k < pool_size p" "k \<notin> set ks"
  shows "fds_rep (sfs_filedescriptor_free p k) (k # ks)"
proof -
  let ?q = "sfs_filedescriptor_free p k"
  have g: "get_slot ?q j = (if j = k then (get_slot p k)\<lparr>slot_cell := Next (freelist p)\<rparr> else get_slot p j)" for j
    using ok k(1) by (intro get_slot_free) (auto simp: pool_ok_def)
  have "fd_chain (get_slot ?q) (freelist p) ks = fd_chain (get_slot p) (freelist p) ks"
    using g k by (intro fd_chain_cong) auto
  then show ?thesis using rep k g by (simp add: fds_rep_def) (simp add: sfs_filedescriptor_free_def)
qed

lemma fd_free_ok:
  assumes ok: "pool_ok p" and k: "k < MAX_FDS" "k \<notin> free_fds p"
  shows "pool_ok (sfs_filedescriptor_free p k)" "free_fds (sfs_filedescriptor_free p k) = insert k (free_fds p)"
    "pool_size (sfs_filedescriptor_free p k) = pool_size p"
    "j \<noteq> k \<Longrightarrow> get_slot (sfs_filedescriptor_free p k) j = get_slot p j"
proof -
  let ?q = "sfs_filedescriptor_free p k"
  obtain ks where len: "\<forall>s\<in>set (slabs p). length s = SLOTS_PER_SLAB" and n: "slabs p \<noteq> []" and N: "pool_size p \<le> MAX_FDS"
    and fd: "\<forall>k<pool_size p. slot_fd (get_slot p k) = int k" and rep: "fds_rep p ks"
    and fr: "free_fds p = set ks \<union> {pool_size p..<MAX_FDS}"
    using ok by (rule pool_okE)
  have kN: "k < pool_size p" "k \<notin> set ks" using k fr by auto
  note g = get_slot_free [OF len kN(1)]
  show size: "pool_size ?q = pool_size p" by (simp add: sfs_filedescriptor_free_def)
  show "j \<noteq> k \<Longrightarrow> get_slot ?q j = get_slot p j" by (simp add: g)
  note rep' = fd_free_rep [OF ok rep kN]
  then show "free_fds ?q = insert k (free_fds p)" using free_fds_rep [OF rep'] fr size by auto
  show "pool_ok ?q"
    using rep' n N fd size g set_slot_lengths [OF len kN(1)]
    by (auto simp: pool_ok_def) (simp_all add: sfs_filedescriptor_free_def)
qed

lemma fd_set_ok:
  assumes ok: "pool_ok p" and k: "k < pool_size p" "k \<notin> free_fds p"
  shows "pool_ok (sfs_fd_set p k n fl)" "free_fds (sfs_fd_set p k n fl) = free_fds p"
    "pool_size (sfs_fd_set p k n fl) = pool_size p"
    "get_slot (sfs_fd_set p k n fl) j =
       (if j = k then (get_slot p k)\<lparr>slot_cell := Inumber n, slot_flags := fl\<rparr> else get_slot p j)"
proof -
  let ?q = "sfs_fd_set p k n fl"
  obtain ks where len: "\<forall>s\<in>set (slabs p). length s = SLOTS_PER_SLAB" and ne: "slabs p \<noteq> []" and N: "pool_size p \<le> MAX_FDS"
    and fd: "\<forall>k<pool_size p. slot_fd (get_slot p k) = int k" and rep: "fds_rep p ks"
    and fr: "free_fds p = set ks \<union> {pool_size p..<MAX_FDS}"
    using ok by (rule pool_okE)
  have g: "get_slot ?q j = (if j = k then (get_slot p k)\<lparr>slot_cell := Inumber n, slot_flags := fl\<rparr> else get_slot p j)" for j
    using get_set_slot [OF len k(1)] by (simp add: sfs_fd_set_def)
  then show "get_slot ?q j =
      (if j = k then (get_slot p k)\<lparr>slot_cell := Inumber n, slot_flags := fl\<rparr> else get_slot p j)" .
  show size: "pool_size ?q = pool_size p" by (simp add: sfs_fd_set_def)
  have fl: "freelist ?q = freelist p" by (simp add: sfs_fd_set_def)
  have "fd_chain (get_slot ?q) (freelist p) ks = fd_chain (get_slot p) (freelist p) ks"
    using g k(2) fr by (intro fd_chain_cong) auto
  then have rep': "fds_rep ?q ks" using rep size fl by (simp add: fds_rep_def)
  then show "free_fds ?q = free_fds p" using free_fds_rep [OF rep'] fr size by simp
  show "pool_ok ?q"
    using rep' ne N fd size g set_slot_lengths [OF len k(1)]
    by (auto simp: pool_ok_def) (simp_all add: sfs_fd_set_def)
qed

text \<open>The descriptors in use, and those open on an inode.\<close>

definition in_use :: "pool \<Rightarrow> nat \<Rightarrow> bool" where
  "in_use p k \<longleftrightarrow> k < pool_size p \<and> k \<notin> free_fds p"

definition fds_on :: "pool \<Rightarrow> u64 \<Rightarrow> nat set" where
  "fds_on p n = {k. in_use p k \<and> slot_cell (get_slot p k) = Inumber n}"

lemma finite_fds_on [simp]: "finite (fds_on p n)"
  by (rule finite_subset [of _ "{..<pool_size p}"]) (auto simp: fds_on_def in_use_def)

lemma card_fds_on: "pool_ok p \<Longrightarrow> card (fds_on p n) \<le> MAX_FDS"
  using card_mono [of "{..<pool_size p}" "fds_on p n"]
  by (force simp: fds_on_def in_use_def pool_ok_def)

lemma pool_size_max: "pool_ok p \<Longrightarrow> pool_size p \<le> MAX_FDS"
  by (simp add: pool_ok_def)

lemma fd_open_ok:
  assumes ok: "pool_ok p" and ne: "free_fds p \<noteq> {}"
  obtains k p1 p' where "sfs_filedescriptor_allocate p (Some raw) = Some (Some k, p1)" "p' = sfs_fd_set p1 k n fl"
    "pool_ok p'" "\<not> in_use p k" "\<And>j. in_use p' j \<longleftrightarrow> in_use p j \<or> j = k" "\<And>j. in_use p j \<Longrightarrow> get_slot p' j = get_slot p j"
    "slot_cell (get_slot p' k) = Inumber n" "slot_fd (get_slot p' k) = int k" "k < MAX_FDS" "free_fds p' = free_fds p - {k}"
proof -
  obtain k p1 where 1: "sfs_filedescriptor_allocate p (Some raw) = Some (Some k, p1)" "pool_ok p1" "k \<in> free_fds p"
    "free_fds p1 = free_fds p - {k}" "k < pool_size p1" "slot_fd (get_slot p1 k) = int k"
    "\<forall>j<pool_size p. get_slot p1 j = get_slot p j"
    using fd_allocate_ok [OF ok ne, of raw] by blast
  let ?p' = "sfs_fd_set p1 k n fl"
  have "k \<notin> free_fds p1" using 1(4) by simp
  note q = fd_set_ok [OF 1(2,5) this, of n fl]
  have out: "j < MAX_FDS \<Longrightarrow> \<not> j < pool_size r \<Longrightarrow> j \<in> free_fds r" if "pool_ok r" for r j
    using that by (elim pool_okE) auto
  have sz: "in_use r j \<longleftrightarrow> j < MAX_FDS \<and> j \<notin> free_fds r" if "pool_ok r" for r j
    using out [OF that, of j] pool_size_max [OF that] by (auto simp: in_use_def)
  have kM: "k < MAX_FDS" using 1(5) pool_size_max [OF 1(2)] by simp
  have use: "in_use ?p' j \<longleftrightarrow> in_use p j \<or> j = k" for j
    unfolding sz [OF q(1)] sz [OF ok] q(2) 1(4) using kM by blast
  have nu: "\<not> in_use p k" using 1(3) by (simp add: in_use_def)
  have same: "get_slot ?p' j = get_slot p j" if "in_use p j" for j
    using that q(4) [of j] 1(7) nu by (auto simp: in_use_def)
  have "slot_cell (get_slot ?p' k) = Inumber n" "slot_fd (get_slot ?p' k) = int k" "k < MAX_FDS"
    "free_fds ?p' = free_fds p - {k}"
    using q(2) q(4) [of k] 1(4-6) pool_size_max [OF 1(2)] by simp_all
  from that [OF 1(1) refl q(1) nu use same this] show ?thesis .
qed

lemma fd_close_ok:
  assumes ok: "pool_ok p" and k: "in_use p k"
  shows "pool_ok (sfs_filedescriptor_free p k)" "in_use (sfs_filedescriptor_free p k) j \<longleftrightarrow> in_use p j \<and> j \<noteq> k"
    "j \<noteq> k \<Longrightarrow> get_slot (sfs_filedescriptor_free p k) j = get_slot p j"
proof -
  have "k < MAX_FDS" "k \<notin> free_fds p" using k pool_size_max [OF ok] by (auto simp: in_use_def)
  note f = fd_free_ok [OF ok this]
  then show "pool_ok (sfs_filedescriptor_free p k)" "in_use (sfs_filedescriptor_free p k) j \<longleftrightarrow> in_use p j \<and> j \<noteq> k"
    "j \<noteq> k \<Longrightarrow> get_slot (sfs_filedescriptor_free p k) j = get_slot p j"
    by (auto simp: in_use_def)
qed

lemma get_from_fd_ok:
  "sfs_filedescriptor_get_from_fd p (int k) = Some (if k < pool_size p then Some k else None)"
proof -
  have "k < SLOTS_PER_SLAB * length (slabs p) \<longleftrightarrow> k div SLOTS_PER_SLAB < length (slabs p)"
    by (simp add: div_less_iff_less_mult mult.commute)
  then show ?thesis
    by (cases "drop (k div SLOTS_PER_SLAB) (slabs p)")
      (auto simp: sfs_filedescriptor_get_from_fd_def Let_def slab_walk_drop pool_size_def)
qed

lemma deinit_walk_result: "s \<noteq> [] \<Longrightarrow> deinit_walk freed s = (freed @ butlast s, [last s])"
  by (induction freed s rule: deinit_walk.induct) auto

subsection \<open>The allocator contract\<close>

definition fresh_slab :: "slot list" where
  "fresh_slab = replicate SLOTS_PER_SLAB \<lparr>slot_fd = 0, slot_cell = Inumber 0, slot_flags = 0\<rparr>"

definition fd_alloc :: "pool \<Rightarrow> (nat \<times> pool) option" where
  "fd_alloc p = (case sfs_filedescriptor_allocate p (Some fresh_slab) of
     Some (Some k, p) \<Rightarrow> Some (k, p) | _ \<Rightarrow> None)"

definition fd_release :: "pool \<Rightarrow> nat \<Rightarrow> pool option" where
  "fd_release p k = Some (sfs_filedescriptor_free p k)"

lemma fd_allocate_limit:
  "pool_ok p \<Longrightarrow> free_fds p = {} \<Longrightarrow>
   sfs_filedescriptor_allocate p m = (case m of None \<Rightarrow> Some (None, p) | Some raw \<Rightarrow> None)"
proof (erule pool_okE)
  fix ks
  assume "free_fds p = {}" "fds_rep p ks" "free_fds p = set ks \<union> {pool_size p..<MAX_FDS}" "pool_size p \<le> MAX_FDS"
  then have "ks = []" "pool_size p = MAX_FDS" "freelist p = None" by (auto simp: fds_rep_def)
  then show ?thesis by (simp add: sfs_filedescriptor_allocate_def pool_size_def split: option.split)
qed

interpretation fds_alloc: exhaustible_allocator pool_ok free_fds "\<lambda>p k. k < MAX_FDS" fd_alloc fd_release
proof unfold_locales
  fix s
  assume "pool_ok s" "free_fds s \<noteq> {}"
  from fd_allocate_ok [OF this, of fresh_slab] obtain k p where
    "sfs_filedescriptor_allocate s (Some fresh_slab) = Some (Some k, p)" "pool_ok p" "k \<in> free_fds s"
    "free_fds p = free_fds s - {k}"
    by blast
  then show "\<exists>a s'. fd_alloc s = Some (a, s') \<and> pool_ok s' \<and> a \<in> free_fds s \<and> free_fds s' = free_fds s - {a} \<and>
      (\<lambda>k. k < MAX_FDS) = (\<lambda>k. k < MAX_FDS)"
    by (intro exI [of _ k] exI [of _ p]) (simp add: fd_alloc_def)
next
  fix s a
  assume "pool_ok s" "a < MAX_FDS" "a \<notin> free_fds s"
  then show "\<exists>s'. fd_release s a = Some s' \<and> pool_ok s' \<and> free_fds s' = insert a (free_fds s) \<and>
      (\<lambda>k. k < MAX_FDS) = (\<lambda>k. k < MAX_FDS)"
    using fd_free_ok by (simp add: fd_release_def)
next
  fix s a
  assume "pool_ok s" "a \<in> free_fds s"
  then show "a < MAX_FDS" by (elim pool_okE) (force simp: fds_rep_def)
next
  fix s
  assume "pool_ok s" "free_fds s = {}"
  then show "fd_alloc s = None" by (simp add: fd_alloc_def fd_allocate_limit)
qed

end
