(* ===== verification/Format.thy ===== *)
theory Format
  imports Inode_Alloc
begin

text \<open>
  Making and mounting a file system, \<^verbatim>\<open>src/src/fs.c\<close>: \<^verbatim>\<open>format_fs\<close> and \<^verbatim>\<open>sfs_fs_open_disk\<close>.
  What the environment contributes is passed as arguments: whether \<^verbatim>\<open>fstat\<close> succeeds, the user
  and group of the process, the memory \<^verbatim>\<open>malloc\<close> returns (its inode cache part, with arbitrary
  contents), and for which times \<^verbatim>\<open>asctime(localtime(..))\<close> yields a string.
\<close>

subsection \<open>Formatting\<close>

text \<open>\<^verbatim>\<open>S_IFDIR | S_IRWXU | S_IRGRP | S_IXGRP | S_IROTH | S_IXOTH\<close>.\<close>

abbreviation ROOT_MODE :: u32 where "ROOT_MODE \<equiv> 0x41ED"

text \<open>One step of the inner loop, on inode \<open>j\<close> of table block \<open>i\<close>.\<close>

definition format_inode :: "u32 \<Rightarrow> u32 \<Rightarrow> nat \<Rightarrow> nat \<Rightarrow> bytes \<times> u64 \<times> os \<Rightarrow> bytes \<times> u64 \<times> os" where
  "format_inode usr grp i j = (\<lambda>(tmp_block, next_free, d).
     if i = 1 \<and> j = 0
     then let (t, d) = time d
          in (put_inode 0 ((get_inode 0 tmp_block)\<lparr>inumber := 1, mode := ROOT_MODE, uid := usr, gid := grp,
                links := 1, access_time := t, change_time := t, modified_time := t, isize := 0\<rparr>) tmp_block,
              next_free, d)
     else (put_inode j ((empty_inode (next_free - 1))\<lparr>isize := next_free\<rparr>) tmp_block, next_free + 1, d))"

fun format_table :: "u32 \<Rightarrow> u32 \<Rightarrow> nat list \<Rightarrow> bytes \<times> u64 \<times> os \<Rightarrow> int \<times> bytes \<times> os" where
  "format_table usr grp [] (tmp_block, next_free, d) = (0, tmp_block, d)"
| "format_table usr grp (i # is) s =
     (let (tmp_block, next_free, d) = fold (format_inode usr grp i) [0, 1, 2] s;
          (r, d) = block_write d (of_nat i) tmp_block
      in if r \<noteq> 512 then (-1, tmp_block, d) else format_table usr grp is (tmp_block, next_free, d))"

text \<open>The loop that writes the free space index; \<open>None\<close> is its assertion failing.\<close>

fun format_index :: "u64 \<Rightarrow> u64 list \<Rightarrow> u64 \<Rightarrow> nat \<Rightarrow> bytes \<Rightarrow> os \<Rightarrow> (int \<times> u64 \<times> os) option" where
  "format_index first_free_block [] cur pos tmp_block d = Some (0, cur, d)"
| "format_index first_free_block (i # is) cur pos tmp_block d =
     (let (cur, pos) = (if pos = 64 then (cur + 1, 0) else (cur, pos))
      in if \<not> cur < first_free_block then None
         else let (tmp_block, pos) =
                    (if pos = 0
                     then (put_u64 0 (if cur < first_free_block - 1 then cur + 1 else 0) tmp_block, 1)
                     else (tmp_block, pos));
                  tmp_block = put_u64 pos i tmp_block;
                  pos = pos + 1
              in if pos = 64
                 then let (r, d) = block_write d cur tmp_block
                      in if r \<noteq> 512 then Some (-1, cur, d)
                         else format_index first_free_block is cur pos tmp_block d
                 else format_index first_free_block is cur pos tmp_block d)"

definition format_inode_table_blocks :: "u64 \<Rightarrow> u64" where
  "format_inode_table_blocks nblocks = (if (nblocks - 1) div 16 = 0 then 1 else (nblocks - 1) div 16)"

definition format_superblock :: "u64 \<Rightarrow> u64 \<Rightarrow> sfs_fs_superblock" where
  "format_superblock nblocks t =
     (let itb = format_inode_table_blocks nblocks
      in \<lparr>signature = SFS_FILE_TYPE_SIGNATURE, create_time = t, block_size = 512, inode_table_blocks = itb,
          inodes = itb * 3, blocks = nblocks, free_blocks_head = 2 + itb, free_inode_head = 2\<rparr>)"

definition format_first_free :: "sfs_fs_superblock \<Rightarrow> u64" where
  "format_first_free sb =
     (let free_blocks = blocks sb - free_blocks_head sb; slots_per_block = 63
      in free_blocks_head sb + free_blocks - free_blocks * slots_per_block div (slots_per_block + 1))"

definition format_fs :: "os \<Rightarrow> bool \<Rightarrow> u32 \<Rightarrow> u32 \<Rightarrow> (sfs_fs_superblock option \<times> os) option" where
  "format_fs d fstat_ok usr grp =
     (if \<not> fstat_ok then Some (None, d)
      else let nblocks = (of_nat (file_size d div BLOCK_SIZE) :: u64)
           in if nblocks < 3 then Some (None, d)
              else let (t, d) = time d;
                       sb = format_superblock nblocks t;
                       (r, tmp_block, d) =
                         format_table usr grp [1..<unat (inode_table_blocks sb) + 1] (zero_block, 3, d)
                   in if r \<noteq> 0 then Some (None, d)
                      else let first_free_block = format_first_free sb
                           in do {
                                (r, cur, d) \<leftarrow>
                                  format_index first_free_block
                                    (map of_nat [unat first_free_block..<unat (blocks sb)])
                                    (free_blocks_head sb) 0 tmp_block d;
                                if r \<noteq> 0 then Some (None, d)
                                else if cur \<noteq> first_free_block - 1 then None
                                else let (r, d) = write_superblock d sb
                                     in Some (if r \<noteq> 0 then None else Some sb, d)
                              })"

subsection \<open>Mounting\<close>

definition sfs_fs_open_disk ::
  "os \<Rightarrow> bool \<Rightarrow> inode_cache option \<Rightarrow> (u64 \<Rightarrow> bool) \<Rightarrow> bool \<Rightarrow> u32 \<Rightarrow> u32 \<Rightarrow> (filesystem option \<times> os) option" where
  "sfs_fs_open_disk d maybe_format malloc_fs asctime_ok fstat_ok usr grp =
     (case malloc_fs of
        None \<Rightarrow> Some (None, d)
      | Some raw \<Rightarrow>
          let (r, superblock_data, d) = block_read d 0 zero_block
          in if r \<noteq> 512 then Some (None, d)
             else do {
               (sb, d) \<leftarrow>
                 (if signature (decode_superblock superblock_data) \<noteq> SFS_FILE_TYPE_SIGNATURE
                  then format_fs d fstat_ok usr grp
                  else Some (Some (decode_superblock superblock_data), d));
               (case sb of
                  None \<Rightarrow> Some (None, d)
                | Some sb \<Rightarrow>
                    if \<not> asctime_ok (create_time (decode_superblock superblock_data)) then None
                    else Some (Some \<lparr>disk = d, superblock = sb, inode_cache = raw\<lparr>cache_block := 0\<rparr>\<rparr>, d))
             })"

subsection \<open>Unmounting and mounting again\<close>

lemma cached_0 [simp]: "cached \<lparr>disk = d, superblock = sb, inode_cache = c\<lparr>cache_block := 0\<rparr>\<rparr> = 0"
  by (simp add: cached_def)

definition closed :: "filesystem \<Rightarrow> os" where
  "closed fs = store (disk (flush fs)) 0 (put_bytes 0 (encode_superblock (superblock fs)) zero_block)"

lemma sfs_fs_close_ok:
  assumes "fs_ok fs"
  shows "sfs_fs_close fs = (0, closed fs)"
proof -
  have len: "length (put_bytes 0 (encode_superblock (superblock fs)) zero_block) = BLOCK_SIZE"
    using assms by (simp add: length_put_bytes length_encode_superblock fs_okD)
  have "in_file (disk (flush fs)) 0"
    using table_block_in_file [OF assms, of 0] by (simp add: in_file_def)
  with assms len show ?thesis
    by (simp add: sfs_fs_close_def cache_write_back_ok write_superblock_def closed_def block_write_ok)
qed

lemma closed_blocks:
  assumes "fs_ok fs"
  shows "1 \<le> b \<Longrightarrow> b \<le> unat (inode_table_blocks (superblock fs)) \<Longrightarrow> file_blocks (closed fs) b = inode_block fs b"
    "unat (inode_table_blocks (superblock fs)) < b \<Longrightarrow> file_blocks (closed fs) b = file_blocks (disk fs) b"
    "file_blocks (closed fs) 0 = put_bytes 0 (encode_superblock (superblock fs)) zero_block"
  using assms flush_table [OF assms] flush_data [OF assms] by (simp_all add: closed_def)

lemma closed_os:
  assumes "fs_ok fs"
  shows "wf_os (closed fs)" "no_faults (closed fs)" "file_size (closed fs) = file_size (disk fs)" "in_file (closed fs) 0"
  using assms table_block_in_file [OF assms, of 0]
  by (simp_all add: closed_def length_put_bytes length_encode_superblock fs_okD in_file_def)

lemma open_closed:
  assumes ok: "fs_ok fs"
    and raw: "length (data raw) = BLOCK_SIZE" and t: "asctime_ok (create_time (superblock fs))"
  shows "\<exists>fs2. sfs_fs_open_disk (closed fs) mf (Some raw) asctime_ok fok usr grp = Some (Some fs2, disk fs2) \<and>
    fs_ok fs2 \<and> abs_fs fs2 = abs_fs fs"
proof -
  note sig = fs_okD(7) [OF ok]
  let ?fs2 = "\<lparr>disk = advance (closed fs), superblock = superblock fs, inode_cache = raw\<lparr>cache_block := 0\<rparr>\<rparr>"
  note c = closed_blocks [OF ok] and co = closed_os [OF ok]
  have len: "length (encode_superblock (superblock fs)) = 72"
    using ok by (simp add: length_encode_superblock fs_okD)
  have dec: "decode_superblock (file_blocks (closed fs) 0) = superblock fs"
    using ok len by (simp add: c(3) put_bytes_def decode_encode_superblock fs_okD)
  have "sfs_fs_open_disk (closed fs) mf (Some raw) asctime_ok fok usr grp = Some (Some ?fs2, disk ?fs2)"
    using co sig t by (simp add: sfs_fs_open_disk_def block_read_ok dec)
  moreover have "fs_ok ?fs2"
    using ok raw co len unfolding fs_ok_def
    by (simp add: cache_ok_def)
  moreover have "abs_fs ?fs2 = abs_fs fs"
  proof -
    have "inode_block ?fs2 b = inode_block fs b" if "1 \<le> b" "b \<le> unat (inode_table_blocks (superblock fs))" for b
      using that c(1) by (simp add: inode_block_def [of ?fs2])
    then show ?thesis
      using c(2) ino_block_word [OF fs_okD(3) [OF ok]]
      by (simp add: abs_fs_def fun_eq_iff valid_block_def)
  qed
  ultimately show ?thesis by blast
qed

text \<open>
  The flag \<open>dirty\<close> of the memory \<^verbatim>\<open>malloc\<close> returned is not cleared. When it happens to be set, the first
  access to an inode writes that memory over the superblock on the disk; unmounting puts it back.
\<close>

lemma overwritten_superblock:
  assumes ok: "fs_ok fs" and raw: "dirty raw" "length (data raw) = BLOCK_SIZE"
    and t: "asctime_ok (create_time (superblock fs))" and n: "valid_ino (superblock fs) n"
  shows "\<exists>f f'. sfs_fs_open_disk (closed fs) mf (Some raw) asctime_ok fok usr grp = Some (Some f, disk f) \<and>
    file_blocks (disk f) 0 = put_bytes 0 (encode_superblock (superblock fs)) zero_block \<and>
    sfs_fs_read_inode f n = Some (Some (a_inode (abs_fs fs) n), f') \<and> file_blocks (disk f') 0 = data raw \<and>
    file_blocks (snd (sfs_fs_close f')) 0 = put_bytes 0 (encode_superblock (superblock fs)) zero_block"
proof -
  let ?f = "\<lparr>disk = advance (closed fs), superblock = superblock fs, inode_cache = raw\<lparr>cache_block := 0\<rparr>\<rparr>"
  obtain f where f: "sfs_fs_open_disk (closed fs) mf (Some raw) asctime_ok fok usr grp = Some (Some f, disk f)" "fs_ok f" "abs_fs f = abs_fs fs"
    using open_closed [where asctime_ok = asctime_ok, OF ok raw(2) t] by blast
  have dec: "decode_superblock (file_blocks (closed fs) 0) = superblock fs"
    using ok by (simp add: closed_blocks(3) put_bytes_def decode_encode_superblock length_encode_superblock fs_okD)
  have ff: "f = ?f"
    using f(1) closed_os [OF ok] t fs_okD(7) [OF ok] by (auto simp: sfs_fs_open_disk_def block_read_ok dec)
  have s: "superblock f = superblock fs" "cached f = 0" "dirty (inode_cache f)" "data (inode_cache f) = data raw"
    using raw(1) by (simp_all add: ff)
  have n': "valid_ino (superblock f) n" using n s(1) by simp
  let ?bn = "(n - 1) div 3 + 1 :: u64"
  have "?bn \<noteq> 0" using ino_block_word(1,5) [OF fs_okD(3) [OF f(2)] n'] by auto
  then have "file_blocks (disk (after_read f n)) 0 = data raw"
    using s by (simp add: after_read_def load_def flush_def)
  moreover have "file_blocks (disk f) 0 = put_bytes 0 (encode_superblock (superblock fs)) zero_block"
    using closed_blocks(3) [OF ok] by (simp add: ff)
  moreover have "file_blocks (snd (sfs_fs_close (after_read f n))) 0 = put_bytes 0 (encode_superblock (superblock fs)) zero_block"
    using closed_blocks(3) [of "after_read f n"] f(2) n' s(1) by (simp add: sfs_fs_close_ok)
  ultimately show ?thesis using f sfs_fs_read_inode_ok [OF f(2) n'] by auto
qed

end
