(* ===== verification/Sfs_Ops.thy ===== *)
theory Sfs_Ops
  imports Dir_Unlink Fd_Pool Format "HOL-Library.Signed_Division"
begin

text \<open>
  The FUSE operations of \<^verbatim>\<open>src/src/sfs.c\<close> on the state of \<^verbatim>\<open>src/src/params.h\<close>.

  Every operation but \<^verbatim>\<open>sfs_mkdir\<close> and \<^verbatim>\<open>sfs_rmdir\<close> holds the mutex from its first statement to its
  return, so the operations of several threads are executed one after the other; an operation
  that finds the mutex held by an operation that has returned waits for ever, which is \<open>None\<close>.
  The pointers \<^verbatim>\<open>fs\<close> and \<^verbatim>\<open>fd_pool\<close> are optional, and the assertion in the callee that such a
  pointer is not null is the bind on the option.

  What an operation takes from its environment is in a record: whether \<^verbatim>\<open>strdup\<close> succeeds, the
  results of \<^verbatim>\<open>malloc\<close>, the FUSE context, the initial bytes of the block on the stack, and what a
  word of freed memory reads as, given what it held.
\<close>

unbundle bit_operations_syntax

subsection \<open>State and environment\<close>

record sfs_state =
  st_locked :: bool
  st_disk :: os
  st_pool :: "pool option"
  st_fs :: "filesystem option"

record sfs_env =
  strdup_ok :: bool
  iter_mem :: "nat \<Rightarrow> bytes option"
  slab_mem :: "slot list option"
  caller_uid :: u32
  caller_gid :: u32
  caller_umask :: u32
  stack_block :: bytes
  freed :: "u64 \<Rightarrow> u64"

record fuse_file_info =
  fi_flags :: u32
  fi_fh :: u64

record stat =
  st_ino :: u64
  st_mode :: u32
  st_nlink :: u64
  st_uid :: u32
  st_gid :: u32
  st_atime :: u64
  st_mtime :: u64
  st_ctime :: u64
  st_size :: u64

abbreviation ENOENT :: int where "ENOENT \<equiv> 2"
abbreviation ENOMEM :: int where "ENOMEM \<equiv> 12"
abbreviation EACCES :: int where "EACCES \<equiv> 13"
abbreviation EEXIST :: int where "EEXIST \<equiv> 17"
abbreviation ENOTDIR :: int where "ENOTDIR \<equiv> 20"
abbreviation ENAMETOOLONG :: int where "ENAMETOOLONG \<equiv> 36"
abbreviation EDQUOT :: int where "EDQUOT \<equiv> 122"
abbreviation O_EXCL :: u32 where "O_EXCL \<equiv> 128"
abbreviation PATH_MAX :: nat where "PATH_MAX \<equiv> 4096"

subsection \<open>Parts the operations share\<close>

text \<open>\<^verbatim>\<open>SFS_LOCK_OR_FAIL\<close> at the start of an operation and \<^verbatim>\<open>SFS_UNLOCK_OR_FAIL\<close> at each of its returns.\<close>

definition critical :: "sfs_state \<Rightarrow> (sfs_state \<Rightarrow> ('r \<times> sfs_state) option) \<Rightarrow> ('r \<times> sfs_state) option" where
  "critical s body =
     (if st_locked s then None
      else do { (r, s) \<leftarrow> body (s\<lparr>st_locked := True\<rparr>); Some (r, s\<lparr>st_locked := False\<rparr>) })"

text \<open>
  The path checks: \<^verbatim>\<open>dirname\<close> of a copy (\<^verbatim>\<open>dirname(NULL)\<close> is \<^verbatim>\<open>"."\<close>), \<^verbatim>\<open>basename\<close> of a second copy
  in an array of \<^verbatim>\<open>PATH_MAX\<close> bytes, which has no terminating zero when the path does not fit.
\<close>

definition path_name :: "sfs_env \<Rightarrow> bytes \<Rightarrow> (int + bytes) option" where
  "path_name env path =
     (if (if strdup_ok env then dirname path else [DOT]) \<noteq> [SLASH] then Some (Inl (- ENOENT))
      else if PATH_MAX \<le> length path then None
      else let name = basename path
           in if 255 < length name then Some (Inl (- ENAMETOOLONG)) else Some (Inr name))"

definition open_root :: "sfs_env \<Rightarrow> bytes \<Rightarrow> sfs_state \<Rightarrow> ((int + bytes \<times> sfs_fs_inode) \<times> sfs_state) option" where
  "open_root env path s = do {
     p \<leftarrow> path_name env path;
     case p of
       Inl e \<Rightarrow> Some (Inl e, s)
     | Inr name \<Rightarrow> do {
         f \<leftarrow> st_fs s;
         (r, f) \<leftarrow> sfs_dir_root f;
         Some (case r of None \<Rightarrow> Inl (- ENOENT) | Some directory \<Rightarrow> Inr (name, directory), s\<lparr>st_fs := Some f\<rparr>)
       }
   }"

text \<open>\<^verbatim>\<open>while ((iter = sfs_dir_iternext(iter, &direntry, NULL)) != NULL)\<close>, up to the entry with this name.\<close>

partial_function (option) find_name ::
  "filesystem \<Rightarrow> dir_iterator \<Rightarrow> bytes \<Rightarrow> (nat option \<times> dir_iterator \<times> filesystem) option" where
  "find_name f it name = do {
     (r, it, f) \<leftarrow> sfs_dir_iternext f it False;
     case r of
       None \<Rightarrow> Some (None, it, f)
     | Some (j, inode) \<Rightarrow>
         if strncmp_eq 256 (de_name (get_entry j (cached_block it))) name then Some (Some j, it, f)
         else find_name f it name
   }"

definition scan_dir ::
  "sfs_env \<Rightarrow> filesystem \<Rightarrow> sfs_fs_inode \<Rightarrow> bytes \<Rightarrow> ((nat option \<times> dir_iterator) option \<times> filesystem) option" where
  "scan_dir env f directory name = do {
     it \<leftarrow> sfs_dir_iterate (iter_mem env 0) directory;
     case it of
       None \<Rightarrow> Some (None, f)
     | Some it \<Rightarrow> do { (r, it, f) \<leftarrow> find_name f it name; Some (Some (r, it), f) }
   }"

text \<open>The allocation of a descriptor at the end of \<^verbatim>\<open>sfs_create\<close>, \<^verbatim>\<open>sfs_open\<close> and \<^verbatim>\<open>sfs_opendir\<close>.\<close>

definition open_fd ::
  "sfs_env \<Rightarrow> u64 \<Rightarrow> fuse_file_info \<Rightarrow> sfs_state \<Rightarrow> ((int \<times> fuse_file_info) \<times> sfs_state) option" where
  "open_fd env inum fi s = do {
     p \<leftarrow> st_pool s;
     (r, p) \<leftarrow> sfs_filedescriptor_allocate p (slab_mem env);
     case r of
       None \<Rightarrow> Some ((- ENOMEM, fi), s\<lparr>st_pool := Some p\<rparr>)
     | Some k \<Rightarrow>
         let p = sfs_fd_set p k inum (scast (fi_flags fi))
         in Some ((0, fi\<lparr>fi_fh := of_int (slot_fd (get_slot p k))\<rparr>), s\<lparr>st_pool := Some p\<rparr>)
   }"

text \<open>The handle of an open file, a 64-bit field passed as an \<^verbatim>\<open>int\<close>, and the slot it stands for.\<close>

definition handle_slot :: "fuse_file_info \<Rightarrow> sfs_state \<Rightarrow> (nat option \<times> pool) option" where
  "handle_slot fi s = do {
     p \<leftarrow> st_pool s;
     k \<leftarrow> sfs_filedescriptor_get_from_fd p (sint (ucast (fi_fh fi) :: u32));
     Some (k, p)
   }"

definition sfs_fs_inode_to_stat :: "sfs_fs_inode \<Rightarrow> stat" where
  "sfs_fs_inode_to_stat inode =
     \<lparr>st_ino = inumber inode, st_mode = mode inode, st_nlink = ucast (links inode), st_uid = uid inode,
      st_gid = gid inode, st_atime = access_time inode, st_mtime = modified_time inode,
      st_ctime = change_time inode, st_size = isize inode\<rparr>"

subsection \<open>Mounting and unmounting\<close>

text \<open>
  \<^verbatim>\<open>sfs_init\<close>; the flag of the result is \<^verbatim>\<open>kill(getpid(), SIGTERM)\<close>. The arguments are what the
  allocators, \<^verbatim>\<open>fstat\<close>, \<^verbatim>\<open>asctime\<close>, \<^verbatim>\<open>getuid\<close> and \<^verbatim>\<open>getgid\<close> answer.
\<close>

definition sfs_init ::
  "bool \<Rightarrow> slot list option \<Rightarrow> (nat \<Rightarrow> u64) \<Rightarrow> inode_cache option \<Rightarrow> (u64 \<Rightarrow> bool) \<Rightarrow> bool \<Rightarrow> u32 \<Rightarrow> u32 \<Rightarrow>
   sfs_state \<Rightarrow> (bool \<times> sfs_state) option" where
  "sfs_init malloc_pool malloc_slab addr malloc_fs asctime_ok fstat_ok usr grp s0 =
     critical s0 (\<lambda>s.
       case sfs_filedescriptor_pool_init malloc_pool malloc_slab addr of
         None \<Rightarrow> Some (True, s\<lparr>st_pool := None\<rparr>)
       | Some p \<Rightarrow> do {
           (f, d) \<leftarrow> sfs_fs_open_disk (st_disk s) True malloc_fs asctime_ok fstat_ok usr grp;
           Some (f = None, s\<lparr>st_pool := Some p, st_fs := f, st_disk := d\<rparr>)
         })"

text \<open>\<^verbatim>\<open>sfs_destroy\<close>: what remains is the disk file.\<close>

definition sfs_destroy :: "sfs_state \<Rightarrow> (unit \<times> sfs_state) option" where
  "sfs_destroy s0 = critical s0 (\<lambda>s. do {
     d \<leftarrow> (case st_fs s of None \<Rightarrow> Some (st_disk s) | Some f \<Rightarrow> Some (snd (sfs_fs_close f)));
     p \<leftarrow> (case st_pool s of
             None \<Rightarrow> Some None
           | Some p \<Rightarrow> do { (freed_slabs, p) \<leftarrow> sfs_filedescriptor_pool_deinit p; Some (Some p) });
     Some ((), s\<lparr>st_disk := d, st_pool := p\<rparr>)
   })"

subsection \<open>Attributes, creation, removal\<close>

definition sfs_getattr :: "sfs_env \<Rightarrow> bytes \<Rightarrow> sfs_state \<Rightarrow> ((int \<times> stat option) \<times> sfs_state) option" where
  "sfs_getattr env path s0 = critical s0 (\<lambda>s. do {
     (r, s) \<leftarrow> open_root env path s;
     case r of
       Inl e \<Rightarrow> Some ((e, None), s)
     | Inr (name, directory) \<Rightarrow>
         if path = [SLASH] then Some ((0, Some (sfs_fs_inode_to_stat directory)), s)
         else do {
           f \<leftarrow> st_fs s;
           (r, f) \<leftarrow> scan_dir env f directory name;
           case r of
             None \<Rightarrow> Some ((-1, None), s\<lparr>st_fs := Some f\<rparr>)
           | Some (None, it) \<Rightarrow> Some ((- ENOENT, None), s\<lparr>st_fs := Some f\<rparr>)
           | Some (Some j, it) \<Rightarrow> do {
               (r, f) \<leftarrow> sfs_fs_read_inode f (freed env (de_inumber (get_entry j (cached_block it))));
               Some (case r of
                       None \<Rightarrow> (-1, None)
                     | Some file \<Rightarrow> (0, Some (sfs_fs_inode_to_stat file)), s\<lparr>st_fs := Some f\<rparr>)
             }
         }
   })"

text \<open>The new inode of \<^verbatim>\<open>sfs_create\<close> and its link; the result is the error to return or the inode number.\<close>

definition new_file ::
  "sfs_env \<Rightarrow> u32 \<Rightarrow> filesystem \<Rightarrow> sfs_fs_inode \<Rightarrow> bytes \<Rightarrow> ((int + u64) \<times> filesystem) option" where
  "new_file env cmode f directory name = do {
     (r, f) \<leftarrow> sfs_fs_inode_allocate f;
     case r of
       None \<Rightarrow> Some (Inl (- EDQUOT), f)
     | Some file \<Rightarrow>
         let (t1, d) = time (disk f);
             (t2, d) = time d;
             (t3, d) = time d;
             f = f\<lparr>disk := d\<rparr>;
             file = file\<lparr>mode := (0xFFF AND cmode AND NOT (caller_umask env)) OR S_IFREG,
                         uid := caller_uid env,
                         gid := (if mode directory AND S_ISGID \<noteq> 0 then gid file else caller_gid env),
                         links := 1, access_time := t1, modified_time := t2, change_time := t3, isize := 0,
                         block_pointers := replicate SFS_N_BLOCKS 0\<rparr>
         in do {
              (r, f) \<leftarrow> sfs_fs_write_inode f file;
              if r \<noteq> 0 then Some (Inl (-1), f)
              else do {
                (r, directory, file', f) \<leftarrow> sfs_dir_link f directory name file;
                Some (if r \<noteq> 0 then Inl (-1) else Inr (inumber file), f)
              }
            }
   }"

text \<open>\<^verbatim>\<open>++file.links; file.change_time = time(NULL); sfs_fs_write_inode(..)\<close> on an existing file.\<close>

definition add_link :: "filesystem \<Rightarrow> u64 \<Rightarrow> ((int + sfs_fs_inode) \<times> filesystem) option" where
  "add_link f inum = do {
     (r, f) \<leftarrow> sfs_fs_read_inode f inum;
     case r of
       None \<Rightarrow> Some (Inl (-1), f)
     | Some file \<Rightarrow>
         let (t, d) = time (disk f);
             f = f\<lparr>disk := d\<rparr>;
             file = file\<lparr>links := links file + 1, change_time := t\<rparr>
         in do {
              (r, f) \<leftarrow> sfs_fs_write_inode f file;
              Some (if r \<noteq> 0 then Inl (-1) else Inr file, f)
            }
   }"

text \<open>
  \<^verbatim>\<open>sfs_create\<close>. An entry that the iterator returns has an inode number other than 0, so the file
  is created exactly when no entry matched. After the scan the variable \<^verbatim>\<open>directory\<close> is the one the
  iterator has updated.
\<close>

definition sfs_create ::
  "sfs_env \<Rightarrow> bytes \<Rightarrow> u32 \<Rightarrow> fuse_file_info \<Rightarrow> sfs_state \<Rightarrow> ((int \<times> fuse_file_info) \<times> sfs_state) option" where
  "sfs_create env path cmode fi s0 = critical s0 (\<lambda>s. do {
     (r, s) \<leftarrow> open_root env path s;
     case r of
       Inl e \<Rightarrow> Some ((e, fi), s)
     | Inr (name, directory) \<Rightarrow> do {
         f \<leftarrow> st_fs s;
         (r, f) \<leftarrow> scan_dir env f directory name;
         case r of
           None \<Rightarrow> Some ((-1, fi), s\<lparr>st_fs := Some f\<rparr>)
         | Some (Some j, it) \<Rightarrow>
             let found_inumber = de_inumber (get_entry j (cached_block it))
             in if fi_flags fi AND O_EXCL \<noteq> 0 then Some ((- EEXIST, fi), s\<lparr>st_fs := Some f\<rparr>)
                else do {
                  (r, f) \<leftarrow> add_link f found_inumber;
                  case r of
                    Inl e \<Rightarrow> Some ((e, fi), s\<lparr>st_fs := Some f\<rparr>)
                  | Inr file \<Rightarrow> open_fd env found_inumber fi (s\<lparr>st_fs := Some f\<rparr>)
                }
         | Some (None, it) \<Rightarrow> do {
             (r, f) \<leftarrow> new_file env cmode f (it_inode it) name;
             case r of
               Inl e \<Rightarrow> Some ((e, fi), s\<lparr>st_fs := Some f\<rparr>)
             | Inr found_inumber \<Rightarrow> open_fd env found_inumber fi (s\<lparr>st_fs := Some f\<rparr>)
           }
       }
   })"

definition sfs_unlink :: "sfs_env \<Rightarrow> bytes \<Rightarrow> sfs_state \<Rightarrow> (int \<times> sfs_state) option" where
  "sfs_unlink env path s0 = critical s0 (\<lambda>s. do {
     (r, s) \<leftarrow> open_root env path s;
     case r of
       Inl e \<Rightarrow> Some (e, s)
     | Inr (name, directory) \<Rightarrow>
         if path = [SLASH] then Some (- EACCES, s)
         else do {
           f \<leftarrow> st_fs s;
           (r, f) \<leftarrow> scan_dir env f directory name;
           case r of
             None \<Rightarrow> Some (-1, s\<lparr>st_fs := Some f\<rparr>)
           | Some (None, it) \<Rightarrow> Some (- ENOENT, s\<lparr>st_fs := Some f\<rparr>)
           | Some (Some j, it) \<Rightarrow> do {
               (r, it, f) \<leftarrow> sfs_dir_iter_unlink f it j;
               Some (if r \<noteq> 0 then -1 else 0, s\<lparr>st_fs := Some f\<rparr>)
             }
         }
   })"

subsection \<open>Open files\<close>

definition sfs_open ::
  "sfs_env \<Rightarrow> bytes \<Rightarrow> fuse_file_info \<Rightarrow> sfs_state \<Rightarrow> ((int \<times> fuse_file_info) \<times> sfs_state) option" where
  "sfs_open env path fi s0 = critical s0 (\<lambda>s. do {
     (r, s) \<leftarrow> open_root env path s;
     case r of
       Inl e \<Rightarrow> Some ((e, fi), s)
     | Inr (name, directory) \<Rightarrow> do {
         f \<leftarrow> st_fs s;
         (r, f) \<leftarrow> scan_dir env f directory name;
         case r of
           None \<Rightarrow> Some ((-1, fi), s\<lparr>st_fs := Some f\<rparr>)
         | Some (None, it) \<Rightarrow> Some ((- ENOENT, fi), s\<lparr>st_fs := Some f\<rparr>)
         | Some (Some j, it) \<Rightarrow> do {
             (r, f) \<leftarrow> add_link f (de_inumber (get_entry j (cached_block it)));
             case r of
               Inl e \<Rightarrow> Some ((e, fi), s\<lparr>st_fs := Some f\<rparr>)
             | Inr file \<Rightarrow> open_fd env (inumber file) fi (s\<lparr>st_fs := Some f\<rparr>)
           }
       }
   })"

definition sfs_release :: "fuse_file_info \<Rightarrow> sfs_state \<Rightarrow> (int \<times> sfs_state) option" where
  "sfs_release fi s0 = critical s0 (\<lambda>s. do {
     (k, p) \<leftarrow> handle_slot fi s;
     case k of
       None \<Rightarrow> Some (-1, s)
     | Some k \<Rightarrow> do {
         f \<leftarrow> st_fs s;
         (r, f) \<leftarrow> sfs_fs_read_inode f (sfs_fd_inumber p k);
         case r of
           None \<Rightarrow> Some (-1, s\<lparr>st_fs := Some f\<rparr>)
         | Some inode \<Rightarrow>
             if links inode = 0 then None
             else let (t, d) = time (disk f);
                      f = f\<lparr>disk := d\<rparr>
                  in do {
                       (r, f) \<leftarrow> drop_link f (inode\<lparr>links := links inode - 1, change_time := t\<rparr>);
                       if r \<noteq> 0 then Some (-1, s\<lparr>st_fs := Some f\<rparr>)
                       else Some (0, s\<lparr>st_fs := Some f, st_pool := Some (sfs_filedescriptor_free p k)\<rparr>)
                     }
       }
   })"

definition sfs_mkdir :: "bytes \<Rightarrow> u32 \<Rightarrow> int" where
  "sfs_mkdir path cmode = 0"

definition sfs_rmdir :: "bytes \<Rightarrow> int" where
  "sfs_rmdir path = (if path = [SLASH] then -1 else 0)"

end
