(* ===== verification/Sfs_Io.thy ===== *)
theory Sfs_Io
  imports Sfs_Ops
begin

text \<open>
  Reading and writing files and reading directories, \<^verbatim>\<open>sfs_read\<close>, \<^verbatim>\<open>sfs_write\<close>, \<^verbatim>\<open>sfs_opendir\<close>,
  \<^verbatim>\<open>sfs_readdir\<close> and \<^verbatim>\<open>sfs_releasedir\<close> of \<^verbatim>\<open>src/src/sfs.c\<close>.

  The buffer of the caller is a list of bytes and a pointer into it is an offset, an integer since
  the code moves \<^verbatim>\<open>buf\<close> to before the start of the buffer. An access outside the buffer is
  undefined and gives \<open>None\<close>. The block \<^verbatim>\<open>tmp_block\<close> on the stack is not initialised by the code;
  its first contents are a part of the environment.
\<close>

unbundle bit_operations_syntax

subsection \<open>Accesses to the caller's buffer\<close>

definition peek :: "bytes \<Rightarrow> int \<Rightarrow> nat \<Rightarrow> bytes option" where
  "peek buf off n = (if 0 \<le> off \<and> off + int n \<le> int (length buf) then Some (get_bytes (nat off) n buf) else None)"

definition poke :: "bytes \<Rightarrow> int \<Rightarrow> bytes \<Rightarrow> bytes option" where
  "poke buf off v = (if 0 \<le> off \<and> off + int (length v) \<le> int (length buf) then Some (put_bytes (nat off) v buf) else None)"

subsection \<open>The blocks of a request\<close>

text \<open>
  The variables computed before the loop, from an \<^verbatim>\<open>off_t\<close> and a \<^verbatim>\<open>size_t\<close>: the signed offset is
  divided with truncation, the sum with the size is a 64-bit unsigned number.
\<close>

record span =
  first_block :: u64
  first_block_offset :: u64
  last_block :: u64
  last_block_len :: u64

definition request_span :: "u64 \<Rightarrow> int \<Rightarrow> span" where
  "request_span sz offset =
     (let len = (of_int offset + sz) mod 512;
          len = (if len = 0 then 512 else len);
          lst = (of_int offset + sz) div 512
      in \<lparr>first_block = of_int (offset sdiv 512), first_block_offset = of_int (offset smod 512),
          last_block = (if len = 512 then lst - 1 else lst), last_block_len = len\<rparr>)"

definition span_blocks :: "span \<Rightarrow> u64 list" where
  "span_blocks sp = map of_nat [unat (first_block sp)..<unat (last_block sp) + 1]"

definition slice :: "span \<Rightarrow> u64 \<Rightarrow> u64 \<times> u64" where
  "slice sp iblock =
     (if iblock = first_block sp \<and> first_block_offset sp \<noteq> 0 then first_block_offset sp else 0,
      if iblock = last_block sp \<and> last_block_len sp \<noteq> 512 then last_block_len sp else 512)"

text \<open>\<^verbatim>\<open>buf\<close> after \<^verbatim>\<open>buf -= first_block_offset\<close>, as an offset into the caller's buffer.\<close>

definition buf_base :: "span \<Rightarrow> int" where
  "buf_base sp = - uint (first_block_offset sp)"

subsection \<open>Reading\<close>

text \<open>
  A whole block is read into the caller's buffer itself, so that the buffer is accessed as soon as the
  number of the block has been found. The result is \<open>None\<close> when a block cannot be read; then the contents
  of the buffer are not defined.
\<close>

fun read_loop :: "filesystem \<Rightarrow> sfs_fs_inode \<Rightarrow> span \<Rightarrow> bytes \<Rightarrow> u64 list \<Rightarrow> (bytes option \<times> filesystem) option" where
  "read_loop f inode sp buf [] = Some (Some buf, f)"
| "read_loop f inode sp buf (iblock # rest) =
     (let (slice_a, slice_b) = slice sp iblock;
          whole = (slice_a = 0 \<and> slice_b = 512);
          target = buf_base sp + 512 * uint iblock
      in case block_to_read f inode iblock of
           (None, f) \<Rightarrow> Some (None, f)
         | (Some block_number, f) \<Rightarrow>
             if whole \<and> peek buf target BLOCK_SIZE = None then None
             else (case fill_block f block_number of
                     (None, f) \<Rightarrow> Some (None, f)
                   | (Some block, f) \<Rightarrow> do {
                       buf \<leftarrow> (if whole then poke buf target block
                              else if slice_a = 0
                              then poke buf (buf_base sp + uint slice_a)
                                     (get_bytes (unat slice_a) (unat (slice_b - slice_a)) block)
                              else Some buf);
                       read_loop f inode sp buf rest
                     }))"

lemma read_loop_Cons:
  assumes r: "sfs_fs_inode_block_read f inode iblock = (Some block, f1)" "length block = BLOCK_SIZE" and sl: "slice sp iblock = (a, b)"
  shows "read_loop f inode sp buf (iblock # rest) = do {
      buf \<leftarrow> (if a = 0 \<and> b = 512 then poke buf (buf_base sp + 512 * uint iblock) block
             else if a = 0 then poke buf (buf_base sp + uint a) (get_bytes (unat a) (unat (b - a)) block)
             else Some buf);
      read_loop f1 inode sp buf rest }"
proof -
  obtain n f0 where "block_to_read f inode iblock = (Some n, f0)" "fill_block f0 n = (Some block, f1)"
    using r(1) by (auto simp: sfs_fs_inode_block_read_def split: prod.splits option.splits)
  then show ?thesis using r(2) by (auto simp: sl peek_def poke_def Let_def)
qed

definition sfs_read ::
  "bytes \<Rightarrow> u64 \<Rightarrow> int \<Rightarrow> fuse_file_info \<Rightarrow> sfs_state \<Rightarrow> ((int \<times> bytes option) \<times> sfs_state) option" where
  "sfs_read buf sz offset fi s0 = critical s0 (\<lambda>s.
     if sz = 0 then Some ((0, Some buf), s)
     else do {
       (k, p) \<leftarrow> handle_slot fi s;
       case k of
         None \<Rightarrow> Some ((-1, Some buf), s)
       | Some k \<Rightarrow> do {
           f \<leftarrow> st_fs s;
           (r, f) \<leftarrow> sfs_fs_read_inode f (sfs_fd_inumber p k);
           case r of
             None \<Rightarrow> Some ((-1, Some buf), s\<lparr>st_fs := Some f\<rparr>)
           | Some inode \<Rightarrow>
               let (t, d) = time (disk f);
                   f = f\<lparr>disk := d\<rparr>;
                   inode = inode\<lparr>access_time := t\<rparr>
               in do {
                    (r, f) \<leftarrow> sfs_fs_write_inode f inode;
                    if r \<noteq> 0 then Some ((-1, Some buf), s\<lparr>st_fs := Some f\<rparr>)
                    else let sp = request_span sz offset
                         in do {
                              (r, f) \<leftarrow> read_loop f inode sp buf (span_blocks sp);
                              Some ((case r of None \<Rightarrow> -1 | Some buf \<Rightarrow> sint (ucast sz :: u32), r),
                                    s\<lparr>st_fs := Some f\<rparr>)
                            }
                  }
         }
     })"

subsection \<open>Writing\<close>

fun write_loop ::
  "filesystem \<Rightarrow> sfs_fs_inode \<Rightarrow> span \<Rightarrow> bytes \<Rightarrow> bytes \<Rightarrow> u64 list \<Rightarrow> (int \<times> filesystem) option" where
  "write_loop f inode sp buf tmp_block [] = Some (0, f)"
| "write_loop f inode sp buf tmp_block (iblock # rest) =
     (let (slice_a, slice_b) = slice sp iblock
      in do {
        (r, tmp_block, f) \<leftarrow>
          (if slice_a = 0 \<and> slice_b \<noteq> 512
           then (case sfs_fs_inode_block_read f inode iblock of
                   (None, f) \<Rightarrow> Some (-1 :: int, tmp_block, f)
                 | (Some block, f) \<Rightarrow> do {
                     v \<leftarrow> peek buf (buf_base sp + uint slice_a) (unat (slice_b - slice_a));
                     Some (0, put_bytes (unat slice_a) v block, f)
                   })
           else Some (0, tmp_block, f));
        if r \<noteq> 0 then Some (-1, f)
        else do {
          (r, inode, f) \<leftarrow> block_to_write f inode iblock;
          (case r of
             None \<Rightarrow> Some (-1, f)
           | Some block_number \<Rightarrow> do {
               source \<leftarrow> (if slice_a = 0 \<and> slice_b = 512 then peek buf (buf_base sp + 512 * uint iblock) BLOCK_SIZE
                         else Some tmp_block);
               let (r, f) = put_out_block f block_number source in
               if r \<noteq> 0 then Some (-1, f) else write_loop f inode sp buf tmp_block rest
             })
        }
      })"

text \<open>With a source inside the buffer the block is written by \<^verbatim>\<open>sfs_fs_inode_block_write\<close>.\<close>

lemma block_written_bind:
  assumes "src = Some w"
  shows "do { (r, inode, f) \<leftarrow> block_to_write f inode iblock;
        (case r of None \<Rightarrow> Some (-1, f)
         | Some n \<Rightarrow> do { source \<leftarrow> src;
             let (r, f) = put_out_block f n source in if r \<noteq> 0 then Some (-1, f) else k f inode }) } =
   do { (r, inode, f) \<leftarrow> sfs_fs_inode_block_write f inode iblock w; if r \<noteq> 0 then Some (-1 :: int, f) else k f inode }"
  using assms by (cases "block_to_write f inode iblock")
    (auto simp: sfs_fs_inode_block_write_def Let_def split: prod.split option.split)

lemma block_written_outside:
  assumes "sfs_fs_inode_block_write f inode iblock w = Some (0, x)"
  shows "\<exists>n i f'. block_to_write f inode iblock = Some (Some n, i, f')"
  using assms by (auto simp: sfs_fs_inode_block_write_def bind_eq_Some_conv split: option.splits)

definition sfs_write ::
  "sfs_env \<Rightarrow> bytes \<Rightarrow> u64 \<Rightarrow> int \<Rightarrow> fuse_file_info \<Rightarrow> sfs_state \<Rightarrow> (int \<times> sfs_state) option" where
  "sfs_write env buf sz offset fi s0 = critical s0 (\<lambda>s.
     if sz = 0 then Some (0, s)
     else do {
       (k, p) \<leftarrow> handle_slot fi s;
       case k of
         None \<Rightarrow> Some (-1, s)
       | Some k \<Rightarrow> do {
           f \<leftarrow> st_fs s;
           (r, f) \<leftarrow> sfs_fs_read_inode f (sfs_fd_inumber p k);
           case r of
             None \<Rightarrow> Some (-1, s\<lparr>st_fs := Some f\<rparr>)
           | Some inode \<Rightarrow>
               let (t, d) = time (disk f);
                   f = f\<lparr>disk := d\<rparr>;
                   inode = inode\<lparr>access_time := t\<rparr>;
                   (inode, f) =
                     (if isize inode < of_int offset + sz
                      then let (t, d) = time (disk f)
                           in (inode\<lparr>change_time := t, isize := of_int offset + sz\<rparr>, f\<lparr>disk := d\<rparr>)
                      else (inode, f))
               in do {
                    (r, f) \<leftarrow> sfs_fs_write_inode f inode;
                    if r \<noteq> 0 then Some (-1, s\<lparr>st_fs := Some f\<rparr>)
                    else let sp = request_span sz offset
                         in do {
                              (r, f) \<leftarrow> write_loop f inode sp buf (stack_block env) (span_blocks sp);
                              Some (if r \<noteq> 0 then -1 else sint (ucast sz :: u32), s\<lparr>st_fs := Some f\<rparr>)
                            }
                  }
         }
     })"

subsection \<open>Directories\<close>

text \<open>\<^verbatim>\<open>strcmp\<close> of a name in an array with a token shorter than the array.\<close>

definition strcmp_eq :: "bytes \<Rightarrow> bytes \<Rightarrow> bool" where
  "strcmp_eq arr s \<longleftrightarrow> take (Suc (length s)) arr = s @ [0]"

text \<open>
  The walk of \<^verbatim>\<open>sfs_opendir\<close>. \<open>Inl (e, b)\<close> is a return of \<open>e\<close>, with the mutex released iff \<open>b\<close>;
  \<open>Inr\<close> is the directory to open. \<open>n\<close> counts the calls of \<^verbatim>\<open>sfs_dir_iterate\<close>; a null iterator fails
  the assertion of \<^verbatim>\<open>sfs_dir_iternext\<close>.
\<close>

partial_function (option) opendir_walk ::
  "sfs_env \<Rightarrow> nat \<Rightarrow> filesystem \<Rightarrow> dir_iterator \<Rightarrow> bytes \<Rightarrow> bytes option \<Rightarrow>
   (((int \<times> bool) + sfs_fs_inode) \<times> filesystem) option" where
  "opendir_walk env n f it tok path_tok = do {
     (r, it, f) \<leftarrow> sfs_dir_iternext f it True;
     case r of
       None \<Rightarrow> Some (Inr (it_inode it), f)
     | Some (j, entry) \<Rightarrow> do {
         entry \<leftarrow> entry;
         if strcmp_eq (de_name (get_entry j (cached_block it))) tok
         then (case strsep path_tok of
                 (None, path_tok) \<Rightarrow>
                   if mode entry AND S_IFMT \<noteq> S_IFDIR then Some (Inl (- ENOTDIR, False), f)
                   else do {
                     (r, f) \<leftarrow> add_link f (de_inumber (get_entry j (cached_block it)));
                     Some (case r of Inl e \<Rightarrow> Inl (e, True) | Inr directory \<Rightarrow> Inr directory, f)
                   }
               | (Some tok, path_tok) \<Rightarrow> do {
                   it \<leftarrow> sfs_dir_iterate (iter_mem env (Suc n)) entry;
                   it \<leftarrow> it;
                   opendir_walk env (Suc n) f it tok path_tok
                 })
         else opendir_walk env n f it tok path_tok
       }
   }"

definition sfs_opendir ::
  "sfs_env \<Rightarrow> bytes \<Rightarrow> fuse_file_info \<Rightarrow> sfs_state \<Rightarrow> ((int \<times> fuse_file_info) \<times> sfs_state) option" where
  "sfs_opendir env path fi s0 =
     (if st_locked s0 then None
      else let s = s0\<lparr>st_locked := True\<rparr>
           in if path \<noteq> [SLASH] then Some ((- ENOENT, fi), s)
              else do {
                f \<leftarrow> st_fs s;
                (r, f) \<leftarrow> sfs_dir_root f;
                let s = s\<lparr>st_fs := Some f\<rparr> in
                case r of
                  None \<Rightarrow> Some ((- ENOENT, fi), s\<lparr>st_locked := False\<rparr>)
                | Some directory \<Rightarrow>
                    (case strsep (Some path) of
                       (None, path_tok) \<Rightarrow> None
                     | (Some tok, path_tok) \<Rightarrow>
                         if tok \<noteq> [] then Some ((-1, fi), s)
                         else do {
                           it \<leftarrow> sfs_dir_iterate (iter_mem env 0) directory;
                           it \<leftarrow> it;
                           (r, f) \<leftarrow> opendir_walk env 0 f it tok path_tok;
                           let s = s\<lparr>st_fs := Some f\<rparr> in
                           case r of
                             Inl (e, unlock) \<Rightarrow> Some ((e, fi), if unlock then s\<lparr>st_locked := False\<rparr> else s)
                           | Inr directory \<Rightarrow> do {
                               (r, s) \<leftarrow> open_fd env (inumber directory) fi s;
                               Some (r, s\<lparr>st_locked := False\<rparr>)
                             }
                         })
              })"

text \<open>The callback \<^verbatim>\<open>filler\<close> of FUSE works on a buffer of its own; \<open>True\<close> is a full buffer.\<close>

partial_function (option) readdir_loop ::
  "('b \<Rightarrow> bytes \<Rightarrow> stat option \<Rightarrow> bool \<times> 'b) \<Rightarrow> 'b \<Rightarrow> filesystem \<Rightarrow> dir_iterator \<Rightarrow> ('b \<times> filesystem) option" where
  "readdir_loop filler buf f it = do {
     (r, it, f) \<leftarrow> sfs_dir_iternext f it True;
     case r of
       None \<Rightarrow> Some (buf, f)
     | Some (j, inode2) \<Rightarrow> do {
         inode2 \<leftarrow> inode2;
         let (full, buf) = filler buf (cstr (de_name (get_entry j (cached_block it)))) (Some (sfs_fs_inode_to_stat inode2)) in
         if full then Some (buf, f) else readdir_loop filler buf f it
       }
   }"

definition sfs_readdir ::
  "sfs_env \<Rightarrow> ('b \<Rightarrow> bytes \<Rightarrow> stat option \<Rightarrow> bool \<times> 'b) \<Rightarrow> bytes \<Rightarrow> 'b \<Rightarrow> sfs_state \<Rightarrow> ((int \<times> 'b) \<times> sfs_state) option" where
  "sfs_readdir env filler path buf s0 = critical s0 (\<lambda>s.
     if path \<noteq> [SLASH] then Some ((-1, buf), s)
     else do {
       f \<leftarrow> st_fs s;
       (r, f) \<leftarrow> sfs_dir_root f;
       let s = s\<lparr>st_fs := Some f\<rparr> in
       case r of
         None \<Rightarrow> Some ((-1, buf), s)
       | Some inode \<Rightarrow>
           let (full, buf) = filler buf [DOT] None in
           if full then Some ((0, buf), s)
           else let (full, buf) = filler buf [DOT, DOT] None in
                if full then Some ((0, buf), s)
                else do {
                  it \<leftarrow> sfs_dir_iterate (iter_mem env 0) inode;
                  it \<leftarrow> it;
                  (buf, f) \<leftarrow> readdir_loop filler buf f it;
                  Some ((0, buf), s\<lparr>st_fs := Some f\<rparr>)
                }
     })"

definition sfs_releasedir :: "fuse_file_info \<Rightarrow> sfs_state \<Rightarrow> (int \<times> sfs_state) option" where
  "sfs_releasedir fi s0 = critical s0 (\<lambda>s. do {
     (k, p) \<leftarrow> handle_slot fi s;
     case k of
       None \<Rightarrow> Some (-1, s)
     | Some k \<Rightarrow> do {
         f \<leftarrow> st_fs s;
         (r, f) \<leftarrow> sfs_fs_read_inode f (sfs_fd_inumber p k);
         case r of
           None \<Rightarrow> Some (-1, s\<lparr>st_fs := Some f\<rparr>)
         | Some inode \<Rightarrow>
             let (t, d) = time (disk f);
                 f = f\<lparr>disk := d\<rparr>
             in do {
                  (r, f) \<leftarrow> sfs_fs_write_inode f (inode\<lparr>links := links inode - 1, change_time := t\<rparr>);
                  if r \<noteq> 0 then Some (-1, s\<lparr>st_fs := Some f\<rparr>)
                  else Some (0, s\<lparr>st_fs := Some f, st_pool := Some (sfs_filedescriptor_free p k)\<rparr>)
                }
       }
   })"

end
