(* ===== verification/Volume.thy ===== *)
theory Volume
  imports Sfs_Io
begin

text \<open>
  The invariant of a mounted volume, and the map from names to inode numbers that its root
  directory stands for. Every inode that is not free has its own blocks, none of them free; the
  root directory is inode 1, names only inodes in use, and no name and no inode twice.
\<close>

subsection \<open>Files\<close>

definition used :: "fs_abs \<Rightarrow> u64 \<Rightarrow> bool" where
  "used A n \<longleftrightarrow> valid_ino (a_super A) n \<and> n \<notin> free_inodes A"

definition owns :: "fs_abs \<Rightarrow> u64 \<Rightarrow> u64 set" where
  "owns A n = set (iptrs A (a_inode A n))"

definition files_ok :: "fs_abs \<Rightarrow> bool" where
  "files_ok A \<longleftrightarrow>
     (\<forall>n. used A n \<longrightarrow> inumber (a_inode A n) = n \<and> inode_ok A (a_inode A n)) \<and>
     (\<forall>m n. used A m \<and> used A n \<and> m \<noteq> n \<longrightarrow> owns A m \<inter> owns A n = {})"

text \<open>A step that changes the blocks of the file \<open>x\<close> only, taking new ones from the free space.\<close>

lemma files_ok_step:
  assumes ok: "files_ok A" and g: "valid_block (a_super A') = valid_block (a_super A)"
    and kept: "\<And>n. used A' n \<Longrightarrow> n \<noteq> x \<Longrightarrow> used A n \<and> inumber (a_inode A' n) = n \<and>
        block_pointers (a_inode A' n) = block_pointers (a_inode A n) \<and>
        (\<forall>b\<in>owns A n. a_block A' b = a_block A b \<and> b \<notin> free_blocks A')"
    and x: "used A' x \<Longrightarrow> inumber (a_inode A' x) = x \<and> inode_ok A' (a_inode A' x) \<and>
        owns A' x \<subseteq> (if used A x then owns A x else {}) \<union> free_blocks A"
  shows "files_ok A'"
proof -
  have n: "inode_ok A' (a_inode A' n) \<and> owns A' n = owns A n \<and> owns A n \<inter> free_blocks A = {}"
    if "used A' n" "n \<noteq> x" for n
  proof -
    from kept [OF that] ok have k: "inode_ok A (a_inode A n)"
      "\<And>b. b \<in> set (iptrs A (a_inode A n)) \<Longrightarrow> a_block A' b = a_block A b \<and> b \<notin> free_blocks A'"
      "block_pointers (a_inode A' n) = block_pointers (a_inode A n)"
      by (auto simp: files_ok_def owns_def)
    note f = file_frame [OF k(1,2) g]
    have "inode_ok A' (a_inode A' n)" "iptrs A' (a_inode A' n) = iptrs A' (a_inode A n)"
      using f(3) k(3) inode_ok_cong [of A' A' "a_inode A' n" "a_inode A n"]
        iptrs_cong [of A' A' "a_inode A' n" "a_inode A n"] by simp_all
    then show ?thesis using f(2) k(1) by (auto simp: owns_def inode_ok_def)
  qed
  have d: "owns A' m \<inter> owns A' n = {}" if "used A' m" "used A' n" "m \<noteq> n" "n \<noteq> x" for m n
  proof (cases "m = x")
    case True
    have "owns A x \<inter> owns A n = {}" if "used A x"
      using that kept [OF \<open>used A' n\<close> \<open>n \<noteq> x\<close>] ok \<open>n \<noteq> x\<close> unfolding files_ok_def by metis
    with True x n [OF that(2,4)] that show ?thesis by (auto split: if_splits)
  next
    case False
    then show ?thesis using n [OF that(1)] n [OF that(2,4)] kept that ok by (auto simp: files_ok_def)
  qed
  show ?thesis unfolding files_ok_def
  proof (intro conjI allI impI; (elim conjE)?)
    fix n assume "used A' n"
    then show "inumber (a_inode A' n) = n" "inode_ok A' (a_inode A' n)" using n kept x by (cases "n = x"; blast)+
  next
    fix m n assume "used A' m" "used A' n" "m \<noteq> n"
    then show "owns A' m \<inter> owns A' n = {}" using d [of m n] d [of n m] by (cases "n = x") auto
  qed
qed

subsection \<open>The root directory\<close>

abbreviation root :: "fs_abs \<Rightarrow> sfs_fs_inode" where
  "root A \<equiv> a_inode A 1"

definition dino :: "fs_abs \<Rightarrow> nat \<Rightarrow> u64" where
  "dino A k = de_inumber (dslot A (root A) k)"

definition dname :: "fs_abs \<Rightarrow> nat \<Rightarrow> bytes" where
  "dname A k = cstr (take 256 (de_name (dslot A (root A) k)))"

definition live :: "fs_abs \<Rightarrow> nat \<Rightarrow> bool" where
  "live A k \<longleftrightarrow> k < dsize (root A) \<and> dino A k \<noteq> 0"

definition root_ok :: "fs_abs \<Rightarrow> bool" where
  "root_ok A \<longleftrightarrow> used A 1 \<and> dir_ok A (root A) \<and> (\<forall>k. live A k \<longrightarrow> used A (dino A k) \<and> dino A k \<noteq> 1) \<and>
     (\<forall>j k. live A j \<and> live A k \<and> (dname A j = dname A k \<or> dino A j = dino A k) \<longrightarrow> j = k)"

definition mounted :: "filesystem \<Rightarrow> bool" where
  "mounted fs \<longleftrightarrow> inode_alloc_ok fs \<and> files_ok (abs_fs fs) \<and> root_ok (abs_fs fs)"

text \<open>The directory as a map from names to inode numbers.\<close>

definition names :: "fs_abs \<Rightarrow> bytes \<Rightarrow> u64 option" where
  "names A nm = map_option (dino A) (List.find (\<lambda>k. live A k \<and> dname A k = nm) [0..<dsize (root A)])"

lemma names_Some:
  assumes "root_ok A"
  shows "names A nm = Some n \<longleftrightarrow> (\<exists>k. live A k \<and> dname A k = nm \<and> dino A k = n)"
proof
  assume "names A nm = Some n"
  then show "\<exists>k. live A k \<and> dname A k = nm \<and> dino A k = n"
    by (auto simp: names_def dest: find_upt_Some)
next
  assume "\<exists>k. live A k \<and> dname A k = nm \<and> dino A k = n"
  then obtain k where k: "live A k" "dname A k = nm" "dino A k = n" by blast
  then have "List.find (\<lambda>k. live A k \<and> dname A k = nm) [0..<dsize (root A)] \<noteq> None"
    by (auto simp: find_None_iff live_def)
  then obtain j where j: "List.find (\<lambda>k. live A k \<and> dname A k = nm) [0..<dsize (root A)] = Some j" by blast
  then have "live A j" "dname A j = nm" by (auto dest: find_upt_Some)
  with k assms have "j = k" unfolding root_ok_def by blast
  with j k show "names A nm = Some n" by (simp add: names_def)
qed

lemma names_None: "names A nm = None \<longleftrightarrow> (\<forall>k. live A k \<longrightarrow> dname A k \<noteq> nm)"
  by (auto simp: names_def find_None_iff live_def)

lemma names_eqI:
  assumes "root_ok A" "root_ok A'" "\<And>nm n. (\<exists>k. live A' k \<and> dname A' k = nm \<and> dino A' k = n) \<longleftrightarrow> m nm = Some n"
  shows "names A' = m"
proof
  fix nm
  show "names A' nm = m nm"
    using assms(3) [of nm] names_Some [OF assms(2), of nm] by (metis option.exhaust)
qed

lemma mountedD:
  assumes "mounted fs"
  shows "inode_alloc_ok fs" "alloc_ok fs" "fs_ok fs" "files_ok (abs_fs fs)" "root_ok (abs_fs fs)"
    "dir_ok (abs_fs fs) (root (abs_fs fs))" "used (abs_fs fs) 1" "valid_ino (superblock fs) 1"
    "inumber (root (abs_fs fs)) = 1"
  using assms inode_alloc_okD by (auto simp: mounted_def root_ok_def used_def files_ok_def)

subsection \<open>Looking a name up\<close>

definition named :: "fs_abs \<Rightarrow> sfs_fs_inode \<Rightarrow> bytes \<Rightarrow> nat \<Rightarrow> bool" where
  "named A d nm k \<longleftrightarrow> dlive A d k \<and> strncmp_eq 256 (de_name (dslot A d k)) nm"

definition first_named :: "fs_abs \<Rightarrow> sfs_fs_inode \<Rightarrow> bytes \<Rightarrow> nat \<Rightarrow> nat option" where
  "first_named A d nm j = List.find (named A d nm) [j..<dsize d]"

lemma find_skip:
  "a \<le> b \<Longrightarrow> (\<And>i. a \<le> i \<Longrightarrow> i < b \<Longrightarrow> \<not> P i) \<Longrightarrow> List.find P [a..<c] = List.find P [b..<c]"
proof (induction "b - a" arbitrary: a)
  case 0
  then show ?case by simp
next
  case (Suc m)
  then have "List.find P [Suc a..<c] = List.find P [b..<c]" by (intro Suc.hyps(1)) auto
  moreover have "\<not> P a" using Suc by simp
  then have "List.find P [a..<c] = List.find P [Suc a..<c]"
    using Suc.hyps(2) by (cases "a < c") (simp_all add: upt_conv_Cons)
  ultimately show ?case by simp
qed

lemma first_named_next:
  "first_named A d nm j =
     (case next_live A d j of
        None \<Rightarrow> None
      | Some k \<Rightarrow> if named A d nm k then Some k else first_named A d nm (Suc k))"
proof (cases "next_live A d j")
  case None
  then have "first_named A d nm j = None" by (auto simp: next_live_None first_named_def find_None_iff named_def)
  with None show ?thesis by simp
next
  case (Some k)
  note k = next_live_Some [OF Some]
  then have "first_named A d nm j = List.find (named A d nm) [k..<dsize d]"
    unfolding first_named_def by (intro find_skip) (auto simp: named_def)
  then show ?thesis using Some k by (simp add: first_named_def upt_conv_Cons)
qed

lemma touched_first_named:
  assumes "touched A d A' d'"
  shows "first_named A' d' = first_named A d"
proof -
  have "named A' d' = named A d" using touched_dir [OF assms] by (simp add: named_def fun_eq_iff)
  then have "first_named A' d' nm j = first_named A d nm j" for nm j
    using touched_same(6) [OF assms] by (simp add: first_named_def)
  then show ?thesis by blast
qed

definition found_at :: "fs_abs \<Rightarrow> sfs_fs_inode \<Rightarrow> nat option \<Rightarrow> nat option \<Rightarrow> dir_iterator \<Rightarrow> bool" where
  "found_at A d f r it \<longleftrightarrow>
     (case f of
        None \<Rightarrow> r = None
      | Some k \<Rightarrow> r = Some 0 \<and> unat (it_iblock it) = k \<and> cached_block it = fblock A d k)"

lemma find_name_ok:
  assumes "fs_ok f" "iter_ok (abs_fs f) it"
  shows "\<exists>r it' f'. find_name f it nm = Some (r, it', f') \<and> fs_ok f' \<and> superblock f' = superblock f \<and>
    touched (abs_fs f) (it_inode it) (abs_fs f') (it_inode it') \<and>
    found_at (abs_fs f) (it_inode it) (first_named (abs_fs f) (it_inode it) nm (iter_pos it)) r it'"
  using assms
proof (induction "dsize (it_inode it) - iter_pos it" arbitrary: f it rule: less_induct)
  case less
  let ?A = "abs_fs f" and ?d = "it_inode it"
  obtain r it1 f1 where 1: "sfs_dir_iternext f it False = Some (r, it1, f1)" "fs_ok f1" "superblock f1 = superblock f"
    "iter_result ?A ?d False (next_live ?A ?d (iter_pos it)) r it1 (abs_fs f1)"
    using iternext_ok [OF less.prems, of False] by auto
  have t: "touched ?A ?d (abs_fs f1) (it_inode it1)" using 1(4) by (simp add: iter_result_def)
  show ?case
  proof (cases r)
    case None
    then have "next_live ?A ?d (iter_pos it) = None" using 1(4) by (auto simp: iter_result_def split: option.splits)
    then have "first_named ?A ?d nm (iter_pos it) = None" by (simp add: first_named_next)
    with None 1 t show ?thesis by (subst find_name.simps) (simp add: found_at_def)
  next
    case (Some x)
    then have rn: "r \<noteq> None" by simp
    note ok = iter_result_ok [OF less.prems(2) 1(4) rn]
    let ?k = "unat (it_iblock it1)"
    from 1(4) ok(3) have x: "r = Some (0, None)" "cached_block it1 = fblock ?A ?d ?k" by (auto simp: iter_result_def)
    note k = next_live_Some [OF ok(3)]
    have m: "named ?A ?d nm ?k \<longleftrightarrow> strncmp_eq 256 (de_name (get_entry 0 (cached_block it1))) nm"
      using k x(2) by (simp add: named_def dslot_def)
    show ?thesis
    proof (cases "named ?A ?d nm ?k")
      case True
      then have "first_named ?A ?d nm (iter_pos it) = Some ?k" using ok(3) by (simp add: first_named_next)
      with True 1 x m t show ?thesis by (subst find_name.simps) (simp add: found_at_def)
    next
      case False
      then have fn: "first_named ?A ?d nm (iter_pos it) = first_named ?A ?d nm (iter_pos it1)"
        using ok by (subst first_named_next) simp
      have "dsize (it_inode it1) - iter_pos it1 < dsize ?d - iter_pos it"
        using k ok(2) touched_same(6) [OF t] by linarith
      from less.hyps [OF this 1(2) ok(1)] obtain r' it' f' where 2: "find_name f1 it1 nm = Some (r', it', f')"
        "fs_ok f'" "superblock f' = superblock f1" "touched (abs_fs f1) (it_inode it1) (abs_fs f') (it_inode it')"
        "found_at (abs_fs f1) (it_inode it1) (first_named (abs_fs f1) (it_inode it1) nm (iter_pos it1)) r' it'"
        by blast
      moreover have "found_at ?A ?d (first_named ?A ?d nm (iter_pos it)) r' it'"
        using 2(5) fn touched_first_named [OF t] touched_dir(1) [OF t] by (simp add: found_at_def split: option.splits)
      moreover have "find_name f it nm = find_name f1 it1 nm"
        using False 1(1) x m by (subst find_name.simps) simp
      ultimately show ?thesis using 1(3) touched_trans [OF t] by auto
    qed
  qed
qed

text \<open>In the root directory of a volume, in terms of names.\<close>

definition proper_name :: "bytes \<Rightarrow> bool" where
  "proper_name nm \<longleftrightarrow> nm \<noteq> [] \<and> length nm \<le> 255 \<and> c_string nm \<and> SLASH \<notin> set nm"

lemma named_root: "proper_name nm \<Longrightarrow> named A (root A) nm k \<longleftrightarrow> dino A k \<noteq> 0 \<and> dname A k = nm"
  by (simp add: named_def dlive_def dino_def dname_def strncmp_eq_def proper_name_def)

lemma first_named_root:
  assumes "root_ok A" "proper_name nm"
  shows "names A nm = map_option (dino A) (first_named A (root A) nm 0)"
    "first_named A (root A) nm 0 = Some k \<Longrightarrow> live A k \<and> dname A k = nm \<and> names A nm = Some (dino A k)"
proof -
  have "List.find (\<lambda>k. live A k \<and> dname A k = nm) [0..<dsize (root A)] = first_named A (root A) nm 0"
    unfolding first_named_def using assms(2) by (intro find_cong) (auto simp: named_root live_def)
  then show n: "names A nm = map_option (dino A) (first_named A (root A) nm 0)" by (simp add: names_def)
  show "first_named A (root A) nm 0 = Some k \<Longrightarrow> live A k \<and> dname A k = nm \<and> names A nm = Some (dino A k)"
    using n assms(2) by (auto simp: first_named_def named_root live_def dest: find_upt_Some)
qed

lemma scan_dir_ok:
  assumes m: "mounted f" and nm: "proper_name nm" and mem: "iter_mem env 0 = Some raw"
  shows "\<exists>r it f'. scan_dir env f (root (abs_fs f)) nm = Some (Some (r, it), f') \<and> fs_ok f' \<and>
    superblock f' = superblock f \<and> touched (abs_fs f) (root (abs_fs f)) (abs_fs f') (it_inode it) \<and>
    found_at (abs_fs f) (root (abs_fs f)) (first_named (abs_fs f) (root (abs_fs f)) nm 0) r it"
proof -
  note md = mountedD [OF m]
  let ?it = "\<lparr>it_inode = root (abs_fs f), it_iblock = 0, it_entry = 0, cached_block = raw\<rparr>"
  have "iter_ok (abs_fs f) ?it" using md(6) by (simp add: iter_ok_def)
  from find_name_ok [OF md(3) this, of nm] show ?thesis
    using mem dir_okD(5) [OF md(6)] by (auto simp: scan_dir_def sfs_dir_iterate_def iter_pos_def)
qed

subsection \<open>Steps that keep the names\<close>

lemma root_same:
  assumes "\<And>k. dslot A' (root A') k = dslot A (root A) k" "dsize (root A') = dsize (root A)"
  shows "live A' = live A" "dino A' = dino A" "dname A' = dname A" "names A' = names A"
proof -
  show e: "live A' = live A" "dino A' = dino A" "dname A' = dname A"
    using assms by (simp_all add: live_def dino_def dname_def fun_eq_iff)
  have "names A' nm = names A nm" for nm unfolding names_def e assms(2) ..
  then show "names A' = names A" by blast
qed

lemma root_ok_same:
  assumes ok: "root_ok A" and d: "dir_ok A' (root A')" and s: "\<And>k. dslot A' (root A') k = dslot A (root A) k"
    "dsize (root A') = dsize (root A)" and u: "used A' 1" "\<And>k. live A k \<Longrightarrow> used A' (dino A k)"
  shows "root_ok A'"
  using ok d u unfolding root_ok_def root_same [OF s] by blast

text \<open>Looking through the root directory changes its access time.\<close>

lemma touched_mounted:
  assumes m: "mounted f" and t: "touched (abs_fs f) (root (abs_fs f)) (abs_fs f') d'"
    and f': "fs_ok f'" "superblock f' = superblock f"
  shows "mounted f'" "names (abs_fs f') = names (abs_fs f)" "free_inodes (abs_fs f') = free_inodes (abs_fs f)"
    "root (abs_fs f') = d'" "used (abs_fs f') = used (abs_fs f)"
proof -
  let ?A = "abs_fs f" and ?A' = "abs_fs f'"
  note md = mountedD [OF m] and ts = touched_same [OF t] and td = touched_dir [OF t]
  have h: "head_moved f f'"
    using f'(2) by (auto simp: head_moved_def intro: exI [of _ "free_blocks_head (superblock f)"])
  have al: "alloc_ok f'" by (rule touched_alloc_ok [OF md(2) t f'(1)])
  have "1 \<notin> free_inodes ?A" using md(7) by (simp add: used_def)
  then have same: "n \<in> free_inodes ?A \<Longrightarrow> a_inode ?A' n = a_inode ?A n" for n using ts(10) md(9) by metis
  note ik = inode_alloc_keep [OF md(1) al h same]
  show fi: "free_inodes ?A' = free_inodes ?A" by (rule ik(2))
  then show u: "used ?A' = used ?A" using f'(2) by (simp add: used_def fun_eq_iff)
  show r: "root ?A' = d'" using ts(9) md(9) by simp
  have d: "dir_ok ?A' (root ?A')" using td(4) [OF md(6)] r by simp
  have s: "\<And>k. dslot ?A' (root ?A') k = dslot ?A (root ?A) k" "dsize (root ?A') = dsize (root ?A)"
    using td(2) ts(6) r by simp_all
  show "names ?A' = names ?A" by (rule root_same [OF s])
  have ro: "root_ok ?A'"
    by (rule root_ok_same [OF md(5) d s]) (use u md(5) in \<open>auto simp: root_ok_def\<close>)
  have io: "inode_ok ?A' (root ?A')" by (rule dir_okD(1) [OF d])
  have ow: "owns ?A' 1 = owns ?A 1" unfolding owns_def r using iptrs_cong ts by metis
  have "files_ok ?A'"
  proof (rule files_ok_step [OF md(4), where x = 1])
    show "valid_block (a_super ?A') = valid_block (a_super ?A)" using f'(2) by simp
  next
    fix n assume n: "used ?A' n" "n \<noteq> 1"
    then have "inumber (a_inode ?A n) = n \<and> inode_ok ?A (a_inode ?A n)" using md(4) u by (simp add: files_ok_def)
    then show "used ?A n \<and> inumber (a_inode ?A' n) = n \<and>
        block_pointers (a_inode ?A' n) = block_pointers (a_inode ?A n) \<and>
        (\<forall>b\<in>owns ?A n. a_block ?A' b = a_block ?A b \<and> b \<notin> free_blocks ?A')"
      using n u ts(8,10) td(5) md(9) by (auto simp: owns_def inode_ok_def)
  next
    show "inumber (root ?A') = 1 \<and> inode_ok ?A' (root ?A') \<and>
        owns ?A' 1 \<subseteq> (if used ?A 1 then owns ?A 1 else {}) \<union> free_blocks ?A"
      using ow md(7,9) io ts(1) r by auto
  qed
  with ik(1) ro show "mounted f'" by (simp add: mounted_def)
qed

subsection \<open>The common prefix of the operations\<close>

definition ready :: "sfs_state \<Rightarrow> filesystem \<Rightarrow> bool" where
  "ready s f \<longleftrightarrow> \<not> st_locked s \<and> st_fs s = Some f \<and> mounted f"

definition env_ok :: "sfs_env \<Rightarrow> bool" where
  "env_ok env \<longleftrightarrow> strdup_ok env \<and> iter_mem env 0 \<noteq> None"

lemma path_name_ok: "strdup_ok env \<Longrightarrow> proper_name nm \<Longrightarrow> path_name env (SLASH # nm) = Some (Inr nm)"
  by (simp add: path_name_def root_path proper_name_def)

lemma open_root_ok:
  assumes "st_fs s = Some f" "mounted f" "path_name env path = Some (Inr nm)"
  shows "open_root env path s = Some (Inr (nm, root (abs_fs f)), s\<lparr>st_fs := Some (after_read f 1)\<rparr>)"
  using assms mountedD [OF assms(2)] by (simp add: open_root_def sfs_dir_root_def sfs_fs_read_inode_ok)

lemma after_read_mounted:
  assumes "mounted f" "valid_ino (superblock f) n"
  shows "mounted (after_read f n)"
  using assms mountedD [OF assms(1)] by (simp add: mounted_def inode_alloc_ok_def alloc_ok_def)

text \<open>
  After the scan the volume is a mounted one with the same names, and the iterator stands at the
  entry with the name.
\<close>

lemma lookup_ok:
  assumes s: "st_fs s = Some f" "mounted f" and env: "env_ok env" and nm: "proper_name nm"
  obtains r it f' where
    "open_root env (SLASH # nm) s = Some (Inr (nm, root (abs_fs f)), s\<lparr>st_fs := Some (after_read f 1)\<rparr>)"
    "scan_dir env (after_read f 1) (root (abs_fs f)) nm = Some (Some (r, it), f')"
    "mounted f'" "superblock f' = superblock f" "touched (abs_fs f) (root (abs_fs f)) (abs_fs f') (root (abs_fs f'))"
    "it_inode it = root (abs_fs f')"
    "found_at (abs_fs f') (root (abs_fs f')) (first_named (abs_fs f') (root (abs_fs f')) nm 0) r it"
    "names (abs_fs f') = names (abs_fs f)"
proof -
  note md = mountedD [OF s(2)]
  from env obtain raw where mem: "iter_mem env 0 = Some raw" by (auto simp: env_ok_def)
  let ?f = "after_read f 1"
  have e: "abs_fs ?f = abs_fs f" "superblock ?f = superblock f" using md by simp_all
  from scan_dir_ok [OF after_read_mounted [OF s(2) md(8)] nm mem] obtain r it f' where 1:
    "scan_dir env ?f (root (abs_fs f)) nm = Some (Some (r, it), f')" "fs_ok f'" "superblock f' = superblock f"
    "touched (abs_fs f) (root (abs_fs f)) (abs_fs f') (it_inode it)"
    "found_at (abs_fs f) (root (abs_fs f)) (first_named (abs_fs f) (root (abs_fs f)) nm 0) r it"
    unfolding e by blast
  note tm = touched_mounted [OF s(2) 1(4,2,3)]
  have "found_at (abs_fs f') (root (abs_fs f')) (first_named (abs_fs f') (root (abs_fs f')) nm 0) r it"
    using 1(5) touched_first_named [OF 1(4)] touched_dir(1) [OF 1(4)] tm(4)
    by (simp add: found_at_def split: option.splits)
  moreover have "path_name env (SLASH # nm) = Some (Inr nm)" using env nm by (simp add: path_name_ok env_ok_def)
  ultimately show ?thesis
    using that open_root_ok [OF s] 1 tm by metis
qed

end
