(* ===== verification/Namespace.thy ===== *)
theory Namespace
  imports Volume
begin

text \<open>
  The operations on names, \<^verbatim>\<open>sfs_getattr\<close>, \<^verbatim>\<open>sfs_unlink\<close>, \<^verbatim>\<open>sfs_create\<close>, \<^verbatim>\<open>sfs_open\<close> and
  \<^verbatim>\<open>sfs_release\<close>, as operations on the map from names to inode numbers. Each keeps the invariant of
  the volume and does not touch the files it is not about.
\<close>

subsection \<open>Files that stay as they are\<close>

definition same_file :: "fs_abs \<Rightarrow> fs_abs \<Rightarrow> u64 \<Rightarrow> bool" where
  "same_file A A' m \<longleftrightarrow> used A' m \<and> a_inode A' m = a_inode A m \<and> fblock A' (a_inode A' m) = fblock A (a_inode A m)"

definition others_same :: "fs_abs \<Rightarrow> fs_abs \<Rightarrow> u64 \<Rightarrow> bool" where
  "others_same A A' n \<longleftrightarrow> (\<forall>m. used A m \<and> m \<noteq> 1 \<and> m \<noteq> n \<longrightarrow> same_file A A' m)"

lemma others_same_refl: "others_same A A n"
  by (simp add: others_same_def same_file_def)

lemma others_same_trans:
  assumes "others_same A A1 n" "others_same A1 A2 n"
  shows "others_same A A2 n"
  using assms unfolding others_same_def same_file_def by metis

text \<open>No file but \<open>n\<close> changes, and no other inode comes into use.\<close>

definition only_changes :: "fs_abs \<Rightarrow> fs_abs \<Rightarrow> u64 \<Rightarrow> bool" where
  "only_changes A A' n \<longleftrightarrow> others_same A A' n \<and> (\<forall>m. used A' m \<longrightarrow> used A m \<or> m = n)"

lemma only_changesI: "others_same A A' n \<Longrightarrow> (\<And>m. used A' m \<Longrightarrow> used A m \<or> m = n) \<Longrightarrow> only_changes A A' n"
  by (simp add: only_changes_def)

lemma only_changes_used: "others_same A A' n \<Longrightarrow> used A' = used A \<Longrightarrow> only_changes A A' n"
  by (simp add: only_changes_def)

lemma others_same_any: "others_same A A' 1 \<Longrightarrow> others_same A A' n"
  by (simp add: others_same_def)

lemma touched_others:
  assumes m: "mounted f" "touched (abs_fs f) (root (abs_fs f)) (abs_fs f') d'" "used (abs_fs f') = used (abs_fs f)"
  shows "others_same (abs_fs f) (abs_fs f') n" "m \<noteq> 1 \<Longrightarrow> a_inode (abs_fs f') m = a_inode (abs_fs f) m"
proof -
  note ts = touched_same [OF m(2)] and md = mountedD [OF m(1)]
  show e: "m \<noteq> 1 \<Longrightarrow> a_inode (abs_fs f') m = a_inode (abs_fs f) m" for m using ts(10) md(9) by simp
  have "fblock (abs_fs f') i = fblock (abs_fs f) i" for i using ts(8) by (intro fblock_cong) simp_all
  with e m(3) show "others_same (abs_fs f) (abs_fs f') n" by (simp add: others_same_def same_file_def)
qed

subsection \<open>Attributes\<close>

lemma getattr_ok:
  assumes r: "ready s f" and env: "env_ok env" and nm: "proper_name nm"
  defines "keeps \<equiv> \<lambda>s' f'. ready s' f' \<and> st_pool s' = st_pool s \<and> names (abs_fs f') = names (abs_fs f) \<and>
      only_changes (abs_fs f) (abs_fs f') 0 \<and> (\<forall>m. m \<noteq> 1 \<longrightarrow> a_inode (abs_fs f') m = a_inode (abs_fs f) m)"
  shows "names (abs_fs f) nm = None \<Longrightarrow> \<exists>s' f'. sfs_getattr env (SLASH # nm) s = Some ((- ENOENT, None), s') \<and> keeps s' f'"
    "names (abs_fs f) nm = Some n \<Longrightarrow> freed env n = 0 \<Longrightarrow> sfs_getattr env (SLASH # nm) s = None"
    "names (abs_fs f) nm = Some n \<Longrightarrow> valid_ino (superblock f) (freed env n) \<Longrightarrow>
      \<exists>s' f'. sfs_getattr env (SLASH # nm) s =
        Some ((0, Some (sfs_fs_inode_to_stat (a_inode (abs_fs f') (freed env n)))), s') \<and> keeps s' f'"
proof -
  have s: "\<not> st_locked s" "st_fs s = Some f" "mounted f" using r by (simp_all add: ready_def)
  let ?s = "s\<lparr>st_locked := True\<rparr>"
  have "st_fs ?s = Some f" using s by simp
  from lookup_ok [OF this s(3) env nm] obtain r it f' where 1:
    "open_root env (SLASH # nm) ?s = Some (Inr (nm, root (abs_fs f)), ?s\<lparr>st_fs := Some (after_read f 1)\<rparr>)"
    "scan_dir env (after_read f 1) (root (abs_fs f)) nm = Some (Some (r, it), f')"
    "mounted f'" "superblock f' = superblock f" "touched (abs_fs f) (root (abs_fs f)) (abs_fs f') (root (abs_fs f'))"
    "found_at (abs_fs f') (root (abs_fs f')) (first_named (abs_fs f') (root (abs_fs f')) nm 0) r it"
    "names (abs_fs f') = names (abs_fs f)"
    by blast
  let ?A = "abs_fs f'"
  note md = mountedD [OF 1(3)]
  have u: "used ?A = used (abs_fs f)" using touched_mounted [OF s(3) 1(5) md(3) 1(4)] by simp
  note to = touched_others [OF s(3) 1(5) u]
  note oc = only_changes_used [OF to(1) [of 0] u]
  note fr = first_named_root [OF md(5) nm]
  have ne: "SLASH # nm \<noteq> [SLASH]" using nm by (simp add: proper_name_def)
  have keep: "\<forall>m. m \<noteq> 1 \<longrightarrow> a_inode ?A m = a_inode (abs_fs f) m" using to(2) by blast
  {
    assume "names (abs_fs f) nm = None"
    then have "first_named ?A (root ?A) nm 0 = None" using fr(2) 1(7) by fastforce
    then have "r = None" using 1(6) by (simp add: found_at_def)
    then show "\<exists>s' f'. sfs_getattr env (SLASH # nm) s = Some ((- ENOENT, None), s') \<and> keeps s' f'"
      using 1 oc s ne keep unfolding keeps_def by (auto simp: sfs_getattr_def critical_def ready_def)
  next
    assume n: "names (abs_fs f) nm = Some n"
    then obtain k where Some: "first_named ?A (root ?A) nm 0 = Some k" using fr(1) 1(7) by fastforce
    note k = fr(2) [OF Some]
    have "r = Some 0" "cached_block it = fblock ?A (root ?A) k" using Some 1(6) by (simp_all add: found_at_def)
    then have x: "r = Some 0" "de_inumber (get_entry 0 (cached_block it)) = n"
      using k n 1(7) by (simp_all add: dino_def dslot_def)
    show "freed env n = 0 \<Longrightarrow> sfs_getattr env (SLASH # nm) s = None"
      using 1 s ne x by (simp add: sfs_getattr_def critical_def sfs_fs_read_inode_def)
    assume v: "valid_ino (superblock f) (freed env n)"
    then have v': "valid_ino (superblock f') (freed env n)" using 1(4) by simp
    show "\<exists>s' f'. sfs_getattr env (SLASH # nm) s =
        Some ((0, Some (sfs_fs_inode_to_stat (a_inode (abs_fs f') (freed env n)))), s') \<and> keeps s' f'"
      using 1 oc s ne x keep v' sfs_fs_read_inode_ok [OF md(3) v'] after_read_mounted [OF 1(3) v'] md(3)
      unfolding keeps_def by (auto simp: sfs_getattr_def critical_def ready_def)
  }
qed

subsection \<open>Removal\<close>

lemma used_same_geometry: "same_geometry (a_super A) (a_super A') \<Longrightarrow> used A' n \<longleftrightarrow> valid_ino (a_super A) n \<and> n \<notin> free_inodes A'"
  using valid_same_geometry(1) [of "a_super A" "a_super A'"] by (simp add: used_def)

lemma same_blocks_file:
  assumes "inode_ok A i" "\<forall>b\<in>set (iptrs A i). a_block A' b = a_block A b \<and> b \<notin> free_blocks A'"
    "valid_block (a_super A') = valid_block (a_super A)"
  shows "fblock A' i = fblock A i"
  by (rule file_frame(4) [OF assms(1) _ assms(3)]) (use assms(2) in auto)

lemma unlinked_mounted:
  assumes m: "mounted f" and A: "A = abs_fs f" "A' = abs_fs f'" and ok: "inode_alloc_ok f'" and k: "live A k" and n: "n = dino A k"
    and i: "i = (a_inode A n)\<lparr>links := l, change_time := t\<rparr>" and u: "unlinked A (root A) k i A' d'"
  shows "mounted f'" "names A' = (names A)(dname A k := None)" "others_same A A' n"
    "l \<noteq> 0 \<Longrightarrow> used A' n \<and> a_inode A' n = i \<and> fblock A' i = fblock A (a_inode A n)" "l = 0 \<Longrightarrow> n \<in> free_inodes A'"
    "used A' j \<Longrightarrow> used A j"
proof -
  note md = mountedD [OF m, folded A(1)]
  have nu: "used A n" "n \<noteq> 1" using k md(5) n by (auto simp: root_ok_def)
  then have ni: "inumber (a_inode A n) = n" "inode_ok A (a_inode A n)" using md(4) by (auto simp: files_ok_def)
  then have ii: "inumber i = n" "links i = l" "block_pointers i = block_pointers (a_inode A n)" using i by simp_all
  from u have un: "dir_ok A' d'" "inumber d' = 1" "dsize d' = dsize (root A)" "iptrs A' d' = iptrs A (root A)"
    "dslot A' d' k = (dslot A (root A) k)\<lparr>de_inumber := 0\<rparr>" "\<And>j. j \<noteq> k \<Longrightarrow> dslot A' d' j = dslot A (root A) j"
    "\<And>j. j \<noteq> 1 \<Longrightarrow> j \<noteq> n \<Longrightarrow> a_inode A' j = a_inode A j" "l \<noteq> 0 \<Longrightarrow> a_inode A' n = i"
    "free_inodes A' = (if l = 0 then insert n (free_inodes A) else free_inodes A)"
    "free_blocks A' = (if l = 0 then free_blocks A \<union> direct_blocks i else free_blocks A)"
    "\<And>c. c \<notin> free_blocks A' \<Longrightarrow> c \<notin> owns A 1 \<Longrightarrow> a_block A' c = a_block A c" "same_geometry (a_super A) (a_super A')"
    using md(9) ii unfolding unlinked_def owns_def by auto
  have r: "root A' = d'" using dir_okD(3) [OF un(1)] un(2) by simp
  have us: "used A' j \<longleftrightarrow> used A j \<and> (l = 0 \<longrightarrow> j \<noteq> n)" for j
    using used_same_geometry [OF un(12)] un(9) by (auto simp: used_def)
  have db: "direct_blocks i \<subseteq> owns A n" using direct_pointers(2) [OF ni(2)] ii by (auto simp: direct_blocks_def owns_def)
  have keep: "a_block A' b = a_block A b \<and> b \<notin> free_blocks A'" if "used A' j" "j \<noteq> 1" "b \<in> owns A j" for j b
  proof -
    have j: "used A j" "l = 0 \<Longrightarrow> j \<noteq> n" using that us by auto
    then have "inode_ok A (a_inode A j)" using md(4) by (simp add: files_ok_def)
    then have "b \<notin> free_blocks A" using that(3) by (auto simp: inode_ok_def owns_def)
    moreover have "b \<notin> direct_blocks i" if "l = 0"
      using that j nu md(4) db \<open>b \<in> owns A j\<close> unfolding files_ok_def by blast
    moreover have "b \<notin> owns A 1" using j that(2,3) md(4,7) unfolding files_ok_def by blast
    ultimately show ?thesis using un(10,11) by auto
  qed
  have bp: "block_pointers (a_inode A' j) = block_pointers (a_inode A j) \<and> inumber (a_inode A' j) = j" if "used A' j" "j \<noteq> 1" for j
  proof (cases "j = n")
    case True
    then show ?thesis using that us un(8) ii by simp
  next
    case False
    then show ?thesis using that us un(7) md(4) by (simp add: files_ok_def)
  qed
  have gb: "valid_block (a_super A') = valid_block (a_super A)" using un(12) valid_same_geometry(2) by simp
  have files: "files_ok A'"
  proof (rule files_ok_step [OF md(4) gb, where x = 1])
    show "used A j \<and> inumber (a_inode A' j) = j \<and> block_pointers (a_inode A' j) = block_pointers (a_inode A j) \<and>
        (\<forall>b\<in>owns A j. a_block A' b = a_block A b \<and> b \<notin> free_blocks A')" if "used A' j" "j \<noteq> 1" for j
      using that us keep bp by blast
    show "inumber (root A') = 1 \<and> inode_ok A' (root A') \<and> owns A' 1 \<subseteq> (if used A 1 then owns A 1 else {}) \<union> free_blocks A"
      using r un(2,4) dir_okD(1) [OF un(1)] md(7) by (simp add: owns_def)
  qed
  have e: "dino A' j = (if j = k then 0 else dino A j)" "dname A' j = dname A j" for j
    using un(5) un(6) [of j] r by (cases "j = k"; simp add: dino_def dname_def)+
  then have lv: "live A' j \<longleftrightarrow> live A j \<and> j \<noteq> k" for j using un(3) r by (simp add: live_def)
  have ro: "root_ok A'"
    unfolding root_ok_def lv using md(5,7) us nu un(1) r n k e unfolding root_ok_def by (auto simp: e)
  show "mounted f'" using ok files ro A by (simp add: mounted_def)
  show "names A' = (names A)(dname A k := None)"
  proof (rule names_eqI [OF md(5) ro])
    fix nm m
    show "(\<exists>j. live A' j \<and> dname A' j = nm \<and> dino A' j = m) \<longleftrightarrow> ((names A)(dname A k := None)) nm = Some m"
      using names_Some [OF md(5), of nm m] md(5) k unfolding root_ok_def lv by (auto simp: e)
  qed
  have fb: "fblock A' (a_inode A j) = fblock A (a_inode A j)" if "used A' j" "j \<noteq> 1" for j
    using that us keep [OF that] md(4) gb by (intro same_blocks_file) (auto simp: files_ok_def owns_def)
  then show "others_same A A' n"
    using us un(7) by (simp add: others_same_def same_file_def)
  show "l \<noteq> 0 \<Longrightarrow> used A' n \<and> a_inode A' n = i \<and> fblock A' i = fblock A (a_inode A n)"
    using us nu un(8) fb [of n] fblock_cong [of A' A' i "a_inode A n"] ii by simp
  show "l = 0 \<Longrightarrow> n \<in> free_inodes A'" using un(9) by simp
  show "used A' j \<Longrightarrow> used A j" using us by simp
qed

text \<open>What a scan for \<open>nm\<close> finds, in terms of names; shared by the operations that take a path.\<close>

lemma lookup_names:
  assumes r: "ready s f" and env: "env_ok env" and nm: "proper_name nm"
  obtains r it f' where
    "open_root env (SLASH # nm) (s\<lparr>st_locked := True\<rparr>) =
       Some (Inr (nm, root (abs_fs f)), s\<lparr>st_locked := True, st_fs := Some (after_read f 1)\<rparr>)"
    "scan_dir env (after_read f 1) (root (abs_fs f)) nm = Some (Some (r, it), f')"
    "mounted f'" "superblock f' = superblock f" "it_inode it = root (abs_fs f')"
    "names (abs_fs f') = names (abs_fs f)" "others_same (abs_fs f) (abs_fs f') n" "used (abs_fs f') = used (abs_fs f)"
    "\<And>m. m \<noteq> 1 \<Longrightarrow> a_inode (abs_fs f') m = a_inode (abs_fs f) m"
    "\<And>m. fblock (abs_fs f') m = fblock (abs_fs f) m" "free_blocks (abs_fs f') = free_blocks (abs_fs f)"
    "touched (abs_fs f) (root (abs_fs f)) (abs_fs f') (root (abs_fs f'))"
    "names (abs_fs f) nm = None \<Longrightarrow> r = None"
    "\<And>n. names (abs_fs f) nm = Some n \<Longrightarrow> r = Some 0 \<and> (\<exists>k. live (abs_fs f') k \<and> dname (abs_fs f') k = nm \<and>
       dino (abs_fs f') k = n \<and> unat (it_iblock it) = k \<and> cached_block it = fblock (abs_fs f') (root (abs_fs f')) k)"
proof -
  have s: "\<not> st_locked s" "st_fs s = Some f" "mounted f" using r by (simp_all add: ready_def)
  have "st_fs (s\<lparr>st_locked := True\<rparr>) = Some f" using s by simp
  from lookup_ok [OF this s(3) env nm] obtain r it f' where 1:
    "open_root env (SLASH # nm) (s\<lparr>st_locked := True\<rparr>) =
       Some (Inr (nm, root (abs_fs f)), s\<lparr>st_locked := True, st_fs := Some (after_read f 1)\<rparr>)"
    "scan_dir env (after_read f 1) (root (abs_fs f)) nm = Some (Some (r, it), f')"
    "mounted f'" "superblock f' = superblock f" "touched (abs_fs f) (root (abs_fs f)) (abs_fs f') (root (abs_fs f'))"
    "it_inode it = root (abs_fs f')"
    "found_at (abs_fs f') (root (abs_fs f')) (first_named (abs_fs f') (root (abs_fs f')) nm 0) r it"
    "names (abs_fs f') = names (abs_fs f)"
    by auto
  note md = mountedD [OF 1(3)]
  have u: "used (abs_fs f') = used (abs_fs f)" using touched_mounted [OF s(3) 1(5) md(3) 1(4)] by simp
  note to = touched_others [OF s(3) 1(5) u] and fr = first_named_root [OF md(5) nm]
  have fb: "fblock (abs_fs f') m = fblock (abs_fs f) m" for m
    using touched_same(8) [OF 1(5)] by (intro fblock_cong) simp_all
  have a: "names (abs_fs f) nm = None \<Longrightarrow> r = None"
    using fr(1) 1(7,8) by (auto simp: found_at_def)
  have b: "r = Some 0 \<and> (\<exists>k. live (abs_fs f') k \<and> dname (abs_fs f') k = nm \<and>
       dino (abs_fs f') k = n \<and> unat (it_iblock it) = k \<and> cached_block it = fblock (abs_fs f') (root (abs_fs f')) k)"
    if "names (abs_fs f) nm = Some n" for n
  proof -
    have "map_option (dino (abs_fs f')) (first_named (abs_fs f') (root (abs_fs f')) nm 0) = Some n"
      using that fr(1) 1(8) by metis
    then obtain k where k: "first_named (abs_fs f') (root (abs_fs f')) nm 0 = Some k" "dino (abs_fs f') k = n"
      by blast
    then show ?thesis using fr(2) [OF k(1)] 1(7) by (auto simp: found_at_def)
  qed
  show ?thesis
    by (rule that [OF 1(1-4,6,8) to(1) u to(2) fb touched_dir(5) [OF 1(5)] 1(5) a b])
qed

lemma unlink_absent:
  assumes r: "ready s f" and env: "env_ok env" and nm: "proper_name nm" and n: "names (abs_fs f) nm = None"
  shows "\<exists>s' f'. sfs_unlink env (SLASH # nm) s = Some (- ENOENT, s') \<and> ready s' f' \<and> st_pool s' = st_pool s \<and>
    names (abs_fs f') = names (abs_fs f) \<and> others_same (abs_fs f) (abs_fs f') 0"
proof -
  obtain r it f' where 1: "open_root env (SLASH # nm) (s\<lparr>st_locked := True\<rparr>) =
       Some (Inr (nm, root (abs_fs f)), s\<lparr>st_locked := True, st_fs := Some (after_read f 1)\<rparr>)"
    "scan_dir env (after_read f 1) (root (abs_fs f)) nm = Some (Some (r, it), f')"
    "mounted f'" "names (abs_fs f') = names (abs_fs f)" "others_same (abs_fs f) (abs_fs f') 0" "r = None"
    by (rule lookup_names [OF r env nm, where n = 0]) (use n in auto)
  have "SLASH # nm \<noteq> [SLASH]" using nm by (simp add: proper_name_def)
  then show ?thesis using 1 r by (auto simp: sfs_unlink_def critical_def ready_def)
qed

text \<open>The inode \<open>n\<close> after one of its links has gone: free with the last link, otherwise with the same contents.\<close>

definition link_dropped :: "fs_abs \<Rightarrow> fs_abs \<Rightarrow> u64 \<Rightarrow> bool" where
  "link_dropped A A' n \<longleftrightarrow>
     (if links (a_inode A n) = 1 then n \<in> free_inodes A'
      else used A' n \<and> (\<exists>t. a_inode A' n = (a_inode A n)\<lparr>links := links (a_inode A n) - 1, change_time := t\<rparr>) \<and>
        fblock A' (a_inode A' n) = fblock A (a_inode A n))"

lemma unlink_present:
  assumes r: "ready s f" and env: "env_ok env" and nm: "proper_name nm" and n: "names (abs_fs f) nm = Some n"
  shows "\<exists>s' f'. sfs_unlink env (SLASH # nm) s = Some (0, s') \<and> ready s' f' \<and> st_pool s' = st_pool s \<and>
    names (abs_fs f') = (names (abs_fs f))(nm := None) \<and> others_same (abs_fs f) (abs_fs f') n \<and>
    link_dropped (abs_fs f) (abs_fs f') n \<and> (\<forall>m. used (abs_fs f') m \<longrightarrow> used (abs_fs f) m)"
proof -
  obtain r it f1 where 1: "open_root env (SLASH # nm) (s\<lparr>st_locked := True\<rparr>) =
       Some (Inr (nm, root (abs_fs f)), s\<lparr>st_locked := True, st_fs := Some (after_read f 1)\<rparr>)"
    "scan_dir env (after_read f 1) (root (abs_fs f)) nm = Some (Some (r, it), f1)"
    "mounted f1" "superblock f1 = superblock f" "it_inode it = root (abs_fs f1)"
    "names (abs_fs f1) = names (abs_fs f)" "others_same (abs_fs f) (abs_fs f1) n"
    "\<And>m. m \<noteq> 1 \<Longrightarrow> a_inode (abs_fs f1) m = a_inode (abs_fs f) m" "\<And>m. fblock (abs_fs f1) m = fblock (abs_fs f) m"
    "used (abs_fs f1) = used (abs_fs f)" "r = Some 0 \<and> (\<exists>k. live (abs_fs f1) k \<and> dname (abs_fs f1) k = nm \<and>
       dino (abs_fs f1) k = n \<and> unat (it_iblock it) = k \<and> cached_block it = fblock (abs_fs f1) (root (abs_fs f1)) k)"
    by (rule lookup_names [OF r env nm, where n = n]) (use n in blast)
  then obtain k where k: "live (abs_fs f1) k" "dname (abs_fs f1) k = nm" "dino (abs_fs f1) k = n" "unat (it_iblock it) = k"
    "cached_block it = fblock (abs_fs f1) (root (abs_fs f1)) k" by blast
  let ?A = "abs_fs f1" and ?i = "a_inode (abs_fs f1) n"
  note md = mountedD [OF 1(3)]
  have nu: "used ?A n" "n \<noteq> 1" using k md(5) by (auto simp: root_ok_def)
  then have ni: "inumber ?i = n" "inode_ok ?A ?i" "set (iptrs ?A ?i) \<inter> set (iptrs ?A (root ?A)) = {}"
    using md(4,7) by (auto simp: files_ok_def owns_def)
  have "\<exists>t it' f'. sfs_dir_iter_unlink f1 it 0 = Some (0, it', f') \<and> inode_alloc_ok f' \<and>
    unlinked ?A (root ?A) k (?i\<lparr>links := links ?i - 1, change_time := t\<rparr>) (abs_fs f') (it_inode it')"
    using md nu ni k 1(5) by (intro iter_unlink_ok) (auto simp: used_def live_def dlive_def dino_def)
  then obtain t it' f' where 2: "sfs_dir_iter_unlink f1 it 0 = Some (0, it', f')" "inode_alloc_ok f'"
    "unlinked ?A (root ?A) k (?i\<lparr>links := links ?i - 1, change_time := t\<rparr>) (abs_fs f') (it_inode it')" by blast
  note um = unlinked_mounted [OF 1(3) refl refl 2(2) k(1) k(3) [symmetric] refl 2(3)]
  have ld: "link_dropped (abs_fs f) (abs_fs f') n"
    using um(4,5) 1(8) [OF nu(2)] 1(9) by (auto simp: link_dropped_def)
  have ne: "SLASH # nm \<noteq> [SLASH]" using nm by (simp add: proper_name_def)
  let ?s' = "s\<lparr>st_locked := False, st_fs := Some f'\<rparr>"
  have "sfs_unlink env (SLASH # nm) s = Some (0, ?s')"
    using 1(1,2,11) 2(1) ne r by (simp add: sfs_unlink_def critical_def ready_def)
  moreover have "ready ?s' f'" using um(1) by (simp add: ready_def)
  moreover have "names (abs_fs f') = (names (abs_fs f))(nm := None)" using um(2) k(2) 1(6) by simp
  ultimately show ?thesis using others_same_trans [OF 1(7) um(3)] ld um(6) 1(10)
    by (intro exI [of _ ?s'] exI [of _ f']) simp
qed

subsection \<open>Creation\<close>

text \<open>A free inode becomes a file with no blocks and no name.\<close>

lemma fresh_file_mounted:
  assumes m: "mounted f" and A: "A = abs_fs f" "A' = abs_fs f'" and ok: "inode_alloc_ok f'"
    and n: "n \<in> free_inodes A" "inumber i = n" "block_pointers i = replicate 14 0"
    and A': "a_inode A' = (a_inode A)(n := i)" "a_block A' = a_block A" "free_inodes A' = free_inodes A - {n}"
      "free_blocks A' = free_blocks A" "same_geometry (a_super A) (a_super A')"
  shows "mounted f'" "names A' = names A" "used A' m \<longleftrightarrow> used A m \<or> m = n" "others_same A A' n"
    "root A' = root A" "dslot A' (root A') = dslot A (root A)" "\<And>k. live A k \<Longrightarrow> dino A k \<noteq> n" "n \<noteq> 1"
    "owns A' n = {}"
proof -
  note md = mountedD [OF m, folded A(1)]
  show n1: "n \<noteq> 1" using n md(7) by (auto simp: used_def)
  have nv: "valid_ino (a_super A) n" using inodes_alloc.free_valid [OF md(1)] n A by auto
  have us: "used A' m \<longleftrightarrow> used A m \<or> m = n" for m
    using used_same_geometry [OF A'(5)] A'(3) nv by (auto simp: used_def)
  then show "used A' m \<longleftrightarrow> used A m \<or> m = n" .
  show r: "root A' = root A" using A'(1) n1 by simp
  have fb: "fblock A' d = fblock A d" for d using A'(2) by (intro fblock_cong) simp_all
  then show ds: "dslot A' (root A') = dslot A (root A)" by (simp add: dslot_def r fun_eq_iff)
  have gb: "valid_block (a_super A') = valid_block (a_super A)" "valid_ino (a_super A') = valid_ino (a_super A)"
    using A'(5) valid_same_geometry by simp_all
  have io: "inode_ok A' d = inode_ok A d" "iptrs A' d = iptrs A d" for d
    using A'(2,4) gb iptrs_cong [of A' A d d] by (simp_all add: inode_ok_def)
  have "fptr A' i k = 0" for k using n(3) by (simp add: fptr_def)
  then have ip: "iptrs A' i = []" using n(3) by (simp add: iptrs_def)
  then show ow: "owns A' n = {}" using A'(1) by (simp add: owns_def)
  show nd: "live A k \<Longrightarrow> dino A k \<noteq> n" for k using md(5) n by (auto simp: root_ok_def used_def)
  have files: "files_ok A'"
  proof (rule files_ok_step [OF md(4) gb(1), where x = n])
    fix j assume j: "used A' j" "j \<noteq> n"
    then have "used A j" "inumber (a_inode A j) = j \<and> inode_ok A (a_inode A j)" using us md(4) by (auto simp: files_ok_def)
    then show "used A j \<and> inumber (a_inode A' j) = j \<and> block_pointers (a_inode A' j) = block_pointers (a_inode A j) \<and>
        (\<forall>b\<in>owns A j. a_block A' b = a_block A b \<and> b \<notin> free_blocks A')"
      using j A' by (auto simp: owns_def inode_ok_def)
  next
    show "inumber (a_inode A' n) = n \<and> inode_ok A' (a_inode A' n) \<and>
        owns A' n \<subseteq> (if used A n then owns A n else {}) \<union> free_blocks A"
      using ow A'(1) n ip by (simp add: inode_ok_def wf_inode_def)
  qed
  have d: "dir_ok A' (root A')" using md(6) r io gb A'(1) n1 by (simp add: dir_ok_def md(9))
  have "\<And>k. dslot A' (root A') k = dslot A (root A) k" "dsize (root A') = dsize (root A)" using ds r by simp_all
  note rs = this
  have ro: "root_ok A'"
    by (rule root_ok_same [OF md(5) d rs]) (use us md(5) in \<open>auto simp: root_ok_def\<close>)
  show "names A' = names A" by (rule root_same [OF rs])
  show "mounted f'" using ok files ro A by (simp add: mounted_def)
  show "others_same A A' n" using us A'(1) fb by (simp add: others_same_def same_file_def)
qed

text \<open>A file with no name gets one.\<close>

lemma linked_mounted:
  assumes m: "mounted f" and A: "A = abs_fs f" "A' = abs_fs f'" and al: "alloc_ok f'" and h: "head_moved f f'"
    and n: "used A n" "n \<noteq> 1" "\<And>j. live A j \<Longrightarrow> dino A j \<noteq> n" and nm: "proper_name nm" "names A nm = None"
    and k: "k = vacant_from A (root A) 0" "k < 76" and l: "linked A (root A) (a_inode A n) k nm A' d' i'"
  shows "mounted f'" "names A' = (names A)(nm \<mapsto> n)" "others_same A A' n" "a_inode A' n = i'" "used A' = used A"
    "\<exists>t. i' = (a_inode A n)\<lparr>links := links (a_inode A n) + 1, change_time := t\<rparr>"
    "fblock A' i' = fblock A (a_inode A n)"
proof -
  note md = mountedD [OF m, folded A(1)]
  have ni: "inumber (a_inode A n) = n" using md(4) n by (simp add: files_ok_def)
  from l have ln: "dir_ok A' d'" "inumber d' = 1" "dsize d' = max (dsize (root A)) (Suc k)"
    "dslot A' d' k = \<lparr>de_inumber = n, de_name = strncpy 256 nm\<rparr>" "\<And>j. j < 76 \<Longrightarrow> j \<noteq> k \<Longrightarrow> dslot A' d' j = dslot A (root A) j"
    "\<exists>t. i' = (a_inode A n)\<lparr>links := links (a_inode A n) + 1, change_time := t\<rparr>" "a_inode A' n = i'"
    "\<And>j. j \<noteq> 1 \<Longrightarrow> j \<noteq> n \<Longrightarrow> a_inode A' j = a_inode A j"
    "\<And>b. b \<notin> free_blocks A \<Longrightarrow> b \<notin> owns A 1 \<Longrightarrow> a_block A' b = a_block A b" "free_blocks A' \<subseteq> free_blocks A"
    "set (iptrs A' d') = owns A 1 \<union> (free_blocks A - free_blocks A')"
    using md(9) ni unfolding linked_def owns_def by auto
  show "a_inode A' n = i'" "\<exists>t. i' = (a_inode A n)\<lparr>links := links (a_inode A n) + 1, change_time := t\<rparr>"
    by (rule ln(7), rule ln(6))
  have bpi: "block_pointers i' = block_pointers (a_inode A n)" "inumber i' = n" using ln(6) ni by auto
  have r: "root A' = d'" using dir_okD(3) [OF ln(1)] ln(2) by simp
  have g: "valid_block (a_super A') = valid_block (a_super A)" "valid_ino (a_super A') = valid_ino (a_super A)"
    using h A by (auto simp: head_moved_def)
  have nf: "n \<notin> free_inodes A" "1 \<notin> free_inodes A" using n(1) md(7) by (auto simp: used_def)
  have ik: "inode_alloc_ok f'" "free_inodes A' = free_inodes A"
    using inode_alloc_keep [OF md(1) al h] ln(8) nf A by metis+
  then show us: "used A' = used A" using g by (simp add: used_def fun_eq_iff)
  have keep: "a_block A' b = a_block A b \<and> b \<notin> free_blocks A'" if "used A j" "j \<noteq> 1" "b \<in> owns A j" for j b
  proof -
    have "b \<notin> free_blocks A" using that md(4) by (auto simp: files_ok_def inode_ok_def owns_def)
    moreover have "b \<notin> owns A 1" using that md(4,7) unfolding files_ok_def by blast
    ultimately show ?thesis using ln(9,10) by blast
  qed
  have bp: "block_pointers (a_inode A' j) = block_pointers (a_inode A j) \<and> inumber (a_inode A' j) = j" if "used A j" "j \<noteq> 1" for j
    using that ln(7,8) bpi md(4) by (cases "j = n") (auto simp: files_ok_def)
  have files: "files_ok A'"
  proof (rule files_ok_step [OF md(4) g(1), where x = 1])
    show "used A j \<and> inumber (a_inode A' j) = j \<and> block_pointers (a_inode A' j) = block_pointers (a_inode A j) \<and>
        (\<forall>b\<in>owns A j. a_block A' b = a_block A b \<and> b \<notin> free_blocks A')" if "used A' j" "j \<noteq> 1" for j
      using that us keep bp by simp
    show "inumber (root A') = 1 \<and> inode_ok A' (root A') \<and> owns A' 1 \<subseteq> (if used A 1 then owns A 1 else {}) \<union> free_blocks A"
      using r ln(2,11) dir_okD(1) [OF ln(1)] md(7) by (auto simp: owns_def)
  qed
  have vac: "\<not> live A k" using k(1) by (auto simp: vacant_from_def live_def dlive_def dino_def split: option.splits dest!: find_upt_Some)
  have kd: "k < dsize d'" using ln(3) by simp
  have sz: "dsize (root A) \<le> 76" using dir_okD(7) [OF md(6)] .
  have kle: "k \<le> dsize (root A)" using k(1) by (auto simp: vacant_from_def split: option.splits dest!: find_upt_Some)
  have e: "live A' j \<longleftrightarrow> live A j \<or> j = k" "live A j \<Longrightarrow> dino A' j = dino A j \<and> dname A' j = dname A j"
    "dino A' k = n" "dname A' k = nm" for j
  proof -
    have "n \<noteq> 0" using n(1) by (auto simp: used_def valid_ino_def)
    then have lk: "live A' k" using ln(4) r kd by (simp add: dino_def live_def)
    show "dino A' k = n" using ln(4) r by (simp add: dino_def)
    show "dname A' k = nm" using ln(4) r nm(1) by (simp add: dname_def proper_name_def cstr_strncpy)
    show "dino A' j = dino A j \<and> dname A' j = dname A j" if "live A j"
    proof -
      have "j \<noteq> k" "j < 76" using that vac sz by (auto simp: live_def)
      then show ?thesis using ln(5) r by (simp add: dino_def dname_def)
    qed
    have "live A' j \<longleftrightarrow> live A j" if "j \<noteq> k"
      using that ln(3) ln(5) [of j] sz kle k(2) r by (auto simp: live_def dino_def)
    with lk show "live A' j \<longleftrightarrow> live A j \<or> j = k" by blast
  qed
  have nm': "live A j \<Longrightarrow> dname A j \<noteq> nm" for j using nm(2) by (simp add: names_None)
  have ro: "root_ok A'" unfolding root_ok_def
  proof (intro conjI allI impI; (elim conjE)?)
    show "used A' 1" "dir_ok A' (root A')" using us md(7) ln(1) r by simp_all
    show "used A' (dino A' j)" "dino A' j \<noteq> 1" if "live A' j" for j
      using that e n us md(5) by (auto simp: root_ok_def)
    show "j = j'" if "live A' j" "live A' j'" "dname A' j = dname A' j' \<or> dino A' j = dino A' j'" for j j'
      using that e(1,2) [of j] e(1,2) [of j'] e(3,4) n(3) [of j] n(3) [of j'] nm' [of j] nm' [of j'] md(5)
      unfolding root_ok_def by metis
  qed
  show "mounted f'" using ik files ro A by (simp add: mounted_def)
  show "names A' = (names A)(nm \<mapsto> n)"
  proof (rule names_eqI [OF md(5) ro])
    fix x y
    show "(\<exists>j. live A' j \<and> dname A' j = x \<and> dino A' j = y) \<longleftrightarrow> ((names A)(nm \<mapsto> n)) x = Some y"
      using names_Some [OF md(5), of x y] e nm' by (auto simp: fun_upd_def)
  qed
  have fb: "fblock A' (a_inode A j) = fblock A (a_inode A j)" if "used A j" "j \<noteq> 1" for j
    using that keep md(4) g(1) by (intro same_blocks_file) (auto simp: files_ok_def owns_def)
  then show "others_same A A' n" using us ln(8) by (simp add: others_same_def same_file_def)
  show "fblock A' i' = fblock A (a_inode A n)" using fb [OF n(1,2)] fblock_cong [of A' A' i' "a_inode A n"] bpi by simp
qed

text \<open>The inode of a new file: the mode and owner asked for, two links (its name and the open file), no contents.\<close>

definition new_inode :: "sfs_env \<Rightarrow> u32 \<Rightarrow> fs_abs \<Rightarrow> u64 \<Rightarrow> sfs_fs_inode \<Rightarrow> bool" where
  "new_inode env cmode A n i \<longleftrightarrow>
     (\<exists>t1 t2 t3. i =
        \<lparr>inumber = n, mode = (0xFFF AND cmode AND NOT (caller_umask env)) OR S_IFREG, uid = caller_uid env,
         gid = (if mode (root A) AND S_ISGID \<noteq> 0 then gid (a_inode A n) else caller_gid env), links = 2,
         access_time = t1, modified_time = t2, change_time = t3, isize = 0, block_pointers = replicate 14 0\<rparr>)"

lemma inode_overwrite:
  fixes i :: sfs_fs_inode
  shows "i\<lparr>mode := a, uid := b, gid := c, links := l, access_time := t1, modified_time := t2, change_time := t3,
      isize := z, block_pointers := bp\<rparr> =
    \<lparr>inumber = inumber i, mode = a, uid = b, gid = c, links = l, access_time = t1, modified_time = t2,
      change_time = t3, isize = z, block_pointers = bp\<rparr>"
  by (cases i) simp

lemma tick3: "time (disk (tick f)) = (fs_now (tick f), disk (tick (tick f)))" "f\<lparr>disk := disk (tick (tick (tick f)))\<rparr> = tick (tick (tick f))"
  by (simp_all add: time_tick disk_of_eq)

lemma new_file_ok:
  assumes m: "mounted f" and A: "A = abs_fs f" and fi: "free_inodes A \<noteq> {}" and nm: "proper_name nm" "names A nm = None"
    and w: "writable A (root A) (vacant_from A (root A) 0)"
  shows "\<exists>n f'. new_file env cmode f (root A) nm = Some (Inr n, f') \<and> mounted f' \<and> n \<in> free_inodes A \<and>
    names (abs_fs f') = (names A)(nm \<mapsto> n) \<and> others_same A (abs_fs f') n \<and>
    (\<forall>m. used (abs_fs f') m \<longleftrightarrow> used A m \<or> m = n) \<and> new_inode env cmode A n (a_inode (abs_fs f') n)"
proof -
  note md = mountedD [OF m, folded A]
  obtain i f1 h where 1: "sfs_fs_inode_allocate f = Some (Some i, f1)" "inode_alloc_ok f1" "inumber i \<in> free_inodes A"
    "i = a_inode A (inumber i)" "free_inodes (abs_fs f1) = free_inodes A - {inumber i}"
    "free_blocks (abs_fs f1) = free_blocks A" "a_inode (abs_fs f1) = a_inode A" "a_block (abs_fs f1) = a_block A"
    "superblock f1 = (superblock f)\<lparr>free_inode_head := h\<rparr>"
    using inode_allocate_ok [OF md(1)] fi A by auto
  let ?n = "inumber i" and ?f2 = "tick (tick (tick f1))"
  let ?gid = "if mode (root A) AND S_ISGID \<noteq> 0 then gid i else caller_gid env"
  let ?i = "\<lparr>inumber = ?n, mode = (0xFFF AND cmode AND NOT (caller_umask env)) OR S_IFREG, uid = caller_uid env,
      gid = ?gid, links = 1, access_time = fs_now f1, modified_time = fs_now (tick f1),
      change_time = fs_now (tick (tick f1)), isize = 0, block_pointers = replicate 14 0\<rparr>"
  have nv: "valid_ino (superblock f) ?n" using inodes_alloc.free_valid [OF md(1)] 1(3) A by auto
  have p: "inode_alloc_ok ?f2" "valid_ino (superblock ?f2) (inumber ?i)" "wf_inode ?i" "inumber ?i \<notin> free_inodes (abs_fs ?f2)"
    using 1(2,5,9) nv by (simp_all add: wf_inode_def)
  let ?f3 = "after_write ?f2 ?i" and ?A3 = "abs_fs (after_write ?f2 ?i)"
  note aw = after_write_abs [OF inode_alloc_okD(2) [OF p(1)] p(2,3)] after_write_inode_alloc [OF p]
  have g: "same_geometry (a_super A) (a_super ?A3)" using aw(3) 1(9) A by (simp add: same_geometry_def)
  have "mounted ?f3" "names ?A3 = names A" "used ?A3 m \<longleftrightarrow> used A m \<or> m = ?n" "others_same A ?A3 ?n"
    "root ?A3 = root A" "dslot ?A3 (root ?A3) = dslot A (root A)" "\<And>k. live A k \<Longrightarrow> dino A k \<noteq> ?n" "?n \<noteq> 1" for m
    by (rule fresh_file_mounted [OF m A refl aw(4) 1(3), of ?i]; use aw(1,5) 1(5-8) g in simp)+
  note fm = this
  note md3 = mountedD [OF fm(1)]
  have vf: "vacant_from ?A3 (root ?A3) 0 = vacant_from A (root A) 0"
    using fm(5,6) by (simp add: vacant_from_def dlive_def)
  have bl: "a_block ?A3 = a_block A" using aw(1) 1(8) by simp
  have hd: "free_blocks_head (a_super ?A3) = free_blocks_head (a_super A)" using aw(3) 1(9) A by simp
  have w3: "writable ?A3 (root ?A3) (vacant_from ?A3 (root ?A3) 0)"
    using w unfolding writable_def fm(5) vf [unfolded fm(5)] fptr_cong [OF bl refl] free_blocks_cong [OF bl hd] index_ready_cong [OF bl hd] .
  have i3: "a_inode ?A3 ?n = ?i" using aw(1) by simp
  have "\<exists>d' i' f'. sfs_dir_link ?f3 (root ?A3) nm ?i = Some (0, d', i', f') \<and> alloc_ok f' \<and> head_moved ?f3 f' \<and>
      linked ?A3 (root ?A3) ?i (vacant_from ?A3 (root ?A3) 0) nm (abs_fs f') d' i'"
    using md3 nv p(3) fm(8) nm(1) aw(3) 1(9) by (intro dir_link_ok [OF md3(2,6) _ p(3) _ _ w3]) (simp_all add: proper_name_def)
  then obtain d' i' f' where 4: "sfs_dir_link ?f3 (root ?A3) nm ?i = Some (0, d', i', f')" "alloc_ok f'" "head_moved ?f3 f'"
    "linked ?A3 (root ?A3) (a_inode ?A3 ?n) (vacant_from ?A3 (root ?A3) 0) nm (abs_fs f') d' i'"
    using i3 by auto
  have n3: "used ?A3 ?n" "names ?A3 nm = None" "\<And>j. live ?A3 j \<Longrightarrow> dino ?A3 j \<noteq> ?n"
    using fm(2,3) nm(2) root_same(1,2) [of ?A3 A] fm(5-7) by simp_all
  have k76: "vacant_from ?A3 (root ?A3) 0 < 76" using w3 by (simp add: writable_def)
  note lm = linked_mounted [OF fm(1) refl refl 4(2,3) n3(1) fm(8) n3(3) nm(1) n3(2) refl k76 4(4)]
  have "new_file env cmode f (root A) nm = Some (Inr ?n, f')"
    using 1(1) 4(1) fm(5) sfs_fs_write_inode_ok [OF inode_alloc_okD(2) [OF p(1)] p(2)]
    by (simp add: new_file_def Let_def time_tick(1) tick3 inode_overwrite cong: if_cong split del: if_split)
  moreover have "new_inode env cmode A ?n (a_inode (abs_fs f') ?n)"
    using lm(4,6) 1(4) unfolding i3 new_inode_def by auto
  moreover have "names (abs_fs f') = (names A)(nm \<mapsto> ?n)" using lm(2) fm(2) by simp
  ultimately show ?thesis
    using lm(1,5) fm(3) 1(3) others_same_trans [OF fm(4) lm(3)] by (intro exI [of _ ?n] exI [of _ f']) simp
qed

end
