(* ===== verification/Open_Files.thy ===== *)
theory Open_Files
  imports Namespace
begin

text \<open>
  Open files. The link count of an inode is the number of its names, which is at most one, plus the
  number of descriptors open on it; an inode in use has a link. This is the invariant that makes
  it safe to deallocate an inode with its last link, and that keeps \<^verbatim>\<open>sfs_release\<close> from failing its
  assertion.
\<close>

subsection \<open>Changing an inode\<close>

text \<open>An inode other than the root is rewritten with the same blocks.\<close>

lemma meta_mounted:
  assumes m: "mounted f" and n: "used (abs_fs f) n" "n \<noteq> 1" "inumber i = n"
    "block_pointers i = block_pointers (a_inode (abs_fs f) n)"
  defines "f' \<equiv> after_write f i"
  shows "sfs_fs_write_inode f i = Some (0, f')" "mounted f'" "names (abs_fs f') = names (abs_fs f)"
    "used (abs_fs f') = used (abs_fs f)" "others_same (abs_fs f) (abs_fs f') n" "a_inode (abs_fs f') n = i"
    "fblock (abs_fs f') = fblock (abs_fs f)" "free_blocks (abs_fs f') = free_blocks (abs_fs f)"
    "fptr (abs_fs f') = fptr (abs_fs f)" "superblock f' = superblock f"
    "free_inodes (abs_fs f') = free_inodes (abs_fs f)" "owns (abs_fs f') = owns (abs_fs f)"
    "a_block (abs_fs f') = a_block (abs_fs f)"
proof -
  let ?A = "abs_fs f" and ?A' = "abs_fs f'"
  note md = mountedD [OF m]
  have ni: "inumber (a_inode ?A n) = n" "inode_ok ?A (a_inode ?A n)" using n md(4) by (auto simp: files_ok_def)
  have p: "valid_ino (superblock f) (inumber i)" "wf_inode i" "inumber i \<notin> free_inodes ?A"
    using n ni(2) by (auto simp: used_def inode_ok_def wf_inode_def)
  note aw = after_write_abs [OF md(3) p(1,2), folded f'_def] after_write_inode_alloc [OF md(1) p, folded f'_def]
  show "sfs_fs_write_inode f i = Some (0, f')" using sfs_fs_write_inode_ok [OF md(3) p(1)] by (simp add: f'_def)
  have sel: "a_inode ?A' = (a_inode ?A)(n := i)" "a_block ?A' = a_block ?A" "a_super ?A' = a_super ?A" using aw(1) n(3) by simp_all
  show "a_block ?A' = a_block ?A" by (rule sel(2))
  show fp: "fptr ?A' = fptr ?A" and fb: "fblock ?A' = fblock ?A"
    using sel(2) by (simp_all add: fptr_def fblock_def fun_eq_iff)
  show fr: "free_blocks ?A' = free_blocks ?A" using sel by (intro free_blocks_cong) simp_all
  show fi: "free_inodes ?A' = free_inodes ?A" by (rule aw(5))
  show us: "used ?A' = used ?A" using fi sel by (simp add: used_def fun_eq_iff)
  show "superblock f' = superblock f" "a_inode ?A' n = i" using aw(3) sel by simp_all
  have ip: "iptrs ?A' d = iptrs ?A d" "inode_ok ?A' d = inode_ok ?A d" for d
    using fp fr sel by (simp_all add: inode_ok_def iptrs_def)
  have "iptrs ?A i = iptrs ?A (a_inode ?A n)" using n(4) by (intro iptrs_cong) simp_all
  then show ow: "owns ?A' = owns ?A" using sel ip by (simp add: owns_def fun_eq_iff)
  have "inode_ok ?A i" using ni(2) n(4) inode_ok_cong [of ?A ?A i "a_inode ?A n"] by simp
  then have files: "files_ok ?A'" using md(4) us ow sel ip n(3) by (auto simp: files_ok_def)
  have r: "root ?A' = root ?A" using sel n(2) by simp
  have d: "dir_ok ?A' (root ?A')" using md(6) ip sel n(2) md(9) by (simp add: dir_ok_def)
  have rs: "\<And>k. dslot ?A' (root ?A') k = dslot ?A (root ?A) k" "dsize (root ?A') = dsize (root ?A)"
    using fb r by (simp_all add: dslot_def)
  have ro: "root_ok ?A'" by (rule root_ok_same [OF md(5) d rs]) (use us md(5) in \<open>auto simp: root_ok_def\<close>)
  show "mounted f'" using aw(4) files ro by (simp add: mounted_def)
  show "names ?A' = names ?A" by (rule root_same [OF rs])
  show "others_same ?A ?A' n" using us sel fb by (simp add: others_same_def same_file_def)
qed

lemma mounted_tick [simp]: "mounted (tick f) = mounted f"
  by (simp add: mounted_def)

lemma add_link_ok:
  assumes m: "mounted f" and n: "used (abs_fs f) n" "n \<noteq> 1"
  shows "\<exists>t f'. add_link f n = Some (Inr (a_inode (abs_fs f') n), f') \<and> mounted f' \<and>
    names (abs_fs f') = names (abs_fs f) \<and> used (abs_fs f') = used (abs_fs f) \<and> others_same (abs_fs f) (abs_fs f') n \<and>
    a_inode (abs_fs f') n = (a_inode (abs_fs f) n)\<lparr>links := links (a_inode (abs_fs f) n) + 1, change_time := t\<rparr> \<and>
    fblock (abs_fs f') = fblock (abs_fs f) \<and> free_blocks (abs_fs f') = free_blocks (abs_fs f)"
proof -
  note md = mountedD [OF m]
  have v: "valid_ino (superblock f) n" using n by (simp add: used_def)
  let ?f1 = "tick (after_read f n)" and ?t = "fs_now (after_read f n)" and ?i = "a_inode (abs_fs f) n"
  have 1: "mounted ?f1" "abs_fs ?f1 = abs_fs f" using after_read_mounted [OF m v] md(3) v by simp_all
  let ?i' = "?i\<lparr>links := links ?i + 1, change_time := ?t\<rparr>"
  have "inumber ?i' = n" using n md(4) by (simp add: files_ok_def)
  then have i': "used (abs_fs ?f1) n" "inumber ?i' = n" "block_pointers ?i' = block_pointers (a_inode (abs_fs ?f1) n)"
    using n 1 by simp_all
  note mm = meta_mounted [OF 1(1) i'(1) n(2) i'(2,3)]
  have "add_link f n = Some (Inr ?i', after_write ?f1 ?i')"
    using sfs_fs_read_inode_ok [OF md(3) v] mm(1) by (simp add: add_link_def Let_def disk_access)
  then show ?thesis
    using mm(2-8) 1(2) by (intro exI [of _ ?t] exI [of _ "after_write ?f1 ?i'"]) simp
qed

text \<open>A link of an inode is dropped, the last one only when the inode has no name.\<close>

lemma dropped_mounted:
  assumes m: "mounted f" and A: "A = abs_fs f" "A' = abs_fs f'" and ok: "inode_alloc_ok f'" and n: "used A n" "n \<noteq> 1"
    and i: "i = (a_inode A n)\<lparr>links := l, change_time := t\<rparr>" and dr: "dropped A i A'" and l: "l = 0 \<Longrightarrow> n \<notin> ran (names A)"
  shows "mounted f'" "names A' = names A" "others_same A A' n" "used A' j \<longleftrightarrow> used A j \<and> (l = 0 \<longrightarrow> j \<noteq> n)"
    "l \<noteq> 0 \<Longrightarrow> a_inode A' n = i \<and> fblock A' i = fblock A (a_inode A n)"
proof -
  note md = mountedD [OF m, folded A(1)]
  have ni: "inumber (a_inode A n) = n" "inode_ok A (a_inode A n)" using n md(4) by (auto simp: files_ok_def)
  then have ii: "inumber i = n" "links i = l" "block_pointers i = block_pointers (a_inode A n)" using i by simp_all
  from dr have un: "\<And>j. j \<noteq> n \<Longrightarrow> a_inode A' j = a_inode A j" "l \<noteq> 0 \<Longrightarrow> a_inode A' n = i"
    "free_inodes A' = (if l = 0 then insert n (free_inodes A) else free_inodes A)"
    "free_blocks A' = (if l = 0 then free_blocks A \<union> direct_blocks i else free_blocks A)"
    "\<And>c. c \<notin> free_blocks A' \<Longrightarrow> a_block A' c = a_block A c" "same_geometry (a_super A) (a_super A')"
    using ii unfolding dropped_def by auto
  have us: "used A' j \<longleftrightarrow> used A j \<and> (l = 0 \<longrightarrow> j \<noteq> n)" for j
    using used_same_geometry [OF un(6)] un(3) by (auto simp: used_def)
  then show "used A' j \<longleftrightarrow> used A j \<and> (l = 0 \<longrightarrow> j \<noteq> n)" .
  have db: "direct_blocks i \<subseteq> owns A n" using direct_pointers(2) [OF ni(2)] ii by (auto simp: direct_blocks_def owns_def)
  have gb: "valid_block (a_super A') = valid_block (a_super A)" "valid_ino (a_super A') = valid_ino (a_super A)"
    using un(6) valid_same_geometry by simp_all
  have keep: "a_block A' b = a_block A b \<and> b \<notin> free_blocks A'" if "used A' j" "b \<in> owns A j" for j b
  proof -
    have j: "used A j" "l = 0 \<Longrightarrow> j \<noteq> n" using that us by auto
    then have "b \<notin> free_blocks A" using that(2) md(4) by (auto simp: files_ok_def inode_ok_def owns_def)
    moreover have "b \<notin> direct_blocks i" if "l = 0"
      using that j n md(4) db \<open>b \<in> owns A j\<close> unfolding files_ok_def by blast
    ultimately show ?thesis using un(4,5) by auto
  qed
  have bp: "block_pointers (a_inode A' j) = block_pointers (a_inode A j) \<and> inumber (a_inode A' j) = j" if "used A' j" for j
    using that us un(1,2) ii md(4) by (cases "j = n") (auto simp: files_ok_def)
  have ff: "fblock A' (a_inode A j) = fblock A (a_inode A j)" "inode_ok A' (a_inode A' j)" "owns A' j = owns A j" if "used A' j" for j
  proof -
    have j: "inode_ok A (a_inode A j)" using that us md(4) by (simp add: files_ok_def)
    have k: "\<And>b. b \<in> set (iptrs A (a_inode A j)) \<Longrightarrow> a_block A' b = a_block A b \<and> b \<notin> free_blocks A'"
      using keep [OF that] by (simp add: owns_def)
    note f = file_frame [OF j k gb(1)]
    show "fblock A' (a_inode A j) = fblock A (a_inode A j)" by (rule f(4))
    show "inode_ok A' (a_inode A' j)" using f(3) bp [OF that] inode_ok_cong [of A' A' "a_inode A' j" "a_inode A j"] by simp
    show "owns A' j = owns A j" using f(2) bp [OF that] iptrs_cong [of A' A' "a_inode A' j" "a_inode A j"] by (simp add: owns_def)
  qed
  have files: "files_ok A'" using md(4) us bp ff unfolding files_ok_def by metis
  have u1: "used A' 1" using us md(7) n(2) by auto
  have r: "root A' = root A" using un(1) n(2) by metis
  have d: "dir_ok A' (root A')" using md(6) ff(2) [OF u1] r gb md(9) by (simp add: dir_ok_def)
  have rs: "\<And>k. dslot A' (root A') k = dslot A (root A) k" "dsize (root A') = dsize (root A)"
    using ff(1) [OF u1] r by (simp_all add: dslot_def)
  have nr: "n \<noteq> dino A k" if "live A k" "l = 0" for k
    using that l names_Some [OF md(5)] by (auto simp: ran_def)
  have ro: "root_ok A'"
    by (rule root_ok_same [OF md(5) d rs u1]) (use us md(5) nr in \<open>auto simp: root_ok_def\<close>)
  show "mounted f'" using ok files ro A by (simp add: mounted_def)
  show "names A' = names A" by (rule root_same [OF rs])
  show "others_same A A' n" using us un(1) ff(1) by (simp add: others_same_def same_file_def)
  show "l \<noteq> 0 \<Longrightarrow> a_inode A' n = i \<and> fblock A' i = fblock A (a_inode A n)"
    using us n un(2) ff(1) [of n] fblock_cong [of A' A' i "a_inode A n"] ii by simp
qed

subsection \<open>Link counts\<close>

definition link_count :: "fs_abs \<Rightarrow> pool \<Rightarrow> u64 \<Rightarrow> nat" where
  "link_count A p n = (if n \<in> ran (names A) then 1 else 0) + card (fds_on p n)"

definition links_ok :: "fs_abs \<Rightarrow> pool \<Rightarrow> bool" where
  "links_ok A p \<longleftrightarrow>
     (\<forall>n. used A n \<and> n \<noteq> 1 \<longrightarrow> unat (links (a_inode A n)) = link_count A p n \<and> 0 < link_count A p n) \<and>
     (\<forall>k. in_use p k \<longrightarrow> (\<exists>n. slot_cell (get_slot p k) = Inumber n \<and> used A n))"

definition sys_ok :: "sfs_state \<Rightarrow> filesystem \<Rightarrow> pool \<Rightarrow> bool" where
  "sys_ok s f p \<longleftrightarrow> ready s f \<and> st_pool s = Some p \<and> pool_ok p \<and> links_ok (abs_fs f) p"

lemma sys_okD:
  assumes "sys_ok s f p"
  shows "ready s f" "\<not> st_locked s" "st_fs s = Some f" "mounted f" "st_pool s = Some p" "pool_ok p" "links_ok (abs_fs f) p"
    "root_ok (abs_fs f)" "files_ok (abs_fs f)"
  using assms mountedD(4,5) by (auto simp: sys_ok_def ready_def)

lemma link_count_bound: "pool_ok p \<Longrightarrow> link_count A p n < 2 ^ 31 + 1"
  using card_fds_on [of p n] by (simp add: link_count_def)

lemma names_used: "root_ok A \<Longrightarrow> names A nm = Some n \<Longrightarrow> used A n \<and> n \<noteq> 1"
  using names_Some [of A nm n] by (auto simp: root_ok_def)

lemma named_once:
  assumes "root_ok A" "names A nm = Some n" "names A nm' = Some n"
  shows "nm = nm'"
proof -
  from assms(2) obtain j where j: "live A j" "dname A j = nm" "dino A j = n" by (auto simp: names_Some [OF assms(1)])
  from assms(3) obtain k where k: "live A k" "dname A k = nm'" "dino A k = n" by (auto simp: names_Some [OF assms(1)])
  have "live A j \<and> live A k \<and> (dname A j = dname A k \<or> dino A j = dino A k) \<longrightarrow> j = k"
    using assms(1) by (simp add: root_ok_def)
  with j k have "j = k" by simp
  with j k show ?thesis by simp
qed

lemma ran_unlink:
  assumes "root_ok A" "names A nm = Some n"
  shows "ran ((names A)(nm := None)) = ran (names A) - {n}"
proof (rule set_eqI)
  fix m
  have "(\<exists>x. x \<noteq> nm \<and> names A x = Some m) \<longleftrightarrow> (\<exists>x. names A x = Some m) \<and> m \<noteq> n"
    using assms(2) named_once [OF assms] by (metis option.inject)
  then show "m \<in> ran ((names A)(nm := None)) \<longleftrightarrow> m \<in> ran (names A) - {n}" by (simp add: ran_def cong: conj_cong)
qed

text \<open>The links of a file with the same attributes and the same descriptors.\<close>

lemma links_ok_frame:
  assumes l: "links_ok A p" and o: "others_same A A' n" and u: "\<And>m. used A' m \<Longrightarrow> used A m \<or> m = n"
    and p: "\<And>m. m \<noteq> n \<Longrightarrow> fds_on p' m = fds_on p m" and r: "\<And>m. m \<noteq> n \<Longrightarrow> m \<in> ran (names A') \<longleftrightarrow> m \<in> ran (names A)"
    and n: "used A' n \<Longrightarrow> n \<noteq> 1 \<Longrightarrow> unat (links (a_inode A' n)) = link_count A' p' n \<and> 0 < link_count A' p' n"
    and k: "\<And>k. in_use p' k \<Longrightarrow> \<exists>m. slot_cell (get_slot p' k) = Inumber m \<and> used A' m"
  shows "links_ok A' p'"
  unfolding links_ok_def
proof (intro conjI allI impI; (elim conjE)?)
  fix m assume m: "used A' m" "m \<noteq> 1"
  have "unat (links (a_inode A' m)) = link_count A' p' m \<and> 0 < link_count A' p' m"
  proof (cases "m = n")
    case True
    with n m show ?thesis by simp
  next
    case False
    then have "used A m" "same_file A A' m" using u o m by (auto simp: others_same_def)
    with False m l p [of m] r [of m] show ?thesis by (simp add: links_ok_def same_file_def link_count_def)
  qed
  then show "unat (links (a_inode A' m)) = link_count A' p' m" "0 < link_count A' p' m" by simp_all
qed (rule k)

text \<open>A descriptor is opened on, or closed on, inode \<open>n\<close>.\<close>

lemma fds_on_open:
  assumes "\<not> in_use p k" "\<And>j. in_use p' j \<longleftrightarrow> in_use p j \<or> j = k" "\<And>j. in_use p j \<Longrightarrow> get_slot p' j = get_slot p j"
    "slot_cell (get_slot p' k) = Inumber n"
  shows "fds_on p' m = (if m = n then insert k (fds_on p m) else fds_on p m)" "k \<notin> fds_on p m"
    "card (fds_on p' n) = card (fds_on p n) + 1"
proof -
  show kn: "k \<notin> fds_on p m" for m using assms(1) by (simp add: fds_on_def)
  show f: "fds_on p' m = (if m = n then insert k (fds_on p m) else fds_on p m)" for m
    using assms by (auto simp: fds_on_def)
  show "card (fds_on p' n) = card (fds_on p n) + 1" using f [of n] kn [of n] by simp
qed

lemma fds_on_close:
  assumes "in_use p k" "\<And>j. in_use p' j \<longleftrightarrow> in_use p j \<and> j \<noteq> k" "\<And>j. j \<noteq> k \<Longrightarrow> get_slot p' j = get_slot p j"
    "slot_cell (get_slot p k) = Inumber n"
  shows "fds_on p' m = (if m = n then fds_on p m - {k} else fds_on p m)" "card (fds_on p n) = card (fds_on p' n) + 1"
proof -
  have "j \<in> fds_on p' m \<longleftrightarrow> j \<in> (if m = n then fds_on p m - {k} else fds_on p m)" for j m
    using assms by (cases "j = k") (auto simp: fds_on_def)
  then show f: "fds_on p' m = (if m = n then fds_on p m - {k} else fds_on p m)" for m by blast
  have "k \<in> fds_on p n" using assms(1,4) by (simp add: fds_on_def)
  then show "card (fds_on p n) = card (fds_on p' n) + 1"
    using f [of n] card_Suc_Diff1 [of "fds_on p n" k] by simp
qed

subsection \<open>Handles\<close>

text \<open>The handle of descriptor \<open>k\<close> survives the conversions between \<^verbatim>\<open>int\<close> and \<^verbatim>\<open>uint64_t\<close>.\<close>

lemma handle_number:
  assumes "k < MAX_FDS"
  shows "sint (ucast (of_nat k :: u64) :: u32) = int k"
proof -
  have "(of_nat (unat (of_nat k :: u64)) :: u32) = ucast (of_nat k :: u64)" by (rule of_nat_unat)
  then have "(ucast (of_nat k :: u64) :: u32) = of_nat k" using assms by (simp add: unat_of_nat_u64)
  moreover have "sint (of_nat k :: u32) = int k"
    using assms by (simp add: signed_of_nat signed_take_bit_int_eq_self)
  ultimately show ?thesis by simp
qed

definition handle :: "fuse_file_info \<Rightarrow> nat \<Rightarrow> fuse_file_info" where
  "handle fi k = fi\<lparr>fi_fh := of_nat k\<rparr>"

lemma handle_slot_ok:
  assumes "st_pool s = Some p" "pool_ok p" "in_use p k"
  shows "handle_slot (handle fi k) s = Some (Some k, p)"
proof -
  have "k < MAX_FDS" using assms(2,3) pool_size_max by (force simp: in_use_def)
  with assms show ?thesis
    by (simp add: handle_slot_def handle_def handle_number get_from_fd_ok in_use_def)
qed

lemma open_fd_ok:
  assumes p: "pool_ok p" "free_fds p \<noteq> {}" and env: "slab_mem env = Some raw"
  obtains k p' where
    "\<And>s. st_pool s = Some p \<Longrightarrow> open_fd env n fi s = Some ((0, handle fi k), s\<lparr>st_pool := Some p'\<rparr>)" "pool_ok p'" "\<not> in_use p k"
    "\<And>j. in_use p' j \<longleftrightarrow> in_use p j \<or> j = k" "\<And>j. in_use p j \<Longrightarrow> get_slot p' j = get_slot p j"
    "slot_cell (get_slot p' k) = Inumber n" "free_fds p' = free_fds p - {k}"
proof -
  obtain k p1 p' where 1: "sfs_filedescriptor_allocate p (Some raw) = Some (Some k, p1)"
    "p' = sfs_fd_set p1 k n (scast (fi_flags fi))"
    "pool_ok p'" "\<not> in_use p k" "\<And>j. in_use p' j \<longleftrightarrow> in_use p j \<or> j = k" "\<And>j. in_use p j \<Longrightarrow> get_slot p' j = get_slot p j"
    "slot_cell (get_slot p' k) = Inumber n" "slot_fd (get_slot p' k) = int k" "k < MAX_FDS" "free_fds p' = free_fds p - {k}"
    using fd_open_ok [OF p, of raw n "scast (fi_flags fi)"] by metis
  have "open_fd env n fi s = Some ((0, handle fi k), s\<lparr>st_pool := Some p'\<rparr>)" if "st_pool s = Some p" for s
    using that env 1(1,2,8) by (simp add: open_fd_def Let_def handle_def)
  from that [OF this 1(3-7,10)] show ?thesis .
qed

subsection \<open>Opening\<close>

text \<open>An inode with one link more than it has names and descriptors gets the descriptor.\<close>

lemma opened_links:
  assumes l: "links_ok A p" and o: "others_same A A' n" and u: "\<And>m. used A' m \<Longrightarrow> used A m \<or> m = n"
    and r: "\<And>m. m \<noteq> n \<Longrightarrow> m \<in> ran (names A') \<longleftrightarrow> m \<in> ran (names A)" and u1: "used A' 1"
    and n: "used A' n" "unat (links (a_inode A' n)) = link_count A' p n + 1"
    and p': "\<not> in_use p k" "\<And>j. in_use p' j \<longleftrightarrow> in_use p j \<or> j = k" "\<And>j. in_use p j \<Longrightarrow> get_slot p' j = get_slot p j"
      "slot_cell (get_slot p' k) = Inumber n"
  shows "links_ok A' p'"
proof (rule links_ok_frame [OF l o u _ r])
  note f = fds_on_open [OF p']
  show "m \<noteq> n \<Longrightarrow> fds_on p' m = fds_on p m" for m using f(1) by simp
  show "unat (links (a_inode A' n)) = link_count A' p' n \<and> 0 < link_count A' p' n"
    using n(2) f(3) by (simp add: link_count_def)
  show "\<exists>m. slot_cell (get_slot p' j) = Inumber m \<and> used A' m" if "in_use p' j" for j
  proof (cases "j = k")
    case True
    then show ?thesis using p'(4) n(1) by simp
  next
    case False
    then have "in_use p j" using that p'(2) by simp
    then obtain m where m: "slot_cell (get_slot p' j) = Inumber m" "used A m" using l p'(3) by (auto simp: links_ok_def)
    then have "used A' m" using o n(1) u1 by (cases "m = n \<or> m = 1") (auto simp: others_same_def same_file_def)
    with m show ?thesis by blast
  qed
qed simp_all

lemma unat_links_Suc:
  assumes "pool_ok p" "unat l = link_count A p n"
  shows "unat (l + 1 :: u32) = link_count A p n + 1"
proof -
  have "unat l + 1 < 2 ^ LENGTH(32)" using link_count_bound [OF assms(1), of A n] assms(2) by simp
  then show ?thesis using assms(2) by (simp add: unat_word_ariths)
qed

definition env_full :: "sfs_env \<Rightarrow> bool" where
  "env_full env \<longleftrightarrow> env_ok env \<and> slab_mem env \<noteq> None"

text \<open>Descriptor \<open>k\<close> of inode \<open>n\<close> is opened; the descriptors that are open stay as they are.\<close>

definition fd_added :: "pool \<Rightarrow> pool \<Rightarrow> nat \<Rightarrow> u64 \<Rightarrow> bool" where
  "fd_added p p' k n \<longleftrightarrow> \<not> in_use p k \<and> slot_cell (get_slot p' k) = Inumber n \<and>
     (\<forall>j. in_use p' j \<longleftrightarrow> in_use p j \<or> j = k) \<and> (\<forall>j. in_use p j \<longrightarrow> get_slot p' j = get_slot p j)"

text \<open>The end that \<^verbatim>\<open>sfs_open\<close> and \<^verbatim>\<open>sfs_create\<close> share for a file that exists.\<close>

lemma open_existing:
  assumes so: "sys_ok s f p" and m: "mounted f1" "names (abs_fs f1) = names (abs_fs f)" "used (abs_fs f1) = used (abs_fs f)"
    "others_same (abs_fs f) (abs_fs f1) n" "a_inode (abs_fs f1) n = a_inode (abs_fs f) n"
    "\<And>i. fblock (abs_fs f1) i = fblock (abs_fs f) i"
    and n: "names (abs_fs f) nm = Some n" and p: "free_fds p \<noteq> {}" and env: "slab_mem env = Some raw"
  obtains t f2 k p' where "add_link f1 n = Some (Inr (a_inode (abs_fs f2) n), f2)" "inumber (a_inode (abs_fs f2) n) = n"
    "\<forall>s1. st_pool s1 = Some p \<longrightarrow> open_fd env n fi s1 = Some ((0, handle fi k), s1\<lparr>st_pool := Some p'\<rparr>)"
    "sys_ok (s\<lparr>st_locked := False, st_fs := Some f2, st_pool := Some p'\<rparr>) f2 p'" "fd_added p p' k n"
    "names (abs_fs f2) = names (abs_fs f)" "only_changes (abs_fs f) (abs_fs f2) n"
    "a_inode (abs_fs f2) n = (a_inode (abs_fs f) n)\<lparr>links := links (a_inode (abs_fs f) n) + 1, change_time := t\<rparr>"
    "fblock (abs_fs f2) (a_inode (abs_fs f2) n) = fblock (abs_fs f) (a_inode (abs_fs f) n)"
    "free_blocks (abs_fs f2) = free_blocks (abs_fs f1)"
proof -
  note sd = sys_okD [OF so]
  have nu: "used (abs_fs f) n" "n \<noteq> 1" using names_used [OF sd(8) n] by simp_all
  then have nu1: "used (abs_fs f1) n" using m(3) by simp
  obtain t f2 where 2: "add_link f1 n = Some (Inr (a_inode (abs_fs f2) n), f2)" "mounted f2"
    "names (abs_fs f2) = names (abs_fs f1)" "used (abs_fs f2) = used (abs_fs f1)" "others_same (abs_fs f1) (abs_fs f2) n"
    "a_inode (abs_fs f2) n = (a_inode (abs_fs f) n)\<lparr>links := links (a_inode (abs_fs f) n) + 1, change_time := t\<rparr>"
    "fblock (abs_fs f2) = fblock (abs_fs f1)" "free_blocks (abs_fs f2) = free_blocks (abs_fs f1)"
    using add_link_ok [OF m(1) nu1 nu(2), unfolded m(5)] by blast
  obtain k p' where 3:
    "\<forall>s1. st_pool s1 = Some p \<longrightarrow> open_fd env n fi s1 = Some ((0, handle fi k), s1\<lparr>st_pool := Some p'\<rparr>)"
    "pool_ok p'" "\<not> in_use p k"
    "\<And>j. in_use p' j \<longleftrightarrow> in_use p j \<or> j = k" "\<And>j. in_use p j \<Longrightarrow> get_slot p' j = get_slot p j"
    "slot_cell (get_slot p' k) = Inumber n"
    using open_fd_ok [OF sd(6) p env, of n fi] by metis
  note ot = others_same_trans [OF m(4) 2(5)]
  have nn: "inumber (a_inode (abs_fs f2) n) = n" using 2(6) sd(9) nu by (simp add: files_ok_def)
  have "unat (links (a_inode (abs_fs f2) n)) = link_count (abs_fs f2) p n + 1"
    using unat_links_Suc [OF sd(6), of _ "abs_fs f" n] sd(7) nu 2(3,6) m(2) by (simp add: links_ok_def link_count_def)
  then have "links_ok (abs_fs f2) p'"
    using nu1 2(3,4) m(2,3) mountedD(7) [OF 2(2)] by (intro opened_links [OF sd(7) ot _ _ _ _ _ 3(3-6)]) simp_all
  then have "sys_ok (s\<lparr>st_locked := False, st_fs := Some f2, st_pool := Some p'\<rparr>) f2 p'"
    using 2(2) 3(2) by (simp add: sys_ok_def ready_def)
  moreover have "fblock (abs_fs f2) (a_inode (abs_fs f2) n) = fblock (abs_fs f) (a_inode (abs_fs f) n)"
    using 2(6,7) m(6) fblock_cong [of "abs_fs f" "abs_fs f" "a_inode (abs_fs f2) n" "a_inode (abs_fs f) n"] by simp
  ultimately show ?thesis
    using that [OF 2(1) nn 3(1) _ _ _ only_changes_used [OF ot] 2(6)] 3(3-6) 2(3,4,8) m(2,3) by (simp add: fd_added_def)
qed

end
