(* ===== verification/Example_Volume.thy ===== *)
theory Example_Volume
  imports Open_Files
begin

text \<open>
  A small volume that satisfies the invariants, for the concrete instances of the theorems: 8
  blocks, of which block 1 is the inode table. Inode 1 is the root directory with the block 4, whose
  entry names the file \<^verbatim>\<open>a\<close>, inode 2; that file has the block 5. Inode 3 is free, and so are block 3,
  the index of the free space, and the blocks 6 and 7 it lists.
\<close>

unbundle bit_operations_syntax

subsection \<open>The volume\<close>

definition ex_super :: sfs_fs_superblock where
  "ex_super = \<lparr>signature = SFS_FILE_TYPE_SIGNATURE, create_time = 0, block_size = 512, inode_table_blocks = 1,
     inodes = 3, blocks = 8, free_blocks_head = 3, free_inode_head = 3\<rparr>"

definition ex_inode :: "u64 \<Rightarrow> u32 \<Rightarrow> u32 \<Rightarrow> u64 \<Rightarrow> u64 \<Rightarrow> sfs_fs_inode" where
  "ex_inode n m l sz b = \<lparr>inumber = n, mode = m, uid = 0, gid = 0, links = l, access_time = 0, modified_time = 0,
     change_time = 0, isize = sz, block_pointers = b # replicate 13 0\<rparr>"

definition ex_root :: sfs_fs_inode where "ex_root = ex_inode 1 ROOT_MODE 1 512 4"
definition ex_file :: sfs_fs_inode where "ex_file = ex_inode 2 0x81A4 1 512 5"
definition ex_spare :: sfs_fs_inode where "ex_spare = ex_inode 3 0 0 0 0"

definition ex_name :: bytes where "ex_name = [97]"
definition ex_data :: bytes where "ex_data = replicate BLOCK_SIZE 7"

definition ex_blocks :: "nat \<Rightarrow> bytes" where
  "ex_blocks = (\<lambda>b. zero_block)(
     0 := put_bytes 0 (encode_superblock ex_super) zero_block,
     1 := put_inode 0 ex_root (put_inode 1 ex_file (put_inode 2 ex_spare zero_block)),
     3 := put_u64 1 6 (put_u64 2 7 zero_block),
     4 := entry_block 2 ex_name zero_block,
     5 := ex_data)"

definition ex_os :: os where
  "ex_os = \<lparr>file_blocks = ex_blocks, file_size = 4096, io_plan = (\<lambda>n. Io_Full), io_done = 0, clock = of_nat, clock_reads = 0\<rparr>"

definition ex_fs :: filesystem where
  "ex_fs = \<lparr>disk = ex_os, superblock = ex_super, inode_cache = \<lparr>dirty = False, cache_block = 0, data = zero_block\<rparr>\<rparr>"

lemma ex_wf [simp]: "wf_inode ex_root" "wf_inode ex_file" "wf_inode ex_spare"
  by (simp_all add: ex_root_def ex_file_def ex_spare_def ex_inode_def wf_inode_def)

lemma ex_sig: "length (signature ex_super) = 16" "signature ex_super = SFS_FILE_TYPE_SIGNATURE"
  by (simp_all add: ex_super_def)

lemma ex_super_sel [simp]: "superblock ex_fs = ex_super" "inode_table_blocks ex_super = 1" "blocks ex_super = 8"
  "free_blocks_head ex_super = 3" "free_inode_head ex_super = 3"
  by (simp_all add: ex_fs_def ex_super_def)

lemma ex_length: "length (ex_blocks b) = BLOCK_SIZE"
  by (simp add: ex_blocks_def length_put_bytes length_encode_superblock ex_sig entry_block ex_data_def)

lemma ex_cached [simp]: "cached ex_fs = 0"
  by (simp add: cached_def ex_fs_def)

lemma ex_fs_ok: "fs_ok ex_fs"
proof -
  have "wf_os (disk ex_fs)" "no_faults (disk ex_fs)"
    by (simp_all add: wf_os_def no_faults_def ex_fs_def ex_os_def ex_length)
  moreover have "geometry ex_super (file_size (disk ex_fs))"
    using ex_sig by (simp add: geometry_def ex_fs_def ex_os_def)
  moreover have "cache_ok ex_fs" by (simp add: cache_ok_def) (simp add: ex_fs_def)
  ultimately show ?thesis by (simp add: fs_ok_def)
qed

lemma ex_valid_ino: "valid_ino ex_super n \<longleftrightarrow> n = 1 \<or> n = 2 \<or> n = 3"
proof -
  have "n = 1 \<or> n = 2 \<or> n = 3" if "unat n \<le> 3" "1 \<le> unat n"
  proof -
    have "unat n = unat (1 :: u64) \<or> unat n = unat (2 :: u64) \<or> unat n = unat (3 :: u64)" using that by auto
    then show ?thesis by (simp only: word_unat_eq_iff [symmetric])
  qed
  then show ?thesis by (auto simp: valid_ino_def)
qed

lemma ex_valid_block [simp]: "valid_block ex_super b \<longleftrightarrow> 1 < unat b \<and> unat b < 8"
  by (simp add: valid_block_def)

abbreviation ex_abs :: fs_abs where "ex_abs \<equiv> abs_fs ex_fs"

lemma ex_a_inode: "a_inode ex_abs 1 = ex_root" "a_inode ex_abs 2 = ex_file" "a_inode ex_abs 3 = ex_spare"
proof -
  have b: "inode_block ex_fs (Suc 0) = put_inode 0 ex_root (put_inode 1 ex_file (put_inode 2 ex_spare zero_block))"
    by (simp add: inode_block_def) (simp add: ex_fs_def ex_os_def ex_blocks_def)
  show "a_inode ex_abs 1 = ex_root" "a_inode ex_abs 2 = ex_file" "a_inode ex_abs 3 = ex_spare"
    by (subst a_inode_abs; simp add: ex_valid_ino ino_block_def ino_pos_def b get_put_inode)+
qed

lemma ex_a_block: "1 < unat b \<Longrightarrow> unat b < 8 \<Longrightarrow> a_block ex_abs b = ex_blocks (unat b)"
  by (subst a_block_abs) (simp_all add: ex_fs_def ex_os_def)

lemma ex_ptrs:
  "block_pointers ex_root = 4 # replicate 13 0" "block_pointers ex_file = 5 # replicate 13 0"
  "block_pointers ex_spare = 0 # replicate 13 0" "isize ex_root = 512" "isize ex_file = 512" "isize ex_spare = 0"
  "links ex_root = 1" "links ex_file = 1" "inumber ex_root = 1" "inumber ex_file = 2" "inumber ex_spare = 3"
  "mode ex_root = ROOT_MODE" "mode ex_file = 0x81A4"
  by (simp_all add: ex_root_def ex_file_def ex_spare_def ex_inode_def)

subsection \<open>Its free space\<close>

lemma ex_entries: "entries (ex_blocks 3) = [6, 7]"
proof -
  have g: "get_u64 i (ex_blocks 3) = (if i = 1 then 6 else if i = 2 then 7 else 0)" if "i < 64" for i
    using that by (simp add: ex_blocks_def get_put_u64)
  have u: "[1..<64] = 1 # 2 # [3..<64]" by (simp add: upt_conv_Cons)
  have "filter (\<lambda>b. b \<noteq> 0) (map (\<lambda>i. get_u64 i (ex_blocks 3)) [3..<64]) = []"
    by (simp add: filter_empty_conv g)
  then show ?thesis unfolding entries_def u by (simp add: g)
qed

lemma ex_free_rep: "free_rep ex_abs [3]"
proof -
  have "get_u64 0 (ex_blocks 3) = 0" by (simp add: ex_blocks_def get_put_u64)
  then show ?thesis
    using ex_entries ex_a_block [of 3] by (simp add: free_rep_def free_list_def)
qed

lemma ex_free_blocks: "free_blocks ex_abs = {3, 6, 7}"
  using free_blocks_rep [OF ex_free_rep] ex_entries ex_a_block [of 3] by (simp add: free_list_def)

lemma ex_next_block: "next_block ex_abs = 6" "a_block ex_abs 6 = zero_block"
proof -
  show "next_block ex_abs = 6"
    using ex_a_block [of 3] by (simp add: next_block_def ex_blocks_def get_put_u64 upt_conv_Cons)
  show "a_block ex_abs 6 = zero_block" using ex_a_block [of 6] by (simp add: ex_blocks_def)
qed

lemma ex_inodes_rep: "inodes_rep ex_abs [3] 0"
  by (simp add: inodes_rep_def ex_a_inode ex_ptrs ex_valid_ino)

lemma ex_free_inodes: "free_inodes ex_abs = {3}"
  using free_inodes_rep [OF ex_inodes_rep] by simp

lemma ex_alloc_ok: "alloc_ok ex_fs" "inode_alloc_ok ex_fs"
  using ex_fs_ok ex_free_rep ex_inodes_rep by (auto simp: alloc_ok_def inode_alloc_ok_def)

subsection \<open>Its files\<close>

lemma ex_fptr:
  assumes "block_pointers i = b # replicate 13 0"
  shows "fptr A i k = (if k = 0 then b else 0)" "set (iptrs A i) = {b} - {0}" "distinct (iptrs A i)"
proof -
  have i: "block_pointers i ! 12 = 0" using assms by simp
  show f: "fptr A i k = (if k = 0 then b else 0)" for k
    using assms i by (cases k) (simp_all add: fptr_def)
  show "set (iptrs A i) = {b} - {0}" unfolding set_iptrs using f i by auto
  have "[0..<76] = 0 # [Suc 0..<76]" by (simp add: upt_conv_Cons)
  then have "iptrs A i = filter (\<lambda>p. p \<noteq> 0) [b] @ filter (\<lambda>p. p \<noteq> 0) (map (fptr A i) [Suc 0..<76])"
    using i f by (simp add: iptrs_def)
  moreover have "filter (\<lambda>p. p \<noteq> 0) (map (fptr A i) [Suc 0..<76]) = []" by (simp add: filter_empty_conv f)
  ultimately show "distinct (iptrs A i)" by simp
qed

lemma ex_used: "used ex_abs n \<longleftrightarrow> n = 1 \<or> n = 2"
  by (auto simp: used_def ex_valid_ino ex_free_inodes)

lemma ex_inode_ok: "inode_ok ex_abs ex_root" "inode_ok ex_abs ex_file"
  using ex_fptr [of ex_root 4 ex_abs] ex_fptr [of ex_file 5 ex_abs]
  by (simp_all add: inode_ok_def ex_ptrs ex_free_blocks)

lemma ex_owns: "owns ex_abs 1 = {4}" "owns ex_abs 2 = {5}"
  using ex_fptr(2) [of ex_root 4 ex_abs] ex_fptr(2) [of ex_file 5 ex_abs]
  by (simp_all add: owns_def ex_a_inode ex_ptrs)

lemma ex_files_ok: "files_ok ex_abs"
  by (auto simp: files_ok_def ex_used ex_a_inode ex_ptrs ex_inode_ok ex_owns)

lemma ex_fblock: "fblock ex_abs ex_root 0 = entry_block 2 ex_name zero_block" "fblock ex_abs ex_file 0 = ex_data"
  using ex_fptr(1) [of ex_root 4 ex_abs 0] ex_fptr(1) [of ex_file 5 ex_abs 0] ex_a_block [of 4] ex_a_block [of 5]
  by (simp_all add: fblock_def ex_ptrs ex_blocks_def)

lemma ex_dslot: "dslot ex_abs ex_root 0 = \<lparr>de_inumber = 2, de_name = strncpy 256 ex_name\<rparr>"
  by (simp add: dslot_def ex_fblock entry_block)

lemma ex_name_proper: "proper_name ex_name"
  by (simp add: proper_name_def ex_name_def c_string_def)

lemma ex_dir: "dsize ex_root = 1" "dino ex_abs 0 = 2" "dname ex_abs 0 = ex_name" "live ex_abs k \<longleftrightarrow> k = 0"
proof -
  show d: "dsize ex_root = 1" by (simp add: dsize_def ex_ptrs)
  show n: "dino ex_abs 0 = 2" by (simp add: dino_def ex_a_inode ex_dslot)
  show "dname ex_abs 0 = ex_name"
    using ex_name_proper by (simp add: dname_def ex_a_inode ex_dslot cstr_strncpy proper_name_def)
  show "live ex_abs k \<longleftrightarrow> k = 0" using d n by (auto simp: live_def ex_a_inode)
qed

lemma ex_dir_ok: "dir_ok ex_abs ex_root"
  using ex_inode_ok by (simp add: dir_ok_def ex_dir ex_ptrs ex_valid_ino ex_a_inode)

lemma ex_root_ok: "root_ok ex_abs"
  by (simp add: root_ok_def ex_dir ex_used) (simp add: ex_a_inode ex_dir_ok)

lemma ex_mounted: "mounted ex_fs"
  using ex_alloc_ok ex_files_ok ex_root_ok by (simp add: mounted_def)

lemma ex_names: "names ex_abs nm = (if nm = ex_name then Some 2 else None)"
proof (cases "nm = ex_name")
  case True
  then show ?thesis using names_Some [OF ex_root_ok, of nm 2] by (simp add: ex_dir)
next
  case False
  then show ?thesis by (simp add: names_None ex_dir)
qed

subsection \<open>The running system\<close>

definition ex_pool :: pool where
  "ex_pool = \<lparr>slabs = [thread_slots 0 fresh_slab], freelist = Some 0, slot_addr = (\<lambda>k. 0)\<rparr>"

lemma ex_pool_init: "sfs_filedescriptor_pool_init True (Some fresh_slab) (\<lambda>k. 0) = Some ex_pool"
  by (simp add: sfs_filedescriptor_pool_init_def ex_pool_def)

lemma ex_pool_ok: "pool_ok ex_pool" "free_fds ex_pool = {0..<MAX_FDS}" "\<not> in_use ex_pool k" "fds_on ex_pool n = {}"
proof -
  note i = pool_init_ok [OF ex_pool_init]
  show ok: "pool_ok ex_pool" and fr: "free_fds ex_pool = {0..<MAX_FDS}" by (rule i)+
  show u: "\<not> in_use ex_pool k" for k using fr pool_size_max [OF ok] by (simp add: in_use_def)
  then show "fds_on ex_pool n = {}" by (simp add: fds_on_def)
qed

definition ex_state :: sfs_state where
  "ex_state = \<lparr>st_locked = False, st_disk = ex_os, st_pool = Some ex_pool, st_fs = Some ex_fs\<rparr>"

definition ex_env :: sfs_env where
  "ex_env = \<lparr>strdup_ok = True, iter_mem = (\<lambda>n. Some zero_block), slab_mem = Some fresh_slab, caller_uid = 1000,
     caller_gid = 1000, caller_umask = 0x12, stack_block = zero_block, freed = (\<lambda>x. x)\<rparr>"

definition ex_fi :: fuse_file_info where
  "ex_fi = \<lparr>fi_flags = 0, fi_fh = 0\<rparr>"

lemma ex_env_ok: "env_ok ex_env" "env_full ex_env" "freed ex_env n = n"
  by (simp_all add: env_ok_def env_full_def ex_env_def)

lemma ex_links_ok: "links_ok ex_abs ex_pool"
proof -
  have "2 \<in> ran (names ex_abs)" using ex_names [of ex_name] by (auto simp: ran_def)
  then show ?thesis by (auto simp: links_ok_def ex_used link_count_def ex_pool_ok ex_a_inode ex_ptrs)
qed

lemma ex_ready: "ready ex_state ex_fs"
  by (simp add: ready_def ex_state_def ex_mounted)

lemma ex_sys_ok: "sys_ok ex_state ex_fs ex_pool"
  by (simp add: sys_ok_def ex_ready ex_pool_ok ex_links_ok) (simp add: ex_state_def)

lemma ex_writable: "writable ex_abs ex_root (vacant_from ex_abs ex_root 0)" "vacant_from ex_abs ex_root 0 = 1"
proof -
  have "dlive ex_abs ex_root 0" by (simp add: dlive_def ex_dslot)
  then show v: "vacant_from ex_abs ex_root 0 = 1" by (simp add: vacant_from_rec ex_dir)
  show "writable ex_abs ex_root (vacant_from ex_abs ex_root 0)"
    unfolding v by (simp add: writable_def ex_free_blocks)
qed

subsection \<open>The same volume with no free inode\<close>

text \<open>Inode 3 is in use, and the list of free inodes is where that of a formatted volume ends.\<close>

definition full_super :: sfs_fs_superblock where
  "full_super = ex_super\<lparr>free_inode_head := 4\<rparr>"

definition full_fs :: filesystem where
  "full_fs = set_super ex_fs full_super"

definition full_state :: sfs_state where
  "full_state = ex_state\<lparr>st_fs := Some full_fs\<rparr>"

lemma full_abs [simp]: "abs_fs full_fs = ex_abs\<lparr>a_super := full_super\<rparr>" "superblock full_fs = full_super" "fs_ok full_fs"
proof -
  have "same_geometry (superblock ex_fs) full_super" by (simp add: same_geometry_def full_super_def)
  from set_super [OF ex_fs_ok this] show "abs_fs full_fs = ex_abs\<lparr>a_super := full_super\<rparr>" "superblock full_fs = full_super" "fs_ok full_fs"
    by (simp_all add: full_fs_def)
qed

lemma full_valid [simp]: "valid_ino full_super n \<longleftrightarrow> n = 1 \<or> n = 2 \<or> n = 3" "valid_block full_super b \<longleftrightarrow> 1 < unat b \<and> unat b < 8"
proof -
  have "same_geometry ex_super full_super" by (simp add: same_geometry_def full_super_def)
  from valid_same_geometry(1,2) [OF this] show "valid_ino full_super n \<longleftrightarrow> n = 1 \<or> n = 2 \<or> n = 3"
    "valid_block full_super b \<longleftrightarrow> 1 < unat b \<and> unat b < 8" by (simp_all add: ex_valid_ino)
qed

lemma full_mounted: "mounted full_fs"
proof -
  let ?A = "ex_abs\<lparr>a_super := full_super\<rparr>"
  have fr: "free_rep ?A [3]" using ex_free_rep by (simp add: free_rep_def full_super_def)
  have fb: "free_blocks ?A = {3, 6, 7}"
    using free_blocks_rep [OF fr] ex_entries ex_a_block [of 3] by (simp add: free_list_def)
  have ir: "inodes_rep ?A [] 4" by (simp add: inodes_rep_def) (simp add: full_super_def)
  have u: "used ?A n \<longleftrightarrow> n = 1 \<or> n = 2 \<or> n = 3" for n
    using free_inodes_rep [OF ir] by (simp add: used_def)
  have io: "inode_ok ?A ex_root" "inode_ok ?A ex_file" "inode_ok ?A ex_spare"
    using ex_fptr [of ex_root 4 ?A] ex_fptr [of ex_file 5 ?A] ex_fptr [of ex_spare 0 ?A] by (simp_all add: inode_ok_def ex_ptrs fb)
  have ow: "owns ?A 1 = {4}" "owns ?A 2 = {5}" "owns ?A 3 = {}"
    using ex_fptr(2) [of ex_root 4 ?A] ex_fptr(2) [of ex_file 5 ?A] ex_fptr(2) [of ex_spare 0 ?A]
    by (simp_all add: owns_def ex_a_inode ex_ptrs)
  have "files_ok ?A" by (auto simp: files_ok_def u ex_a_inode ex_ptrs io ow)
  moreover have ds: "dslot ?A i k = dslot ex_abs i k" for i k
    using fblock_cong [of ?A ex_abs i i] by (simp add: dslot_def)
  then have sl: "live ?A k \<longleftrightarrow> k = 0" "dino ?A 0 = 2" for k using ex_dir by (simp_all add: live_def dino_def ex_a_inode)
  have "dir_ok ?A (root ?A)" using ex_dir_ok io(1) by (simp add: dir_ok_def ex_a_inode ex_ptrs)
  then have "root_ok ?A" by (simp add: root_ok_def u sl)
  moreover have "inode_alloc_ok full_fs" using fr ir unfolding inode_alloc_ok_def alloc_ok_def full_abs(1) by (blast intro: full_abs(3))
  ultimately show ?thesis unfolding mounted_def full_abs(1) by blast
qed

lemma full_names: "names (abs_fs full_fs) = names ex_abs"
  by (rule root_same) (use fblock_cong [of "abs_fs full_fs" ex_abs] in \<open>simp_all add: dslot_def\<close>)

lemma full_ready: "ready full_state full_fs"
  by (simp add: ready_def full_state_def full_mounted) (simp add: ex_state_def)

end
