(* ===== verification/Format_Ok.thy ===== *)
theory Format_Ok
  imports Format
begin

text \<open>
  What \<^verbatim>\<open>format_fs\<close> writes on a disk that is full of zeros and works: the inode table, the index of
  the free space as far as it is written, the superblock; and for which sizes its assertions hold.
\<close>

subsection \<open>The inode table\<close>

lemma decode_zeros: "get_inode 0 zero_block = empty_inode 0"
proof -
  have e: "encode_inode (empty_inode 0) = replicate 168 0"
    by (simp add: encode_inode_def empty_inode_def enc64_def enc32_def numeral_eq_Suc)
  have w: "wf_inode (empty_inode 0)" by (simp add: empty_inode_def wf_inode_def)
  have "get_inode 0 zero_block = decode_inode (replicate 168 0)"
    by (simp add: get_inode_def get_bytes_def zero_block_def)
  also have "\<dots> = empty_inode 0" using decode_encode_inode [OF w] unfolding e .
  finally show ?thesis .
qed

definition table_inode :: "u32 \<Rightarrow> u32 \<Rightarrow> u64 \<Rightarrow> nat \<Rightarrow> sfs_fs_inode" where
  "table_inode usr grp t m =
     (if m = 1
      then (empty_inode 1)\<lparr>mode := ROOT_MODE, uid := usr, gid := grp, links := 1, access_time := t,
             modified_time := t, change_time := t\<rparr>
      else (empty_inode (of_nat m))\<lparr>isize := of_nat (m + 1)\<rparr>)"

lemma wf_table_inode [simp]: "wf_inode (table_inode usr grp t m)"
  by (simp add: table_inode_def empty_inode_def wf_inode_def)

lemma format_inode_other:
  assumes "\<not> (i = 1 \<and> j = 0)"
  shows "format_inode usr grp i j (blk, of_nat (m + 1), d) =
    (put_inode j ((empty_inode (of_nat m))\<lparr>isize := of_nat (m + 1)\<rparr>) blk, of_nat (m + 1 + 1), d)"
  using assms by (auto simp: format_inode_def)

definition table_block :: "u32 \<Rightarrow> u32 \<Rightarrow> u64 \<Rightarrow> nat \<Rightarrow> bytes \<Rightarrow> bool" where
  "table_block usr grp t b blk \<longleftrightarrow> length blk = BLOCK_SIZE \<and> (\<forall>j<3. get_inode j blk = table_inode usr grp t (3 * (b - 1) + j + 1))"

lemma less_3: "j < 3 \<longleftrightarrow> j = 0 \<or> j = 1 \<or> j = (2 :: nat)"
  by auto

lemma format_block_other:
  assumes "2 \<le> b" "length blk = BLOCK_SIZE"
  shows "\<exists>blk'. fold (format_inode usr grp b) [0, 1, 2] (blk, of_nat (3 * (b - 1) + 2), d) = (blk', of_nat (3 * b + 2), d) \<and>
    table_block usr grp t b blk'"
proof -
  let ?m = "3 * (b - 1) + 1"
  have m: "3 * (b - 1) + 2 = ?m + 1" "?m + 1 + 1 = (?m + 1) + 1" "3 * b + 2 = ((?m + 1) + 1 + 1) + 1" "?m \<noteq> 1" using assms(1) by simp_all
  have w: "wf_inode ((empty_inode x)\<lparr>isize := y\<rparr>)" for x y by (simp add: empty_inode_def wf_inode_def)
  let ?i = "\<lambda>k. (empty_inode (of_nat (?m + k)))\<lparr>isize := of_nat (?m + k + 1)\<rparr>"
  let ?b = "put_inode 2 (?i 2) (put_inode 1 (?i 1) (put_inode 0 (?i 0) blk))"
  have f: "format_inode usr grp b j (blk, of_nat (?m + j + 1), d) = (put_inode j (?i j) blk, of_nat (?m + Suc j + 1), d)" for j blk
    using format_inode_other [of b j usr grp blk "?m + j" d] assms(1) by simp
  have "fold (format_inode usr grp b) [0, 1, 2] (blk, of_nat (?m + 0 + 1), d) = (?b, of_nat (?m + Suc 2 + 1), d)"
    using f [of 0 blk] f [of 1 "put_inode 0 (?i 0) blk"] f [of 2 "put_inode 1 (?i 1) (put_inode 0 (?i 0) blk)"]
    by (simp only: fold.simps comp_apply id_apply One_nat_def Suc_1 numeral_2_eq_2)
  moreover have "?m + 0 + 1 = 3 * (b - 1) + 2" "?m + Suc 2 + 1 = 3 * b + 2" using assms(1) by simp_all
  moreover have "table_block usr grp t b ?b"
    using assms w by (auto simp: table_block_def less_3 get_put_inode table_inode_def)
  ultimately show ?thesis by metis
qed

lemma format_block_first:
  "\<exists>blk'. fold (format_inode usr grp 1) [0, 1, 2] (zero_block, 3, d) = (blk', of_nat 5, snd (time d)) \<and>
    table_block usr grp (fst (time d)) 1 blk'"
proof -
  have w: "wf_inode ((empty_inode x)\<lparr>isize := y\<rparr>)" for x y by (simp add: empty_inode_def wf_inode_def)
  let ?r = "table_inode usr grp (fst (time d)) 1"
  let ?i = "\<lambda>k. (empty_inode (of_nat k))\<lparr>isize := of_nat (k + 1)\<rparr>"
  let ?b = "put_inode 2 (?i 3) (put_inode 1 (?i 2) (put_inode 0 ?r zero_block))"
  have r: "(get_inode 0 zero_block)\<lparr>inumber := 1, mode := ROOT_MODE, uid := usr, gid := grp,
      links := 1, access_time := fst (time d), change_time := fst (time d), modified_time := fst (time d), isize := 0\<rparr> = ?r"
    by (simp add: decode_zeros table_inode_def empty_inode_def)
  have 0: "format_inode usr grp 1 0 (zero_block, 3, d) = (put_inode 0 ?r zero_block, of_nat (2 + 1), snd (time d))"
    unfolding format_inode_def by (simp add: split_def Let_def r [simplified])
  have f: "format_inode usr grp 1 j (blk, of_nat (m + 1), d') = (put_inode j (?i m) blk, of_nat (m + 1 + 1), d')" if "0 < j" for j m blk d'
    using format_inode_other [of 1 j usr grp blk m d'] that by simp
  have "fold (format_inode usr grp 1) [0, 1, 2] (zero_block, 3, d) = (?b, of_nat 5, snd (time d))"
    using 0 f [of 1 "put_inode 0 ?r zero_block" 2] f [of 2 "put_inode 1 (?i 2) (put_inode 0 ?r zero_block)" 3] by simp
  moreover have "table_block usr grp (fst (time d)) 1 ?b"
    using w by (auto simp: table_block_def less_3 get_put_inode table_inode_def)
  ultimately show ?thesis by blast
qed

text \<open>A disk on which blocks up to \<open>n\<close> can be written, and what happens to it.\<close>

definition disk_ok :: "os \<Rightarrow> nat \<Rightarrow> bool" where
  "disk_ok d n \<longleftrightarrow> wf_os d \<and> no_faults d \<and> BLOCK_SIZE * n \<le> file_size d \<and> n \<le> 2 ^ 54"

lemma disk_ok_write:
  assumes "disk_ok d n" "k < n" "length v = BLOCK_SIZE"
  shows "block_write d (of_nat k) v = (512, store d (of_nat k) v)" "disk_ok (store d (of_nat k) v) n"
    "file_blocks (store d (of_nat k) v) = (file_blocks d)(k := v)"
proof -
  have u: "unat (of_nat k :: u64) = k" using assms(1,2) by (intro unat_of_nat_u64) (simp add: disk_ok_def)
  have "in_file d (of_nat k)" unfolding in_file_def u using assms(1,2) by (auto simp: disk_ok_def)
  then show "block_write d (of_nat k) v = (512, store d (of_nat k) v)"
    using assms by (simp add: block_write_ok disk_ok_def)
  show "disk_ok (store d (of_nat k) v) n" using assms by (simp add: disk_ok_def)
  show "file_blocks (store d (of_nat k) v) = (file_blocks d)(k := v)" using u by simp
qed

lemma disk_ok_time [simp]: "disk_ok (snd (time d)) n = disk_ok d n"
  by (simp add: disk_ok_def)

lemma format_table_rest:
  assumes "2 \<le> a" "a \<le> b" "b \<le> n" "disk_ok d n" "length blk = BLOCK_SIZE"
  shows "\<exists>blk' d'. format_table usr grp [a..<b] (blk, of_nat (3 * (a - 1) + 2), d) = (0, blk', d') \<and>
    length blk' = BLOCK_SIZE \<and> disk_ok d' n \<and> file_size d' = file_size d \<and>
    (\<forall>k. a \<le> k \<and> k < b \<longrightarrow> table_block usr grp t k (file_blocks d' k)) \<and>
    (\<forall>k. \<not> (a \<le> k \<and> k < b) \<longrightarrow> file_blocks d' k = file_blocks d k)"
  using assms
proof (induction "b - a" arbitrary: a blk d)
  case 0
  then show ?case by auto
next
  case (Suc m)
  then have ab: "a < b" by simp
  then have l: "[a..<b] = a # [Suc a..<b]" by (simp add: upt_conv_Cons)
  obtain blk1 where 1: "fold (format_inode usr grp a) [0, 1, 2] (blk, of_nat (3 * (a - 1) + 2), d) = (blk1, of_nat (3 * a + 2), d)"
    "table_block usr grp t a blk1"
    using format_block_other [OF Suc.prems(1,5)] by blast
  have lb: "length blk1 = BLOCK_SIZE" using 1(2) by (simp add: table_block_def)
  have an: "a < n" using ab Suc.prems(3) by simp
  let ?d = "store d (of_nat a) blk1"
  note w = disk_ok_write [OF Suc.prems(4) an lb]
  have "\<exists>blk' d'. format_table usr grp [Suc a..<b] (blk1, of_nat (3 * (Suc a - 1) + 2), ?d) = (0, blk', d') \<and>
    length blk' = BLOCK_SIZE \<and> disk_ok d' n \<and> file_size d' = file_size ?d \<and>
    (\<forall>k. Suc a \<le> k \<and> k < b \<longrightarrow> table_block usr grp t k (file_blocks d' k)) \<and>
    (\<forall>k. \<not> (Suc a \<le> k \<and> k < b) \<longrightarrow> file_blocks d' k = file_blocks ?d k)"
    using Suc.hyps(2) Suc.prems ab w(2) lb by (intro Suc.hyps(1)) simp_all
  then obtain blk' d' where 2: "format_table usr grp [Suc a..<b] (blk1, of_nat (3 * a + 2), ?d) = (0, blk', d')"
    "length blk' = BLOCK_SIZE" "disk_ok d' n" "file_size d' = file_size ?d"
    "\<And>k. Suc a \<le> k \<Longrightarrow> k < b \<Longrightarrow> table_block usr grp t k (file_blocks d' k)"
    "\<And>k. \<not> (Suc a \<le> k \<and> k < b) \<Longrightarrow> file_blocks d' k = file_blocks ?d k"
    by auto
  have "format_table usr grp [a..<b] (blk, of_nat (3 * (a - 1) + 2), d) = (0, blk', d')"
    unfolding l format_table.simps(2) 1(1) using w(1) 2(1) by simp
  moreover have "table_block usr grp t k (file_blocks d' k)" if "a \<le> k" "k < b" for k
    using that 1(2) 2(5) 2(6) [of k, unfolded w(3)] by (cases "k = a") simp_all
  moreover have "file_blocks d' k = file_blocks d k" if "\<not> (a \<le> k \<and> k < b)" for k
    using that ab 2(6) [of k, unfolded w(3)] by auto
  ultimately show ?case using 2(2-4) by auto
qed

lemma format_table_ok:
  assumes "1 \<le> b" "b < n" "disk_ok d n"
  shows "\<exists>blk' d'. format_table usr grp [1..<b + 1] (zero_block, 3, d) = (0, blk', d') \<and>
    length blk' = BLOCK_SIZE \<and> disk_ok d' n \<and> file_size d' = file_size d \<and>
    (\<forall>k. 1 \<le> k \<and> k \<le> b \<longrightarrow> table_block usr grp (fst (time d)) k (file_blocks d' k)) \<and>
    (\<forall>k. \<not> (1 \<le> k \<and> k \<le> b) \<longrightarrow> file_blocks d' k = file_blocks d k)"
proof -
  have l: "[1..<b + 1] = 1 # [2..<b + 1]" using assms(1) by (simp add: upt_conv_Cons numeral_2_eq_2)
  obtain blk1 where 1: "fold (format_inode usr grp 1) [0, 1, 2] (zero_block, 3, d) = (blk1, of_nat 5, snd (time d))"
    "table_block usr grp (fst (time d)) 1 blk1"
    using format_block_first by blast
  have lb: "length blk1 = BLOCK_SIZE" using 1(2) by (simp add: table_block_def)
  have n1: "1 < n" "disk_ok (snd (time d)) n" using assms by simp_all
  let ?d = "store (snd (time d)) (of_nat 1) blk1"
  note w = disk_ok_write [OF n1(2,1) lb]
  have a: "2 \<le> (2 :: nat)" "2 \<le> b + 1" "b + 1 \<le> n" using assms by simp_all
  obtain blk' d' where 2: "format_table usr grp [2..<b + 1] (blk1, of_nat (3 * (2 - 1) + 2), ?d) = (0, blk', d')"
    "length blk' = BLOCK_SIZE" "disk_ok d' n" "file_size d' = file_size ?d"
    "\<And>k. 2 \<le> k \<Longrightarrow> k < b + 1 \<Longrightarrow> table_block usr grp (fst (time d)) k (file_blocks d' k)"
    "\<And>k. \<not> (2 \<le> k \<and> k < b + 1) \<Longrightarrow> file_blocks d' k = file_blocks ?d k"
    using format_table_rest [OF a w(2) lb, of usr grp "fst (time d)"] by blast
  have "(3 * (2 - 1) + 2 :: nat) = 5" by simp
  note 2 = 2(1) [unfolded this] 2(2-6)
  have "format_table usr grp [1..<b + 1] (zero_block, 3, d) = (0, blk', d')"
    unfolding l format_table.simps(2) of_nat_1 1(1) using w(1) 2(1) by simp
  moreover have "table_block usr grp (fst (time d)) k (file_blocks d' k)" if "1 \<le> k" "k \<le> b" for k
    using that 1(2) 2(5) 2(6) [of k, unfolded w(3)] by (cases "k = 1") simp_all
  moreover have "file_blocks d' k = file_blocks d k" if "\<not> (1 \<le> k \<and> k \<le> b)" for k
  proof -
    have "\<not> (2 \<le> k \<and> k < b + 1)" "k \<noteq> 1" using that assms(1) by auto
    then show ?thesis using 2(6) [of k, unfolded w(3)] by simp
  qed
  ultimately show ?thesis using 2(2-4) by (intro exI [of _ blk'] exI [of _ d']) simp
qed

subsection \<open>The index of the free space\<close>

text \<open>An index block that gets full is written; one that does not is not.\<close>

lemma format_index_fill:
  assumes "1 \<le> pos" "pos + length xs = 64" "xs \<noteq> []" "length blk = BLOCK_SIZE" "disk_ok d n" "c < n" "(of_nat c :: u64) < ff"
  shows "\<exists>blk'. format_index ff (xs @ rest) (of_nat c) pos blk d = format_index ff rest (of_nat c) 64 blk' (store d (of_nat c) blk') \<and>
    length blk' = BLOCK_SIZE \<and> (\<forall>k<64. get_u64 k blk' = (if k < pos then get_u64 k blk else xs ! (k - pos)))"
  using assms(1-4)
proof (induction xs arbitrary: pos blk)
  case Nil
  then show ?case by simp
next
  case (Cons x xs)
  let ?blk = "put_u64 pos x blk"
  have p: "pos < 64" "pos \<noteq> 64" "pos \<noteq> 0" using Cons.prems by simp_all
  have lb: "length ?blk = BLOCK_SIZE" using Cons.prems by simp
  have g: "k < 64 \<Longrightarrow> get_u64 k ?blk = (if k = pos then x else get_u64 k blk)" for k
    using Cons.prems(4) p(1) by (simp add: get_put_u64)
  show ?case
  proof (cases "xs = []")
    case True
    then have p63: "Suc pos = 64" using Cons.prems(2) by simp
    note w = disk_ok_write [OF assms(5,6) lb]
    have "format_index ff ((x # xs) @ rest) (of_nat c) pos blk d = format_index ff rest (of_nat c) 64 ?blk (store d (of_nat c) ?blk)"
      using p p63 True assms(7) w(1) by (simp add: Let_def)
    moreover have "\<forall>k<64. get_u64 k ?blk = (if k < pos then get_u64 k blk else (x # xs) ! (k - pos))"
    proof (intro allI impI)
      fix k :: nat assume k: "k < 64"
      then have "k < pos \<or> k = pos" using p63 by linarith
      then show "get_u64 k ?blk = (if k < pos then get_u64 k blk else (x # xs) ! (k - pos))" using g [OF k] by auto
    qed
    ultimately show ?thesis using lb by (intro exI [of _ ?blk] conjI) simp_all
  next
    case False
    then have p2: "Suc pos \<noteq> 64" using Cons.prems(2) by (cases xs) simp_all
    have "format_index ff ((x # xs) @ rest) (of_nat c) pos blk d = format_index ff (xs @ rest) (of_nat c) (Suc pos) ?blk d"
      using p p2 assms(7) by (simp add: Let_def)
    moreover obtain blk' where 1:
      "format_index ff (xs @ rest) (of_nat c) (Suc pos) ?blk d = format_index ff rest (of_nat c) 64 blk' (store d (of_nat c) blk')"
      "length blk' = BLOCK_SIZE" "\<forall>k<64. get_u64 k blk' = (if k < Suc pos then get_u64 k ?blk else xs ! (k - Suc pos))"
      using Cons.IH [of "Suc pos" ?blk] Cons.prems False lb by auto
    moreover have "\<forall>k<64. get_u64 k blk' = (if k < pos then get_u64 k blk else (x # xs) ! (k - pos))"
    proof (intro allI impI)
      fix k :: nat assume k: "k < 64"
      show "get_u64 k blk' = (if k < pos then get_u64 k blk else (x # xs) ! (k - pos))"
        using 1(3) [rule_format, OF k] g [OF k] by (cases "k < Suc pos") (auto simp: nth_Cons' less_Suc_eq)
    qed
    ultimately show ?thesis by (intro exI [of _ blk'] conjI) simp_all
  qed
qed

lemma format_index_part:
  assumes "1 \<le> pos" "pos + length xs < 64" "c < ff"
  shows "format_index ff xs c pos blk d = Some (0, c, d)"
  using assms
proof (induction xs arbitrary: pos blk)
  case Nil
  then show ?case by simp
next
  case (Cons x xs)
  then have "format_index ff (x # xs) c pos blk d = format_index ff xs c (Suc pos) (put_u64 pos x blk) d"
    by (simp add: Let_def)
  then show ?case using Cons by simp
qed

text \<open>The next index block is \<open>c\<close>: at the very start, or when the one before is full.\<close>

definition next_index :: "nat \<Rightarrow> u64 \<Rightarrow> nat \<Rightarrow> bool" where
  "next_index c cur pos \<longleftrightarrow> pos = 0 \<and> cur = of_nat c \<or> pos = 64 \<and> cur + 1 = of_nat c"

definition index_link :: "u64 \<Rightarrow> nat \<Rightarrow> u64" where
  "index_link ff c = (if (of_nat c :: u64) < ff - 1 then of_nat c + 1 else 0)"

lemma format_index_enter:
  assumes "next_index c cur pos" "(of_nat c :: u64) < ff"
  shows "format_index ff (x # xs) cur pos blk d = format_index ff (x # xs) (of_nat c) 1 (put_u64 0 (index_link ff c) blk) d"
proof -
  have "pos = 0 \<and> cur = of_nat c \<or> pos = 64 \<and> cur = of_nat c - 1"
    using assms(1) unfolding next_index_def by (metis add_diff_cancel)
  then show ?thesis using assms(2) by (elim disjE conjE) (simp_all add: index_link_def Let_def)
qed

lemma format_index_chunk:
  assumes "next_index c cur pos" "length xs = 63" "length blk = BLOCK_SIZE" "disk_ok d n" "c < n" "(of_nat c :: u64) < ff"
  shows "\<exists>blk'. format_index ff (xs @ rest) cur pos blk d = format_index ff rest (of_nat c) 64 blk' (store d (of_nat c) blk') \<and>
    length blk' = BLOCK_SIZE \<and> get_u64 0 blk' = index_link ff c \<and> map (\<lambda>k. get_u64 k blk') [1..<64] = xs"
proof -
  let ?blk = "put_u64 0 (index_link ff c) blk"
  obtain x ys where xs: "xs = x # ys" using assms(2) by (cases xs) simp_all
  have lb: "length ?blk = BLOCK_SIZE" using assms(3) by simp
  have "format_index ff (xs @ rest) cur pos blk d = format_index ff (xs @ rest) (of_nat c) 1 ?blk d"
    using format_index_enter [OF assms(1,6)] by (simp add: xs)
  moreover obtain blk' where 1: "format_index ff (xs @ rest) (of_nat c) 1 ?blk d = format_index ff rest (of_nat c) 64 blk' (store d (of_nat c) blk')"
    "length blk' = BLOCK_SIZE" "\<And>k. k < 64 \<Longrightarrow> get_u64 k blk' = (if k < 1 then get_u64 k ?blk else xs ! (k - 1))"
    using format_index_fill [OF _ _ _ lb assms(4-6), of 1 xs rest] assms(2) xs by auto
  moreover have "map (\<lambda>k. get_u64 k blk') [1..<64] = xs"
    using assms(2) 1(3) by (intro nth_equalityI) simp_all
  moreover have "get_u64 0 blk' = index_link ff c" using 1(3) [of 0] assms(3) by (simp add: get_put_u64)
  ultimately show ?thesis by (intro exI [of _ blk']) simp
qed

definition index_block :: "u64 \<Rightarrow> nat \<Rightarrow> nat \<Rightarrow> bytes \<Rightarrow> bool" where
  "index_block ff x c blk \<longleftrightarrow> length blk = BLOCK_SIZE \<and> get_u64 0 blk = index_link ff c \<and>
     map (\<lambda>k. get_u64 k blk) [1..<64] = map of_nat [x..<x + 63]"

lemma format_index_ok:
  assumes "next_index c cur pos" "length blk = BLOCK_SIZE" "disk_ok d n" "r < 63"
    and "c + q + (if 0 < r then 1 else 0) \<le> unat (ff :: u64)" "unat ff \<le> n"
  shows "\<exists>d'. format_index ff (map of_nat [x..<x + 63 * q + r]) cur pos blk d =
      Some (0, if 0 < r then of_nat (c + q) else if 0 < q then of_nat (c + q - 1) else cur, d') \<and>
    disk_ok d' n \<and> file_size d' = file_size d \<and> (\<forall>j<q. index_block ff (x + 63 * j) (c + j) (file_blocks d' (c + j))) \<and>
    (\<forall>k. \<not> (c \<le> k \<and> k < c + q) \<longrightarrow> file_blocks d' k = file_blocks d k)"
  using assms
proof (induction q arbitrary: c cur pos blk d x)
  case 0
  have n54: "n \<le> 2 ^ 54" using 0 by (simp add: disk_ok_def)
  show ?case
  proof (cases "0 < r")
    case True
    then have cf: "(of_nat c :: u64) < ff" using 0 n54 by (simp add: word_less_nat_alt unat_of_nat_u64)
    have y: "map of_nat [x..<x + r] = (of_nat x # map of_nat [Suc x..<x + r] :: u64 list)" using True by (simp add: upt_conv_Cons)
    have "format_index ff (map of_nat [x..<x + r]) cur pos blk d = Some (0, of_nat c, d)"
      unfolding y format_index_enter [OF 0(1) cf] using 0(4) cf by (intro format_index_part) simp_all
    then show ?thesis using 0 True by simp
  next
    case False
    then show ?thesis using 0 by simp
  qed
next
  case (Suc q)
  have n54: "n \<le> 2 ^ 54" using Suc.prems by (simp add: disk_ok_def)
  have cn: "c < n" "c < unat ff" using Suc.prems by simp_all
  then have cf: "(of_nat c :: u64) < ff" using n54 by (simp add: word_less_nat_alt unat_of_nat_u64)
  have "x + 63 * Suc q + r = (x + 63) + (63 * q + r)" by simp
  then have "[x..<x + 63 * Suc q + r] = [x..<x + 63] @ [x + 63..<x + 63 + 63 * q + r]"
    using upt_add_eq_append [of x "x + 63" "63 * q + r"] by (simp only: add.assoc)
  then have l: "map of_nat [x..<x + 63 * Suc q + r] = (map of_nat [x..<x + 63] @ map of_nat [x + 63..<x + 63 + 63 * q + r] :: u64 list)"
    by (simp only: map_append)
  have l63: "length (map of_nat [x..<x + 63] :: u64 list) = 63" by simp
  obtain blk1 where 1: "format_index ff (map of_nat [x..<x + 63 * Suc q + r]) cur pos blk d =
      format_index ff (map of_nat [x + 63..<x + 63 + 63 * q + r]) (of_nat c) 64 blk1 (store d (of_nat c) blk1)"
    "length blk1 = BLOCK_SIZE" "get_u64 0 blk1 = index_link ff c" "map (\<lambda>k. get_u64 k blk1) [1..<64] = map of_nat [x..<x + 63]"
    unfolding l using format_index_chunk [OF Suc.prems(1) l63 Suc.prems(2,3) cn(1) cf] by blast
  let ?d = "store d (of_nat c) blk1"
  note w = disk_ok_write [OF Suc.prems(3) cn(1) 1(2)]
  have nx: "next_index (Suc c) (of_nat c) 64" by (simp add: next_index_def)
  have le: "Suc c + q + (if 0 < r then 1 else 0) \<le> unat ff" using Suc.prems(5) by simp
  obtain d' where 2: "format_index ff (map of_nat [x + 63..<x + 63 + 63 * q + r]) (of_nat c) 64 blk1 ?d =
      Some (0, if 0 < r then of_nat (Suc c + q) else if 0 < q then of_nat (Suc c + q - 1) else of_nat c, d')"
    "disk_ok d' n" "file_size d' = file_size ?d" "\<And>j. j < q \<Longrightarrow> index_block ff (x + 63 + 63 * j) (Suc c + j) (file_blocks d' (Suc c + j))"
    "\<And>k. \<not> (Suc c \<le> k \<and> k < Suc c + q) \<Longrightarrow> file_blocks d' k = file_blocks ?d k"
    using Suc.IH [OF nx 1(2) w(2) Suc.prems(4) le Suc.prems(6)] by blast
  note f = 2(5) [unfolded w(3)]
  have "index_block ff (x + 63 * j) (c + j) (file_blocks d' (c + j))" if "j < Suc q" for j
  proof (cases j)
    case 0
    then show ?thesis using f [of c] 1(2-4) by (simp add: index_block_def)
  next
    case (Suc i)
    then show ?thesis using 2(4) [of i] that by (simp add: add.assoc)
  qed
  moreover have "file_blocks d' k = file_blocks d k" if "\<not> (c \<le> k \<and> k < c + Suc q)" for k
    using that f [of k] by auto
  moreover have "(if 0 < r then of_nat (Suc c + q) else if 0 < q then of_nat (Suc c + q - 1) else of_nat c) =
      (if 0 < r then of_nat (c + Suc q) else if 0 < Suc q then of_nat (c + Suc q - 1) else cur)"
    by simp
  ultimately show ?case unfolding 1(1) using 2(1-3) by (intro exI [of _ d']) simp
qed

subsection \<open>The sizes\<close>

text \<open>The layout of a disk of \<open>n\<close> blocks, in unbounded numbers.\<close>

definition fmt_itb :: "nat \<Rightarrow> nat" where "fmt_itb n = max 1 ((n - 1) div 16)"
definition fmt_head :: "nat \<Rightarrow> nat" where "fmt_head n = 2 + fmt_itb n"
definition fmt_free :: "nat \<Rightarrow> nat" where "fmt_free n = n - fmt_head n"
definition fmt_listed :: "nat \<Rightarrow> nat" where "fmt_listed n = fmt_free n * 63 div 64"
definition fmt_first :: "nat \<Rightarrow> nat" where "fmt_first n = n - fmt_listed n"

text \<open>The sizes for which the assertion after the loop holds.\<close>

definition format_size_ok :: "nat \<Rightarrow> bool" where
  "format_size_ok n \<longleftrightarrow> fmt_free n \<noteq> 0 \<and> (fmt_free n mod 64 = 1 \<longrightarrow> fmt_free n = 1)"

lemma fmt_bounds:
  assumes "3 \<le> n"
  shows "1 \<le> fmt_itb n" "fmt_head n \<le> n" "fmt_itb n < fmt_head n" "fmt_listed n \<le> fmt_free n"
    "fmt_head n \<le> fmt_first n" "fmt_first n \<le> n" "16 * fmt_itb n \<le> n + 15"
proof -
  show 1: "1 \<le> fmt_itb n" and "fmt_itb n < fmt_head n" by (simp_all add: fmt_itb_def fmt_head_def)
  have d: "16 * ((n - 1) div 16) \<le> n - 1" by simp
  define x where "x = (n - 1) div 16"
  have "16 * x \<le> n - 1" using d by (simp add: x_def)
  then show h: "fmt_head n \<le> n" using assms unfolding fmt_head_def fmt_itb_def x_def [symmetric] by (auto simp: max_def)
  show l: "fmt_listed n \<le> fmt_free n" unfolding fmt_listed_def by simp
  show "fmt_head n \<le> fmt_first n" "fmt_first n \<le> n" using h l by (simp_all add: fmt_first_def fmt_free_def)
  show "16 * fmt_itb n \<le> n + 15" using \<open>16 * x \<le> n - 1\<close> assms unfolding fmt_itb_def x_def [symmetric] by (cases "1 \<le> x") (simp_all add: max_def)
qed

text \<open>Full index blocks, entries of the last one, and how the number of index blocks compares.\<close>

lemma fmt_index:
  fixes n :: nat
  defines "q \<equiv> fmt_listed n div 63" and "r \<equiv> fmt_listed n mod 63"
  assumes n: "3 \<le> n"
  shows "fmt_first n + 63 * q + r = n" "r < 63" "fmt_head n + q + (if 0 < r then 1 else 0) \<le> fmt_first n"
    "format_size_ok n \<Longrightarrow> fmt_first n = fmt_head n + (if 0 < r \<or> q = 0 then q + 1 else q)"
    "\<not> format_size_ok n \<Longrightarrow> (if 0 < r then fmt_head n + q else if 0 < q then fmt_head n + q - 1 else fmt_head n) \<noteq> fmt_first n - 1"
proof -
  note b = fmt_bounds [OF n]
  let ?f = "fmt_free n"
  define a where "a = ?f div 64"
  define m where "m = ?f mod 64"
  have f: "?f = 64 * a + m" "m < 64" by (simp_all add: a_def m_def)
  have L: "fmt_listed n = 63 * a + (m - 1)"
  proof -
    have "?f * 63 = 64 * (63 * a + (m - 1)) + (if m = 0 then 0 else 64 - m)" using f by (cases m) simp_all
    moreover have "(if m = 0 then 0 else 64 - m) < 64" by simp
    ultimately show ?thesis unfolding fmt_listed_def by (simp add: div_mult_self2)
  qed
  have m1: "m - 1 < 63" using f(2) by simp
  have qr: "q = a" "r = m - 1" unfolding q_def r_def L using m1 by simp_all
  show r: "r < 63" using qr(2) m1 by simp
  have fst: "fmt_first n = fmt_head n + (?f - fmt_listed n)" using b(2,4) by (simp add: fmt_first_def fmt_free_def)
  have idx: "?f - fmt_listed n = a + (if m = 0 then 0 else 1)" using f L by simp
  have "63 * q + r = fmt_listed n" by (simp add: q_def r_def)
  then show "fmt_first n + 63 * q + r = n" using b(4) by (simp add: fmt_first_def fmt_free_def)
  show "fmt_head n + q + (if 0 < r then 1 else 0) \<le> fmt_first n" using fst idx qr by auto
  show "fmt_first n = fmt_head n + (if 0 < r \<or> q = 0 then q + 1 else q)" if "format_size_ok n"
    using that fst idx qr f unfolding format_size_ok_def m_def [symmetric] by auto
  show "(if 0 < r then fmt_head n + q else if 0 < q then fmt_head n + q - 1 else fmt_head n) \<noteq> fmt_first n - 1" if "\<not> format_size_ok n"
  proof -
    have "?f = 0 \<or> m = 1 \<and> ?f \<noteq> 1" using that by (auto simp: format_size_ok_def m_def)
    moreover have "0 < fmt_head n" by (simp add: fmt_head_def)
    ultimately show ?thesis using fst idx qr f by auto
  qed
qed

lemma u64_div: "a < 2 ^ 64 \<Longrightarrow> b < 2 ^ 64 \<Longrightarrow> (of_nat a :: u64) div of_nat b = of_nat (a div b)"
proof -
  assume a: "a < 2 ^ 64" "b < 2 ^ 64"
  then have "a div b < 2 ^ 64" using div_le_dividend [of a b] by linarith
  then have "unat ((of_nat a :: u64) div of_nat b) = unat (of_nat (a div b) :: u64)"
    using a by (simp add: unat_div unat_of_nat_u64)
  then show ?thesis by (simp add: word_unat_eq_iff)
qed

lemma format_words:
  assumes "3 \<le> n" "n \<le> 2 ^ 54"
  shows "free_blocks_head (format_superblock (of_nat n) t) = of_nat (fmt_head n)"
    "inode_table_blocks (format_superblock (of_nat n) t) = of_nat (fmt_itb n)"
    "blocks (format_superblock (of_nat n) t) = of_nat n" "free_inode_head (format_superblock (of_nat n) t) = 2"
    "format_first_free (format_superblock (of_nat n) t) = of_nat (fmt_first n)"
proof -
  note b = fmt_bounds [OF assms(1)]
  have s: "(of_nat n - 1 :: u64) = of_nat (n - 1)" using assms(1) by (simp add: of_nat_diff)
  have d: "(of_nat n - 1 :: u64) div 16 = of_nat ((n - 1) div 16)"
    unfolding s using u64_div [of "n - 1" 16] assms(2) by simp
  have "(of_nat ((n - 1) div 16) :: u64) = 0 \<longleftrightarrow> (n - 1) div 16 = 0"
    using of_nat_u64_eq [of "(n - 1) div 16" 0] assms(2) by simp
  then have i: "format_inode_table_blocks (of_nat n) = of_nat (fmt_itb n)"
    unfolding format_inode_table_blocks_def d fmt_itb_def by (auto simp: max_def)
  show h: "free_blocks_head (format_superblock (of_nat n) t) = of_nat (fmt_head n)"
    and "inode_table_blocks (format_superblock (of_nat n) t) = of_nat (fmt_itb n)"
    and bl: "blocks (format_superblock (of_nat n) t) = of_nat n" and "free_inode_head (format_superblock (of_nat n) t) = 2"
    by (simp_all add: format_superblock_def Let_def i fmt_head_def)
  have f: "(of_nat n - of_nat (fmt_head n) :: u64) = of_nat (fmt_free n)" using b(2) by (simp add: fmt_free_def of_nat_diff)
  have "fmt_free n * 63 < 2 ^ 64" using assms(2) by (simp add: fmt_free_def)
  then have m: "(of_nat (fmt_free n) * 63 :: u64) div (63 + 1) = of_nat (fmt_listed n)"
    using u64_div [of "fmt_free n * 63" 64] by (simp add: fmt_listed_def)
  have "fmt_first n = fmt_head n + fmt_free n - fmt_listed n" using b(2) by (simp add: fmt_first_def fmt_free_def)
  moreover have "fmt_listed n \<le> fmt_head n + fmt_free n" using b(4) by simp
  ultimately show "format_first_free (format_superblock (of_nat n) t) = of_nat (fmt_first n)"
    unfolding format_first_free_def h bl Let_def f m by (simp add: of_nat_diff)
qed

subsection \<open>The whole\<close>

definition formatted :: "os \<Rightarrow> u32 \<Rightarrow> u32 \<Rightarrow> sfs_fs_superblock \<Rightarrow> os \<Rightarrow> bool" where
  "formatted d usr grp sb d' \<longleftrightarrow>
     (let n = file_size d div 512; q = fmt_listed n div 63 in
      (\<exists>t. sb = format_superblock (of_nat n) t) \<and> disk_ok d' n \<and> file_size d' = file_size d \<and>
      file_blocks d' 0 = put_bytes 0 (encode_superblock sb) zero_block \<and>
      (\<exists>t. \<forall>k. 1 \<le> k \<and> k \<le> fmt_itb n \<longrightarrow> table_block usr grp t k (file_blocks d' k)) \<and>
      (\<forall>j<q. index_block (of_nat (fmt_first n)) (fmt_first n + 63 * j) (fmt_head n + j) (file_blocks d' (fmt_head n + j))) \<and>
      (\<forall>k. fmt_itb n < k \<and> \<not> (fmt_head n \<le> k \<and> k < fmt_head n + q) \<longrightarrow> file_blocks d' k = file_blocks d k))"

lemma format_loops:
  assumes d: "wf_os d" "no_faults d" and n: "n = file_size d div 512" "3 \<le> n" "n \<le> 2 ^ 54"
  defines "q \<equiv> fmt_listed n div 63" and "r \<equiv> fmt_listed n mod 63" and "sb \<equiv> format_superblock (of_nat n) (fst (time d))"
  obtains blk d1 d2 where
    "format_table usr grp [1..<unat (inode_table_blocks sb) + 1] (zero_block, 3, snd (time d)) = (0, blk, d1)"
    "format_index (of_nat (fmt_first n)) (map of_nat [unat (format_first_free sb)..<unat (blocks sb)]) (free_blocks_head sb) 0 blk d1 =
       Some (0, of_nat (if 0 < r then fmt_head n + q else if 0 < q then fmt_head n + q - 1 else fmt_head n), d2)"
    "disk_ok d2 n" "file_size d2 = file_size d"
    "\<And>k. 1 \<le> k \<Longrightarrow> k \<le> fmt_itb n \<Longrightarrow> table_block usr grp (fst (time (snd (time d)))) k (file_blocks d2 k)"
    "\<And>j. j < q \<Longrightarrow> index_block (of_nat (fmt_first n)) (fmt_first n + 63 * j) (fmt_head n + j) (file_blocks d2 (fmt_head n + j))"
    "\<And>k. fmt_itb n < k \<Longrightarrow> \<not> (fmt_head n \<le> k \<and> k < fmt_head n + q) \<Longrightarrow> file_blocks d2 k = file_blocks d k"
proof -
  note b = fmt_bounds [OF n(2)] and w = format_words [OF n(2,3), of "fst (time d)", folded sb_def]
  note i = fmt_index [OF n(2), folded q_def r_def]
  have dk: "disk_ok (snd (time d)) n" using d n by (simp add: disk_ok_def)
  have u: "unat (of_nat k :: u64) = k" if "k \<le> n" for k using that n(3) by (intro unat_of_nat_u64) simp
  have itb: "fmt_itb n < n" using b by linarith
  obtain blk d1 where 1: "format_table usr grp [1..<fmt_itb n + 1] (zero_block, 3, snd (time d)) = (0, blk, d1)"
    "length blk = BLOCK_SIZE" "disk_ok d1 n" "file_size d1 = file_size d"
    "\<And>k. 1 \<le> k \<Longrightarrow> k \<le> fmt_itb n \<Longrightarrow> table_block usr grp (fst (time (snd (time d)))) k (file_blocks d1 k)"
    "\<And>k. \<not> (1 \<le> k \<and> k \<le> fmt_itb n) \<Longrightarrow> file_blocks d1 k = file_blocks d k"
    using format_table_ok [OF b(1) itb dk, of usr grp] by auto
  have nx: "next_index (fmt_head n) (of_nat (fmt_head n)) 0" by (simp add: next_index_def)
  have ff: "fmt_head n + q + (if 0 < r then 1 else 0) \<le> unat (of_nat (fmt_first n) :: u64)" "unat (of_nat (fmt_first n) :: u64) \<le> n"
    using i(3) b(6) u by simp_all
  obtain d2 where 2: "format_index (of_nat (fmt_first n)) (map of_nat [fmt_first n..<fmt_first n + 63 * q + r]) (of_nat (fmt_head n)) 0 blk d1 =
      Some (0, if 0 < r then of_nat (fmt_head n + q) else if 0 < q then of_nat (fmt_head n + q - 1) else of_nat (fmt_head n), d2)"
    "disk_ok d2 n" "file_size d2 = file_size d1"
    "\<And>j. j < q \<Longrightarrow> index_block (of_nat (fmt_first n)) (fmt_first n + 63 * j) (fmt_head n + j) (file_blocks d2 (fmt_head n + j))"
    "\<And>k. \<not> (fmt_head n \<le> k \<and> k < fmt_head n + q) \<Longrightarrow> file_blocks d2 k = file_blocks d1 k"
    using format_index_ok [OF nx 1(2,3) i(2) ff, of "fmt_first n"] by blast
  have e: "(if 0 < r then of_nat (fmt_head n + q) else if 0 < q then of_nat (fmt_head n + q - 1) else of_nat (fmt_head n)) =
      (of_nat (if 0 < r then fmt_head n + q else if 0 < q then fmt_head n + q - 1 else fmt_head n) :: u64)"
    by simp
  have ws: "unat (inode_table_blocks sb) = fmt_itb n" "unat (format_first_free sb) = fmt_first n" "unat (blocks sb) = n"
    "free_blocks_head sb = of_nat (fmt_head n)"
    using w u itb b(6) by simp_all
  show ?thesis
  proof (rule that [of blk d1 d2])
    show "format_table usr grp [1..<unat (inode_table_blocks sb) + 1] (zero_block, 3, snd (time d)) = (0, blk, d1)"
      unfolding ws by (rule 1(1))
    show "format_index (of_nat (fmt_first n)) (map of_nat [unat (format_first_free sb)..<unat (blocks sb)]) (free_blocks_head sb) 0 blk d1 =
       Some (0, of_nat (if 0 < r then fmt_head n + q else if 0 < q then fmt_head n + q - 1 else fmt_head n), d2)"
      unfolding ws using 2(1) unfolding e i(1) .
  next
    fix k assume k: "1 \<le> k" "k \<le> fmt_itb n"
    then have "file_blocks d2 k = file_blocks d1 k" using b(3) by (intro 2(5)) simp
    then show "table_block usr grp (fst (time (snd (time d)))) k (file_blocks d2 k)" using 1(5) [OF k] by simp
  qed (use 2 1 in auto)
qed

lemma format_fs_ok:
  assumes d: "wf_os d" "no_faults d" and n: "3 \<le> file_size d div 512" "file_size d div 512 \<le> 2 ^ 54"
  shows "format_size_ok (file_size d div 512) \<Longrightarrow> \<exists>sb d'. format_fs d True usr grp = Some (Some sb, d') \<and> formatted d usr grp sb d'"
    "\<not> format_size_ok (file_size d div 512) \<Longrightarrow> format_fs d True usr grp = None"
proof -
  define n where "n = file_size d div 512"
  define sb where "sb = format_superblock (of_nat n) (fst (time d))"
  let ?q = "fmt_listed n div 63" and ?r = "fmt_listed n mod 63"
  let ?c = "if 0 < ?r then fmt_head n + ?q else if 0 < ?q then fmt_head n + ?q - 1 else fmt_head n"
  note n = n [folded n_def]
  note b = fmt_bounds [OF n(1)] and w = format_words [OF n, of "fst (time d)", folded sb_def] and i = fmt_index [OF n(1)]
  obtain blk d1 d2 where l:
    "format_table usr grp [1..<unat (inode_table_blocks sb) + 1] (zero_block, 3, snd (time d)) = (0, blk, d1)"
    "format_index (of_nat (fmt_first n)) (map of_nat [unat (format_first_free sb)..<unat (blocks sb)]) (free_blocks_head sb) 0 blk d1 =
       Some (0, of_nat ?c, d2)"
    "disk_ok d2 n" "file_size d2 = file_size d"
    "\<And>k. 1 \<le> k \<Longrightarrow> k \<le> fmt_itb n \<Longrightarrow> table_block usr grp (fst (time (snd (time d)))) k (file_blocks d2 k)"
    "\<And>j. j < ?q \<Longrightarrow> index_block (of_nat (fmt_first n)) (fmt_first n + 63 * j) (fmt_head n + j) (file_blocks d2 (fmt_head n + j))"
    "\<And>k. fmt_itb n < k \<Longrightarrow> \<not> (fmt_head n \<le> k \<and> k < fmt_head n + ?q) \<Longrightarrow> file_blocks d2 k = file_blocks d k"
    by (rule format_loops [OF d n_def n, folded sb_def, of usr grp]) blast
  have n3: "(of_nat n < (3 :: u64)) = False" using n by (simp add: word_less_nat_alt unat_of_nat_u64)
  have td: "time d = (fst (time d), snd (time d))" by simp
  have "format_fs d True usr grp =
      (if of_nat ?c \<noteq> (format_first_free sb - 1 :: u64) then None
       else let (r, d) = write_superblock d2 sb in Some (if r \<noteq> 0 then None else Some sb, d))"
    unfolding format_fs_def n_def [symmetric] Let_def n3 not_True_eq_False if_False
    by (subst td) (simp only: prod.case sb_def [symmetric] l(1) l(2) [folded w(5)] bind.bind_lunit not_not not_True_eq_False if_True if_False refl)
  then have f: "format_fs d True usr grp =
      (if of_nat ?c \<noteq> (of_nat (fmt_first n) - 1 :: u64) then None
       else let (r, d) = write_superblock d2 sb in Some (if r \<noteq> 0 then None else Some sb, d))"
    unfolding w(5) .
  have fp: "0 < fmt_first n" using b(5) by (simp add: fmt_head_def)
  then have p: "(of_nat (fmt_first n) - 1 :: u64) = of_nat (fmt_first n - 1)" by (simp add: of_nat_diff)
  have "?c \<le> fmt_head n + ?q" by simp
  then have "?c \<le> fmt_first n" using i(3) by linarith
  then have "?c < 2 ^ 64" "fmt_first n - 1 < 2 ^ 64" using b(6) n(2) by simp_all
  then have eq: "of_nat ?c = (of_nat (fmt_first n - 1) :: u64) \<longleftrightarrow> ?c = fmt_first n - 1" by (rule of_nat_u64_eq)
  show "format_fs d True usr grp = None" if "\<not> format_size_ok (file_size d div 512)"
    using i(5) that unfolding f p eq n_def [symmetric] by simp
  show "\<exists>sb d'. format_fs d True usr grp = Some (Some sb, d') \<and> formatted d usr grp sb d'" if "format_size_ok (file_size d div 512)"
  proof -
    have c: "?c = fmt_first n - 1" using i(4) that unfolding n_def [symmetric] by (auto split: if_splits)
    have len: "length (put_bytes 0 (encode_superblock sb) zero_block) = BLOCK_SIZE"
      by (simp add: sb_def format_superblock_def Let_def length_put_bytes length_encode_superblock SFS_FILE_TYPE_SIGNATURE_def)
    have n0: "0 < n" using n by simp
    let ?d = "store d2 (of_nat 0) (put_bytes 0 (encode_superblock sb) zero_block)"
    note ws = disk_ok_write [OF l(3) n0 len]
    have "format_fs d True usr grp = Some (Some sb, ?d)"
      unfolding f p eq using c ws(1) by (simp add: write_superblock_def)
    moreover have "formatted d usr grp sb ?d"
      unfolding formatted_def Let_def n_def [symmetric]
    proof (intro conjI allI impI)
      show "\<exists>t. sb = format_superblock (of_nat n) t" by (auto simp: sb_def)
      show "\<exists>t. \<forall>k. 1 \<le> k \<and> k \<le> fmt_itb n \<longrightarrow> table_block usr grp t k (file_blocks ?d k)"
        using l(5) unfolding ws(3) by auto
      show "index_block (of_nat (fmt_first n)) (fmt_first n + 63 * j) (fmt_head n + j) (file_blocks ?d (fmt_head n + j))" if "j < ?q" for j
        using l(6) [OF that] unfolding ws(3) by (simp add: fmt_head_def)
      show "file_blocks ?d k = file_blocks d k" if "fmt_itb n < k \<and> \<not> (fmt_head n \<le> k \<and> k < fmt_head n + ?q)" for k
        using l(7) [of k] that unfolding ws(3) by simp
    qed (use ws l(4) in simp_all)
    ultimately show ?thesis by blast
  qed
qed

end
