(* ===== verification/Sfs_Files.thy ===== *)
theory Sfs_Files
  imports Open_Files
begin

text \<open>
  \<^verbatim>\<open>sfs_open\<close>, \<^verbatim>\<open>sfs_create\<close>, \<^verbatim>\<open>sfs_unlink\<close> and \<^verbatim>\<open>sfs_release\<close> on a whole system: every one of them keeps
  the invariant \<open>sys_ok\<close> of volume, descriptor pool and link counts.
\<close>

subsection \<open>Opening\<close>

lemma sfs_open_present:
  assumes so: "sys_ok s f p" and env: "env_full env" and nm: "proper_name nm" and n: "names (abs_fs f) nm = Some n"
    and p: "free_fds p \<noteq> {}"
  shows "\<exists>k s' f' p'. sfs_open env (SLASH # nm) fi s = Some ((0, handle fi k), s') \<and> sys_ok s' f' p' \<and>
    fd_added p p' k n \<and> names (abs_fs f') = names (abs_fs f) \<and> only_changes (abs_fs f) (abs_fs f') n \<and>
    links (a_inode (abs_fs f') n) = links (a_inode (abs_fs f) n) + 1 \<and> isize (a_inode (abs_fs f') n) = isize (a_inode (abs_fs f) n) \<and>
    block_pointers (a_inode (abs_fs f') n) = block_pointers (a_inode (abs_fs f) n) \<and>
    fblock (abs_fs f') (a_inode (abs_fs f') n) = fblock (abs_fs f) (a_inode (abs_fs f) n) \<and>
    free_blocks (abs_fs f') = free_blocks (abs_fs f)"
proof -
  note sd = sys_okD [OF so]
  from env obtain raw where e: "env_ok env" "slab_mem env = Some raw" by (auto simp: env_full_def)
  obtain r it f1 where 1: "open_root env (SLASH # nm) (s\<lparr>st_locked := True\<rparr>) =
       Some (Inr (nm, root (abs_fs f)), s\<lparr>st_locked := True, st_fs := Some (after_read f 1)\<rparr>)"
    "scan_dir env (after_read f 1) (root (abs_fs f)) nm = Some (Some (r, it), f1)"
    "mounted f1" "names (abs_fs f1) = names (abs_fs f)" "used (abs_fs f1) = used (abs_fs f)"
    "others_same (abs_fs f) (abs_fs f1) n" "\<And>m. m \<noteq> 1 \<Longrightarrow> a_inode (abs_fs f1) m = a_inode (abs_fs f) m"
    "\<And>m. fblock (abs_fs f1) m = fblock (abs_fs f) m"
    "r = Some 0 \<and> (\<exists>k. live (abs_fs f1) k \<and> dname (abs_fs f1) k = nm \<and>
       dino (abs_fs f1) k = n \<and> unat (it_iblock it) = k \<and> cached_block it = fblock (abs_fs f1) (root (abs_fs f1)) k)"
    "free_blocks (abs_fs f1) = free_blocks (abs_fs f)"
    by (rule lookup_names [OF sd(1) e(1) nm, where n = n]) (use n in blast)
  have x: "de_inumber (get_entry 0 (cached_block it)) = n" using 1(9) by (auto simp: dino_def dslot_def)
  have nu: "n \<noteq> 1" using names_used [OF sd(8) n] by simp
  obtain t f2 k p' where 2: "add_link f1 n = Some (Inr (a_inode (abs_fs f2) n), f2)" "inumber (a_inode (abs_fs f2) n) = n"
    "\<forall>s1. st_pool s1 = Some p \<longrightarrow> open_fd env n fi s1 = Some ((0, handle fi k), s1\<lparr>st_pool := Some p'\<rparr>)"
    "sys_ok (s\<lparr>st_locked := False, st_fs := Some f2, st_pool := Some p'\<rparr>) f2 p'" "fd_added p p' k n"
    "names (abs_fs f2) = names (abs_fs f)" "only_changes (abs_fs f) (abs_fs f2) n"
    "a_inode (abs_fs f2) n = (a_inode (abs_fs f) n)\<lparr>links := links (a_inode (abs_fs f) n) + 1, change_time := t\<rparr>"
    "fblock (abs_fs f2) (a_inode (abs_fs f2) n) = fblock (abs_fs f) (a_inode (abs_fs f) n)"
    "free_blocks (abs_fs f2) = free_blocks (abs_fs f1)"
    by (rule open_existing [OF so 1(3-6) 1(7) [OF nu] 1(8) n p e(2), where fi = fi]) blast
  let ?s' = "s\<lparr>st_locked := False, st_fs := Some f2, st_pool := Some p'\<rparr>"
  have "sfs_open env (SLASH # nm) fi s = Some ((0, handle fi k), ?s')"
    using 1(1,2,9) 2(1-3) x sd(2,5) by (simp add: sfs_open_def critical_def)
  then show ?thesis
    using 2(4-10) 1(10) by (intro exI [of _ k] exI [of _ ?s'] exI [of _ f2] exI [of _ p']) simp
qed

text \<open>A path that is not there, and the other refusals, leave the system as it was but for the access time of the root.\<close>

lemma absent_sys_ok:
  assumes so: "sys_ok s f p" and m: "mounted f'" "names (abs_fs f') = names (abs_fs f)" "used (abs_fs f') = used (abs_fs f)"
    "others_same (abs_fs f) (abs_fs f') 1"
  shows "sys_ok (s\<lparr>st_locked := False, st_fs := Some f'\<rparr>) f' p"
proof -
  note sd = sys_okD [OF so]
  have "links_ok (abs_fs f') p"
    using sd(7) m(2,3) by (intro links_ok_frame [OF sd(7) m(4)]) (auto simp: links_ok_def)
  then show ?thesis using m(1) sd by (simp add: sys_ok_def ready_def)
qed

lemma sfs_open_absent:
  assumes so: "sys_ok s f p" and env: "env_ok env" and nm: "proper_name nm" and n: "names (abs_fs f) nm = None"
  shows "\<exists>s' f'. sfs_open env (SLASH # nm) fi s = Some ((- ENOENT, fi), s') \<and> sys_ok s' f' p \<and>
    names (abs_fs f') = names (abs_fs f) \<and> only_changes (abs_fs f) (abs_fs f') 1"
proof -
  note sd = sys_okD [OF so]
  obtain r it f1 where 1: "open_root env (SLASH # nm) (s\<lparr>st_locked := True\<rparr>) =
       Some (Inr (nm, root (abs_fs f)), s\<lparr>st_locked := True, st_fs := Some (after_read f 1)\<rparr>)"
    "scan_dir env (after_read f 1) (root (abs_fs f)) nm = Some (Some (r, it), f1)"
    "mounted f1" "names (abs_fs f1) = names (abs_fs f)" "used (abs_fs f1) = used (abs_fs f)"
    "others_same (abs_fs f) (abs_fs f1) 1" "r = None"
    by (rule lookup_names [OF sd(1) env nm, where n = 1]) (use n in blast)
  have "sfs_open env (SLASH # nm) fi s = Some ((- ENOENT, fi), s\<lparr>st_locked := False, st_fs := Some f1\<rparr>)"
    using 1(1,2,7) sd(2) by (simp add: sfs_open_def critical_def)
  then show ?thesis using absent_sys_ok [OF so 1(3-6)] 1(4) only_changes_used [OF 1(6,5)] by blast
qed

subsection \<open>Creation\<close>

lemma sfs_create_exclusive:
  assumes so: "sys_ok s f p" and env: "env_ok env" and nm: "proper_name nm" and n: "names (abs_fs f) nm = Some n"
    and fl: "fi_flags fi AND O_EXCL \<noteq> 0"
  shows "\<exists>s' f'. sfs_create env (SLASH # nm) cmode fi s = Some ((- EEXIST, fi), s') \<and> sys_ok s' f' p \<and>
    names (abs_fs f') = names (abs_fs f) \<and> only_changes (abs_fs f) (abs_fs f') 1"
proof -
  note sd = sys_okD [OF so]
  obtain r it f1 where 1: "open_root env (SLASH # nm) (s\<lparr>st_locked := True\<rparr>) =
       Some (Inr (nm, root (abs_fs f)), s\<lparr>st_locked := True, st_fs := Some (after_read f 1)\<rparr>)"
    "scan_dir env (after_read f 1) (root (abs_fs f)) nm = Some (Some (r, it), f1)"
    "mounted f1" "names (abs_fs f1) = names (abs_fs f)" "used (abs_fs f1) = used (abs_fs f)"
    "others_same (abs_fs f) (abs_fs f1) 1" "r = Some 0"
    by (rule lookup_names [OF sd(1) env nm, where n = 1]) (use n in blast)
  have "sfs_create env (SLASH # nm) cmode fi s = Some ((- EEXIST, fi), s\<lparr>st_locked := False, st_fs := Some f1\<rparr>)"
    using 1(1,2,7) sd(2) fl by (simp add: sfs_create_def critical_def)
  then show ?thesis using absent_sys_ok [OF so 1(3-6)] 1(4) only_changes_used [OF 1(6,5)] by blast
qed

text \<open>Creating a file that exists opens it.\<close>

lemma sfs_create_present:
  assumes so: "sys_ok s f p" and env: "env_full env" and nm: "proper_name nm" and n: "names (abs_fs f) nm = Some n"
    and p: "free_fds p \<noteq> {}" and fl: "fi_flags fi AND O_EXCL = 0"
  shows "sfs_create env (SLASH # nm) cmode fi s = sfs_open env (SLASH # nm) fi s"
proof -
  note sd = sys_okD [OF so]
  from env obtain raw where e: "env_ok env" "slab_mem env = Some raw" by (auto simp: env_full_def)
  obtain r it f1 where 1: "open_root env (SLASH # nm) (s\<lparr>st_locked := True\<rparr>) =
       Some (Inr (nm, root (abs_fs f)), s\<lparr>st_locked := True, st_fs := Some (after_read f 1)\<rparr>)"
    "scan_dir env (after_read f 1) (root (abs_fs f)) nm = Some (Some (r, it), f1)"
    "mounted f1" "names (abs_fs f1) = names (abs_fs f)" "used (abs_fs f1) = used (abs_fs f)"
    "others_same (abs_fs f) (abs_fs f1) n" "\<And>m. m \<noteq> 1 \<Longrightarrow> a_inode (abs_fs f1) m = a_inode (abs_fs f) m"
    "\<And>m. fblock (abs_fs f1) m = fblock (abs_fs f) m"
    "r = Some 0 \<and> (\<exists>k. live (abs_fs f1) k \<and> dname (abs_fs f1) k = nm \<and>
       dino (abs_fs f1) k = n \<and> unat (it_iblock it) = k \<and> cached_block it = fblock (abs_fs f1) (root (abs_fs f1)) k)"
    by (rule lookup_names [OF sd(1) e(1) nm, where n = n]) (use n in blast)
  have x: "de_inumber (get_entry 0 (cached_block it)) = n" using 1(9) by (auto simp: dino_def dslot_def)
  have nu: "n \<noteq> 1" using names_used [OF sd(8) n] by simp
  obtain f2 where "add_link f1 n = Some (Inr (a_inode (abs_fs f2) n), f2)" "inumber (a_inode (abs_fs f2) n) = n"
    by (rule open_existing [OF so 1(3-6) 1(7) [OF nu] 1(8) n p e(2), where fi = fi]) blast
  then show ?thesis
    using 1(1,2,9) x sd(2,5) fl by (simp add: sfs_create_def sfs_open_def critical_def)
qed

lemma sfs_create_new:
  assumes so: "sys_ok s f p" and env: "env_full env" and nm: "proper_name nm" and n: "names (abs_fs f) nm = None"
    and p: "free_fds p \<noteq> {}" and fi': "free_inodes (abs_fs f) \<noteq> {}"
    and w: "writable (abs_fs f) (root (abs_fs f)) (vacant_from (abs_fs f) (root (abs_fs f)) 0)"
  shows "\<exists>n k s' f' p'. sfs_create env (SLASH # nm) cmode fi s = Some ((0, handle fi k), s') \<and> sys_ok s' f' p' \<and>
    n \<in> free_inodes (abs_fs f) \<and> names (abs_fs f') = (names (abs_fs f))(nm \<mapsto> n) \<and>
    new_inode env cmode (abs_fs f) n (a_inode (abs_fs f') n) \<and> only_changes (abs_fs f) (abs_fs f') n \<and> fd_added p p' k n"
proof -
  note sd = sys_okD [OF so]
  from env obtain raw where e: "env_ok env" "slab_mem env = Some raw" by (auto simp: env_full_def)
  obtain r it f1 where 1: "open_root env (SLASH # nm) (s\<lparr>st_locked := True\<rparr>) =
       Some (Inr (nm, root (abs_fs f)), s\<lparr>st_locked := True, st_fs := Some (after_read f 1)\<rparr>)"
    "scan_dir env (after_read f 1) (root (abs_fs f)) nm = Some (Some (r, it), f1)"
    "mounted f1" "superblock f1 = superblock f" "it_inode it = root (abs_fs f1)"
    "names (abs_fs f1) = names (abs_fs f)" "used (abs_fs f1) = used (abs_fs f)"
    "\<And>m. m \<noteq> 1 \<Longrightarrow> a_inode (abs_fs f1) m = a_inode (abs_fs f) m"
    "touched (abs_fs f) (root (abs_fs f)) (abs_fs f1) (root (abs_fs f1))" "others_same (abs_fs f) (abs_fs f1) 1" "r = None"
    by (rule lookup_names [OF sd(1) e(1) nm, where n = 1]) (use n in blast)
  let ?A = "abs_fs f" and ?A1 = "abs_fs f1"
  note t = touched_same [OF 1(9)] touched_dir [OF 1(9)]
  have fi1: "free_inodes ?A1 = free_inodes ?A"
    using touched_mounted(3) [OF sd(4) 1(9)] mountedD(3) [OF 1(3)] 1(4) by simp
  have v1: "vacant_from ?A1 (root ?A1) 0 = vacant_from ?A (root ?A) 0"
    unfolding vacant_from_def t(14) t(6) ..
  have "fptr ?A1 (root ?A1) = fptr ?A (root ?A)" using t(4,8) by (intro fptr_cong)
  then have w1: "writable ?A1 (root ?A1) (vacant_from ?A1 (root ?A1) 0)"
    using w t(4,16) index_ready_cong [of ?A1 ?A] t(8) 1(4) unfolding writable_def v1 by simp
  have "\<exists>n f'. new_file env cmode f1 (root ?A1) nm = Some (Inr n, f') \<and> mounted f' \<and> n \<in> free_inodes ?A1 \<and>
      names (abs_fs f') = (names ?A1)(nm \<mapsto> n) \<and> others_same ?A1 (abs_fs f') n \<and>
      (\<forall>m. used (abs_fs f') m \<longleftrightarrow> used ?A1 m \<or> m = n) \<and> new_inode env cmode ?A1 n (a_inode (abs_fs f') n)"
    using fi' fi1 n 1(6) by (intro new_file_ok [OF 1(3) refl _ nm _ w1]) simp_all
  then obtain n f2 where 2: "new_file env cmode f1 (root ?A1) nm = Some (Inr n, f2)" "mounted f2" "n \<in> free_inodes ?A1"
    "names (abs_fs f2) = (names ?A1)(nm \<mapsto> n)" "others_same ?A1 (abs_fs f2) n" "\<And>m. used (abs_fs f2) m \<longleftrightarrow> used ?A1 m \<or> m = n"
    "new_inode env cmode ?A1 n (a_inode (abs_fs f2) n)"
    by blast
  obtain k p' where 3:
    "\<And>s1. st_pool s1 = Some p \<Longrightarrow> open_fd env n fi s1 = Some ((0, handle fi k), s1\<lparr>st_pool := Some p'\<rparr>)"
    "pool_ok p'" "\<not> in_use p k" "\<And>j. in_use p' j \<longleftrightarrow> in_use p j \<or> j = k" "\<And>j. in_use p j \<Longrightarrow> get_slot p' j = get_slot p j"
    "slot_cell (get_slot p' k) = Inumber n"
    using open_fd_ok [OF sd(6) p e(2), of n fi] by metis
  have nf: "n \<in> free_inodes ?A" "\<not> used ?A n" "n \<noteq> 1" using 2(3) fi1 mountedD(7) [OF sd(4)] by (auto simp: used_def)
  have f0: "fds_on p n = {}" using sd(7) nf(2) by (auto simp: fds_on_def links_ok_def)
  have nn: "names (abs_fs f2) = (names ?A)(nm \<mapsto> n)" using 2(4) 1(6) by simp
  then have rn: "ran (names (abs_fs f2)) = insert n (ran (names ?A))" using n by simp
  have ot: "others_same ?A (abs_fs f2) n" by (rule others_same_trans [OF others_same_any [OF 1(10)] 2(5)])
  have ni: "new_inode env cmode ?A n (a_inode (abs_fs f2) n)"
    using 2(7) unfolding new_inode_def t(2) 1(8) [OF nf(3)] .
  then have "links (a_inode (abs_fs f2) n) = 2" by (auto simp: new_inode_def)
  then have "unat (links (a_inode (abs_fs f2) n)) = link_count (abs_fs f2) p n + 1"
    using rn f0 by (simp add: link_count_def)
  then have "links_ok (abs_fs f2) p'"
    using 2(6) 1(7) mountedD(7) [OF 2(2)] rn by (intro opened_links [OF sd(7) ot _ _ _ _ _ 3(3-6)]) simp_all
  then have "sys_ok (s\<lparr>st_locked := False, st_fs := Some f2, st_pool := Some p'\<rparr>) f2 p'"
    using 2(2) 3(2) by (simp add: sys_ok_def ready_def)
  moreover have "sfs_create env (SLASH # nm) cmode fi s =
      Some ((0, handle fi k), s\<lparr>st_locked := False, st_fs := Some f2, st_pool := Some p'\<rparr>)"
    using 1(1,2,5,11) 2(1) 3(1) sd(2,5) by (simp add: sfs_create_def critical_def)
  moreover have "only_changes ?A (abs_fs f2) n" by (rule only_changesI [OF ot]) (use 2(6) 1(7) in auto)
  moreover have "fd_added p p' k n" using 3(3-6) by (simp add: fd_added_def)
  ultimately show ?thesis using nf(1) nn ni by blast
qed

subsection \<open>Removal\<close>

lemma sfs_unlink_present:
  assumes so: "sys_ok s f p" and env: "env_ok env" and nm: "proper_name nm" and n: "names (abs_fs f) nm = Some n"
  shows "\<exists>s' f'. sfs_unlink env (SLASH # nm) s = Some (0, s') \<and> sys_ok s' f' p \<and>
    names (abs_fs f') = (names (abs_fs f))(nm := None) \<and> only_changes (abs_fs f) (abs_fs f') n \<and>
    (if fds_on p n = {} then n \<in> free_inodes (abs_fs f')
     else used (abs_fs f') n \<and> fblock (abs_fs f') (a_inode (abs_fs f') n) = fblock (abs_fs f) (a_inode (abs_fs f) n) \<and>
       isize (a_inode (abs_fs f') n) = isize (a_inode (abs_fs f) n))"
proof -
  note sd = sys_okD [OF so]
  let ?A = "abs_fs f"
  obtain s' f' where 1: "sfs_unlink env (SLASH # nm) s = Some (0, s')" "ready s' f'" "st_pool s' = st_pool s"
    "names (abs_fs f') = (names ?A)(nm := None)" "others_same ?A (abs_fs f') n" "link_dropped ?A (abs_fs f') n"
    "\<And>m. used (abs_fs f') m \<Longrightarrow> used ?A m"
    using unlink_present [OF sd(1) env nm n] by blast
  note nu = names_used [OF sd(8) n]
  have "n \<in> ran (names ?A)" using n by (rule ranI)
  then have lc: "unat (links (a_inode ?A n)) = 1 + card (fds_on p n)" using sd(7) nu by (simp add: links_ok_def link_count_def)
  then have last: "links (a_inode ?A n) = 1 \<longleftrightarrow> fds_on p n = {}" by (simp add: word_unat_eq_iff)
  have rn: "ran (names (abs_fs f')) = ran (names ?A) - {n}" unfolding 1(4) by (rule ran_unlink [OF sd(8) n])
  have u1: "used (abs_fs f') 1" using 1(2) mountedD(7) by (simp add: ready_def)
  have keep: "fds_on p n \<noteq> {} \<Longrightarrow> used (abs_fs f') n \<and> unat (links (a_inode (abs_fs f') n)) = card (fds_on p n)"
  proof -
    assume ne: "fds_on p n \<noteq> {}"
    then have "links (a_inode ?A n) \<noteq> 0" using lc by auto
    then have "unat (links (a_inode ?A n) - 1) = card (fds_on p n)" using lc by (simp add: unat_minus_one)
    then show ?thesis using 1(6) last ne by (auto simp: link_dropped_def)
  qed
  have "links_ok (abs_fs f') p"
  proof (rule links_ok_frame [OF sd(7) 1(5)])
    show "unat (links (a_inode (abs_fs f') n)) = link_count (abs_fs f') p n \<and> 0 < link_count (abs_fs f') p n" if "used (abs_fs f') n"
    proof -
      have "fds_on p n \<noteq> {}" using 1(6) last that by (auto simp: link_dropped_def used_def)
      then show ?thesis using keep rn by (simp add: link_count_def card_gt_0_iff)
    qed
    show "\<exists>m. slot_cell (get_slot p k) = Inumber m \<and> used (abs_fs f') m" if "in_use p k" for k
    proof -
      from that sd(7) obtain m where m: "slot_cell (get_slot p k) = Inumber m" "used ?A m" by (auto simp: links_ok_def)
      then have "m = n \<Longrightarrow> fds_on p n \<noteq> {}" using that by (auto simp: fds_on_def)
      then have "used (abs_fs f') m"
        using m(2) u1 keep 1(5) by (cases "m = n \<or> m = 1") (auto simp: others_same_def same_file_def)
      with m show ?thesis by blast
    qed
  qed (use 1(7) rn in auto)
  then have "sys_ok s' f' p" using 1(2,3) sd(5,6) by (simp add: sys_ok_def)
  moreover have "isize (a_inode (abs_fs f') n) = isize (a_inode ?A n)" if "fds_on p n \<noteq> {}"
    using 1(6) last that by (auto simp: link_dropped_def)
  moreover have "only_changes ?A (abs_fs f') n" by (rule only_changesI [OF 1(5)]) (use 1(7) in auto)
  ultimately show ?thesis
    using 1(1,4-6) last keep by (intro exI [of _ s'] exI [of _ f']) (simp add: link_dropped_def)
qed

lemma sfs_unlink_absent:
  assumes so: "sys_ok s f p" and env: "env_ok env" and nm: "proper_name nm" and n: "names (abs_fs f) nm = None"
  shows "\<exists>s' f'. sfs_unlink env (SLASH # nm) s = Some (- ENOENT, s') \<and> sys_ok s' f' p \<and>
    names (abs_fs f') = names (abs_fs f) \<and> only_changes (abs_fs f) (abs_fs f') 1"
proof -
  note sd = sys_okD [OF so]
  obtain r it f1 where 1: "open_root env (SLASH # nm) (s\<lparr>st_locked := True\<rparr>) =
       Some (Inr (nm, root (abs_fs f)), s\<lparr>st_locked := True, st_fs := Some (after_read f 1)\<rparr>)"
    "scan_dir env (after_read f 1) (root (abs_fs f)) nm = Some (Some (r, it), f1)"
    "mounted f1" "names (abs_fs f1) = names (abs_fs f)" "used (abs_fs f1) = used (abs_fs f)"
    "others_same (abs_fs f) (abs_fs f1) 1" "r = None"
    by (rule lookup_names [OF sd(1) env nm, where n = 1]) (use n in blast)
  have "SLASH # nm \<noteq> [SLASH]" using nm by (simp add: proper_name_def)
  then have "sfs_unlink env (SLASH # nm) s = Some (- ENOENT, s\<lparr>st_locked := False, st_fs := Some f1\<rparr>)"
    using 1(1,2,7) sd(2) by (simp add: sfs_unlink_def critical_def)
  then show ?thesis using absent_sys_ok [OF so 1(3-6)] 1(4) only_changes_used [OF 1(6,5)] by blast
qed

subsection \<open>Release\<close>

lemma sfs_release_open:
  assumes so: "sys_ok s f p" and k: "in_use p k" "slot_cell (get_slot p k) = Inumber n" "n \<noteq> 1"
  shows "\<exists>s' f'. sfs_release (handle fi k) s = Some (0, s') \<and> sys_ok s' f' (sfs_filedescriptor_free p k) \<and>
    names (abs_fs f') = names (abs_fs f) \<and> only_changes (abs_fs f) (abs_fs f') n \<and>
    \<not> in_use (sfs_filedescriptor_free p k) k \<and>
    (if n \<notin> ran (names (abs_fs f)) \<and> fds_on p n = {k} then n \<in> free_inodes (abs_fs f')
     else used (abs_fs f') n \<and> fblock (abs_fs f') (a_inode (abs_fs f') n) = fblock (abs_fs f) (a_inode (abs_fs f) n) \<and>
       isize (a_inode (abs_fs f') n) = isize (a_inode (abs_fs f) n))"
proof -
  note sd = sys_okD [OF so]
  let ?A = "abs_fs f" and ?p' = "sfs_filedescriptor_free p k" and ?i = "a_inode (abs_fs f) n"
  have nu: "used ?A n" using sd(7) k by (auto simp: links_ok_def)
  then have v: "valid_ino (superblock f) n" and nf: "n \<notin> free_inodes ?A" by (simp_all add: used_def)
  have ni: "inumber ?i = n" "inode_ok ?A ?i" using sd(9) nu by (auto simp: files_ok_def)
  note md = mountedD [OF sd(4)]
  have hs: "handle_slot (handle fi k) (s\<lparr>st_locked := True\<rparr>) = Some (Some k, p)"
    by (rule handle_slot_ok [OF _ sd(6) k(1)]) (use sd(5) in simp)
  have fi: "sfs_fd_inumber p k = n" using k(2) by (simp add: sfs_fd_inumber_def)
  have lc: "unat (links ?i) = link_count ?A p n" "0 < link_count ?A p n" using sd(7) nu k(3) by (simp_all add: links_ok_def)
  have l0: "links ?i \<noteq> 0" using lc by auto
  let ?f1 = "tick (after_read f n)" and ?t = "fs_now (after_read f n)"
  let ?i' = "?i\<lparr>links := links ?i - 1, change_time := ?t\<rparr>"
  have m1: "mounted ?f1" "abs_fs ?f1 = ?A" "superblock ?f1 = superblock f"
    using after_read_mounted [OF sd(4) v] md(3) v by simp_all
  have io: "inode_ok (abs_fs ?f1) ?i'" using ni(2) m1(2) inode_ok_cong [of ?A ?A ?i' ?i] by simp
  have "\<exists>fs'. drop_link ?f1 ?i' = Some (0, fs') \<and> inode_alloc_ok fs' \<and> dropped (abs_fs ?f1) ?i' (abs_fs fs')"
    using v nf ni m1 by (intro drop_link_ok [OF mountedD(1) [OF m1(1)] io]) simp_all
  then obtain f' where 2: "drop_link ?f1 ?i' = Some (0, f')" "inode_alloc_ok f'" "dropped ?A ?i' (abs_fs f')"
    using m1(2) by auto
  note c = fd_close_ok [OF sd(6) k(1)]
  note cl = fds_on_close [OF k(1) c(2,3) k(2)]
  have lc': "unat (links ?i - 1) = link_count ?A ?p' n"
    using l0 lc cl(2) by (simp add: unat_minus_one link_count_def)
  have last: "links ?i - 1 = 0 \<longleftrightarrow> n \<notin> ran (names ?A) \<and> fds_on p n = {k}"
  proof -
    have "links ?i - 1 = 0 \<longleftrightarrow> link_count ?A ?p' n = 0" using lc' by (metis unat_eq_zero)
    also have "\<dots> \<longleftrightarrow> n \<notin> ran (names ?A) \<and> fds_on ?p' n = {}" by (auto simp: link_count_def)
    also have "fds_on ?p' n = {} \<longleftrightarrow> fds_on p n = {k}" using cl(1) [of n] k by (auto simp: fds_on_def)
    finally show ?thesis .
  qed
  have dm: "mounted f'" "names (abs_fs f') = names ?A" "others_same ?A (abs_fs f') n"
    "\<And>j. used (abs_fs f') j \<longleftrightarrow> used ?A j \<and> (links ?i - 1 = 0 \<longrightarrow> j \<noteq> n)"
    "links ?i - 1 \<noteq> 0 \<Longrightarrow> a_inode (abs_fs f') n = ?i' \<and> fblock (abs_fs f') ?i' = fblock ?A ?i"
    by (rule dropped_mounted [OF sd(4) refl refl 2(2) nu k(3) refl 2(3)]; use last in simp)+
  have "links_ok (abs_fs f') ?p'"
  proof (rule links_ok_frame [OF sd(7) dm(3)])
    show "unat (links (a_inode (abs_fs f') n)) = link_count (abs_fs f') ?p' n \<and> 0 < link_count (abs_fs f') ?p' n"
      if "used (abs_fs f') n"
    proof -
      have l1: "links ?i - 1 \<noteq> 0" using that dm(4) by simp
      then have "0 < link_count ?A ?p' n" using lc' by (metis gr0I unat_eq_zero)
      then show ?thesis using dm(2) dm(5) [OF l1] lc' by (simp add: link_count_def)
    qed
    show "\<exists>m. slot_cell (get_slot ?p' j) = Inumber m \<and> used (abs_fs f') m" if "in_use ?p' j" for j
    proof -
      have j: "in_use p j" "j \<noteq> k" using that c(2) by simp_all
      then obtain m where m: "slot_cell (get_slot ?p' j) = Inumber m" "used ?A m" using sd(7) c(3) by (auto simp: links_ok_def)
      have "m = n \<Longrightarrow> fds_on p n \<noteq> {k}" using j m c(3) by (auto simp: fds_on_def)
      then have "used (abs_fs f') m" using m(2) dm(4) last by auto
      with m show ?thesis by blast
    qed
  qed (use dm(2,4) cl(1) in auto)
  moreover have "sfs_release (handle fi k) s = Some (0, s\<lparr>st_locked := False, st_fs := Some f', st_pool := Some ?p'\<rparr>)"
    using hs fi l0 2(1) sd(2,3) sfs_fs_read_inode_ok [OF md(3) v]
    by (simp add: sfs_release_def critical_def Let_def disk_access)
  moreover have "\<not> in_use ?p' k" using c(2) by simp
  moreover have "n \<in> free_inodes (abs_fs f')" if "links ?i - 1 = 0" using 2(3) that ni(1) by (simp add: dropped_def)
  moreover have "isize (a_inode (abs_fs f') n) = isize ?i \<and> used (abs_fs f') n \<and>
      fblock (abs_fs f') (a_inode (abs_fs f') n) = fblock ?A ?i" if "links ?i - 1 \<noteq> 0"
    using dm(4,5) that nu by simp
  moreover have "only_changes ?A (abs_fs f') n" by (rule only_changesI [OF dm(3)]) (use dm(4) in auto)
  ultimately show ?thesis
    using dm(1-2) c(1) sd(2) last
    by (intro exI [of _ "s\<lparr>st_locked := False, st_fs := Some f', st_pool := Some ?p'\<rparr>"] exI [of _ f'])
      (auto simp: sys_ok_def ready_def)
qed

text \<open>Opening or removing a name that does not exist fails with \<^verbatim>\<open>ENOENT\<close>; names and files are as before.\<close>

lemma absent_name:
  assumes "sys_ok s f p" and "env_ok env" and "proper_name nm" and "names (abs_fs f) nm = None"
  shows "\<exists>s1 f1 s2 f2. sfs_open env (SLASH # nm) fi s = Some ((- ENOENT, fi), s1) \<and> sys_ok s1 f1 p \<and>
    sfs_unlink env (SLASH # nm) s = Some (- ENOENT, s2) \<and> sys_ok s2 f2 p \<and>
    names (abs_fs f1) = names (abs_fs f) \<and> only_changes (abs_fs f) (abs_fs f1) 1 \<and>
    names (abs_fs f2) = names (abs_fs f) \<and> only_changes (abs_fs f) (abs_fs f2) 1"
  using sfs_open_absent [OF assms, of fi] sfs_unlink_absent [OF assms] by blast

end
