(* ===== verification/File_Io.thy ===== *)
theory File_Io
  imports Sfs_Files Sfs_Io
begin

text \<open>
  What \<^verbatim>\<open>sfs_read\<close> and \<^verbatim>\<open>sfs_write\<close> do to a volume and to the buffer of the caller: requests at the
  start of a file, where the buffer arithmetic is right for whole blocks and for a request inside
  the first block, and the requests for which it is not.
\<close>

unbundle bit_operations_syntax

subsection \<open>Writing a block of a file of the volume\<close>

lemma block_written_mounted:
  assumes m: "mounted f" and n: "used (abs_fs f) n" "n \<noteq> 1" and i: "a_inode (abs_fs f) n = i"
    and w: "writable (abs_fs f) i (unat iblock)" and v: "length v = BLOCK_SIZE"
  obtains i' f' where "sfs_fs_inode_block_write f i iblock v = Some (0, i', f')" "mounted f'"
    "names (abs_fs f') = names (abs_fs f)" "used (abs_fs f') = used (abs_fs f)" "others_same (abs_fs f) (abs_fs f') n"
    "a_inode (abs_fs f') n = i'" "file_written (abs_fs f) i (unat iblock) v (abs_fs f') i'"
proof -
  let ?A = "abs_fs f"
  note md = mountedD [OF m]
  have ni: "inumber i = n" "inode_ok ?A i" using n(1) md(4) i by (auto simp: files_ok_def)
  have v': "valid_ino (superblock f) (inumber i)" and nf: "n \<notin> free_inodes ?A" using n(1) ni(1) by (simp_all add: used_def)
  obtain i' f' where 1: "sfs_fs_inode_block_write f i iblock v = Some (0, i', f')" "alloc_ok f'" "head_moved f f'"
    "file_written ?A i (unat iblock) v (abs_fs f') i'"
    by (rule write_block_ok [OF md(2) ni(2) v' w v])
  let ?A' = "abs_fs f'"
  note w0 = 1(4) [unfolded file_written_def]
  have fw: "\<And>m. m \<noteq> n \<Longrightarrow> a_inode ?A' m = a_inode ?A m" "a_inode ?A' n = i'" "inode_ok ?A' i'"
    using w0 [THEN conjunct2, THEN conjunct2] i ni(1) by simp_all
  have fb: "b \<notin> free_blocks ?A \<Longrightarrow> b \<notin> set (iptrs ?A i) \<Longrightarrow> a_block ?A' b = a_block ?A b" for b
    using w0 by blast
  have fr: "free_blocks ?A' \<subseteq> free_blocks ?A" "set (iptrs ?A' i') \<subseteq> set (iptrs ?A i) \<union> free_blocks ?A"
    using w0 by blast+
  have i'n: "inumber i' = n" using file_written_same(1) [OF 1(4)] ni(1) by simp
  have same: "\<And>m. m \<in> free_inodes ?A \<Longrightarrow> a_inode ?A' m = a_inode ?A m" using fw(1) nf by metis
  note ik = inode_alloc_keep [OF md(1) 1(2,3) same]
  have sup: "valid_ino (superblock f') = valid_ino (superblock f)" "valid_block (superblock f') = valid_block (superblock f)"
    using 1(3) by (auto simp: head_moved_def)
  have us: "used ?A' = used ?A" using ik(2) sup by (simp add: used_def fun_eq_iff)
  have keep: "a_block ?A' b = a_block ?A b \<and> b \<notin> free_blocks ?A'" if "used ?A j" "j \<noteq> n" "b \<in> owns ?A j" for j b
  proof -
    have "b \<notin> free_blocks ?A" using that md(4) by (auto simp: files_ok_def inode_ok_def owns_def)
    moreover have "b \<notin> set (iptrs ?A i)"
      using that n(1) md(4) i unfolding files_ok_def owns_def by blast
    ultimately show ?thesis using fb fr(1) by blast
  qed
  have ff: "fblock ?A' (a_inode ?A j) = fblock ?A (a_inode ?A j)" "inode_ok ?A' (a_inode ?A j)" if "used ?A j" "j \<noteq> n" for j
  proof -
    have j: "inode_ok ?A (a_inode ?A j)" using that(1) md(4) by (simp add: files_ok_def)
    have k: "\<And>b. b \<in> set (iptrs ?A (a_inode ?A j)) \<Longrightarrow> a_block ?A' b = a_block ?A b \<and> b \<notin> free_blocks ?A'"
      using keep [OF that] by (simp add: owns_def)
    have g: "valid_block (a_super ?A') = valid_block (a_super ?A)" using sup by simp
    show "fblock ?A' (a_inode ?A j) = fblock ?A (a_inode ?A j)" "inode_ok ?A' (a_inode ?A j)"
      using file_frame(3,4) [OF j k g] by simp_all
  qed
  have files: "files_ok ?A'"
  proof (rule files_ok_step [OF md(4), where x = n])
    show "valid_block (a_super ?A') = valid_block (a_super ?A)" using sup by simp
  next
    fix j assume "used ?A' j" "j \<noteq> n"
    then show "used ?A j \<and> inumber (a_inode ?A' j) = j \<and> block_pointers (a_inode ?A' j) = block_pointers (a_inode ?A j) \<and>
        (\<forall>b\<in>owns ?A j. a_block ?A' b = a_block ?A b \<and> b \<notin> free_blocks ?A')"
      using us fw(1) md(4) keep by (simp add: files_ok_def)
  next
    show "inumber (a_inode ?A' n) = n \<and> inode_ok ?A' (a_inode ?A' n) \<and>
        owns ?A' n \<subseteq> (if used ?A n then owns ?A n else {}) \<union> free_blocks ?A"
      using fw(2,3) fr(2) i'n n(1) i by (simp add: owns_def)
  qed
  have n1: "(1 :: u64) \<noteq> n" using n(2) by simp
  have r: "root ?A' = root ?A" using fw(1) n1 by simp
  have d: "dir_ok ?A' (root ?A')" using md(6,7,9) ff(2) [OF md(7) n1] r sup by (simp add: dir_ok_def)
  have rs: "\<And>k. dslot ?A' (root ?A') k = dslot ?A (root ?A) k" "dsize (root ?A') = dsize (root ?A)"
    using ff(1) [OF md(7) n1] r by (simp_all add: dslot_def)
  have ro: "root_ok ?A'" by (rule root_ok_same [OF md(5) d rs]) (use us md(5) in \<open>auto simp: root_ok_def\<close>)
  have "mounted f'" using ik(1) files ro by (simp add: mounted_def)
  moreover have "names ?A' = names ?A" by (rule root_same [OF rs])
  moreover have "others_same ?A ?A' n" using us fw(1) ff(1) by (simp add: others_same_def same_file_def)
  ultimately show ?thesis using that [OF 1(1) _ _ us _ fw(2) 1(4)] by simp
qed

subsection \<open>The blocks of a request\<close>

text \<open>The most a file can hold: 76 blocks.\<close>

abbreviation MAX_FILE :: nat where "MAX_FILE \<equiv> 38912"

lemma u64_div_mod:
  assumes "k < 2 ^ 64"
  shows "(of_nat k :: u64) div 512 = of_nat (k div 512)" "(of_nat k :: u64) mod 512 = of_nat (k mod 512)"
proof -
  have "unat ((of_nat k :: u64) div 512) = k div 512" using assms by (simp add: unat_div unat_of_nat_u64)
  then show "(of_nat k :: u64) div 512 = of_nat (k div 512)" by (metis of_nat_unat ucast_id)
  have "unat ((of_nat k :: u64) mod 512) = k mod 512" using assms by (simp add: unat_mod unat_of_nat_u64)
  then show "(of_nat k :: u64) mod 512 = of_nat (k mod 512)" by (metis of_nat_unat ucast_id)
qed

lemma last_block_whole:
  fixes e :: nat
  assumes "e mod 512 = 0"
  shows "0 < e \<Longrightarrow> (e - 1) mod 512 + 1 = 512" "0 < e \<Longrightarrow> (e - 1) div 512 = e div 512 - 1" "0 < e \<Longrightarrow> 1 \<le> e div 512"
proof -
  obtain k where k: "e = 512 * k" using assms by blast
  show "(e - 1) mod 512 + 1 = 512" "(e - 1) div 512 = e div 512 - 1" "1 \<le> e div 512" if "0 < e"
  proof -
    from that k obtain j where "k = Suc j" by (cases k) simp_all
    then have j: "e = 512 * Suc j" "e - 1 = 511 + j * 512" using k by simp_all
    show "(e - 1) mod 512 + 1 = 512" unfolding j(2) mod_mult_self1 by simp
    show "(e - 1) div 512 = e div 512 - 1" "1 \<le> e div 512" unfolding j(2) unfolding j(1) by simp_all
  qed
qed

lemma last_block_part:
  fixes e :: nat
  assumes "e mod 512 \<noteq> 0"
  shows "(e - 1) mod 512 + 1 = e mod 512" "(e - 1) div 512 = e div 512"
proof -
  obtain q r where qr: "e = q * 512 + r" "e div 512 = q" "e mod 512 = r" "r < 512" "0 < r"
    using assms div_mult_mod_eq [of e 512] by (metis gr0I mod_less_divisor zero_less_numeral)
  then have j: "e - 1 = (r - 1) + q * 512" by linarith
  show "(e - 1) mod 512 + 1 = e mod 512" unfolding j mod_mult_self1 qr(3) using qr(4,5) by simp
  show "(e - 1) div 512 = e div 512" unfolding j qr(2) using qr(4) by (subst div_mult_self1) simp_all
qed

text \<open>The variables of a request of \<open>sz\<close> bytes at offset \<open>off\<close>.\<close>

lemma request_span_eq:
  assumes "1 \<le> sz" "off + sz \<le> MAX_FILE"
  shows "request_span (of_nat sz) (int off) =
    \<lparr>first_block = of_nat (off div 512), first_block_offset = of_nat (off mod 512),
     last_block = of_nat ((off + sz - 1) div 512),
     last_block_len = of_nat ((off + sz - 1) mod 512 + 1)\<rparr>"
proof -
  let ?e = "off + sz"
  have s: "(of_int (int off) + of_nat sz :: u64) = of_nat ?e" by simp
  have d: "(of_nat ?e :: u64) div 512 = of_nat (?e div 512)" "(of_nat ?e :: u64) mod 512 = of_nat (?e mod 512)"
    using assms by (intro u64_div_mod; simp)+
  have q: "int off sdiv 512 = int (off div 512)" "int off smod 512 = int (off mod 512)"
    by (simp_all add: signed_divide_int_def signed_modulo_int_def zdiv_int zmod_int sgn_if)
  have m0: "(of_nat (?e mod 512) :: u64) = 0 \<longleftrightarrow> ?e mod 512 = 0"
    using of_nat_u64_eq [of "?e mod 512" 0] by simp
  have m1: "(of_nat (?e mod 512) :: u64) \<noteq> 512" using of_nat_u64_eq [of "?e mod 512" 512] by simp
  show ?thesis
  proof (cases "?e mod 512 = 0")
    case True
    note last = last_block_whole [OF True]
    show ?thesis
      unfolding request_span_def s d q using True last assms(1) by (simp add: Let_def of_nat_diff)
  next
    case False
    note last = last_block_part [OF False]
    show ?thesis
      unfolding request_span_def s d q using last False m0 m1 by (simp add: Let_def)
  qed
qed

text \<open>The blocks of the loop, as numbers.\<close>

lemma span_blocks_eq:
  assumes "1 \<le> sz" "off + sz \<le> MAX_FILE"
  shows "span_blocks (request_span (of_nat sz) (int off)) = map of_nat [off div 512..<(off + sz - 1) div 512 + 1]"
proof -
  have "off div 512 < 2 ^ 64" "(off + sz - 1) div 512 < 2 ^ 64" using assms by simp_all
  then show ?thesis unfolding request_span_eq [OF assms] span_blocks_def by (simp add: unat_of_nat_u64)
qed

lemma slice_eq:
  assumes "1 \<le> sz" "off + sz \<le> MAX_FILE" "k \<le> (off + sz - 1) div 512"
  shows "slice (request_span (of_nat sz) (int off)) (of_nat k) =
    (if k = off div 512 then of_nat (off mod 512) else 0,
     if k = (off + sz - 1) div 512 then of_nat ((off + sz - 1) mod 512 + 1) else 512)"
proof -
  define X where "X = (off + sz - 1) div 512"
  define r where "r = (off + sz - 1) mod 512 + 1"
  have b: "X < 2 ^ 64" "off div 512 < 2 ^ 64" using assms(1,2) by (simp_all add: X_def)
  then have k: "k < 2 ^ 64" using assms(3) by (simp add: X_def)
  note e = of_nat_u64_eq [OF k b(1)] of_nat_u64_eq [OF k b(2)]
  show ?thesis
    unfolding request_span_eq [OF assms(1,2), folded X_def r_def] slice_def span.simps e X_def [symmetric] r_def [symmetric]
    by simp
qed

lemma uint_of_nat_u64: "k < 2 ^ 64 \<Longrightarrow> uint (of_nat k :: u64) = int k"
  using unat_of_nat_u64 [of k] by (metis uint_nat)

lemma buf_base_eq:
  assumes "1 \<le> sz" "off + sz \<le> MAX_FILE"
  shows "buf_base (request_span (of_nat sz) (int off)) = - int (off mod 512)"
proof -
  have "uint (of_nat (off mod 512) :: u64) = int (off mod 512)" by (rule uint_of_nat_u64) simp
  then show ?thesis unfolding request_span_eq [OF assms] buf_base_def by simp
qed

subsection \<open>Reading\<close>

lemma mounted_abs: "mounted f \<Longrightarrow> fs_ok f' \<Longrightarrow> abs_fs f' = abs_fs f \<Longrightarrow> mounted f'"
  by (auto simp: mounted_def inode_alloc_ok_def alloc_ok_def)

lemma poke_Some: "poke buf (int k) v = Some buf' \<longleftrightarrow> k + length v \<le> length buf \<and> buf' = put_bytes k v buf"
  by (auto simp: poke_def)

text \<open>Whole blocks are put where they belong.\<close>

lemma put_bytes_step:
  assumes "length block = 512" "512 * b \<le> length buf" "a < b"
  shows "take (512 * Suc a) (put_bytes (512 * a) block buf) = take (512 * a) buf @ block"
    "drop (512 * b) (put_bytes (512 * a) block buf) = drop (512 * b) buf"
    "length (put_bytes (512 * a) block buf) = length buf"
proof -
  have "512 * a + 512 \<le> length buf" using assms by simp
  then show "take (512 * Suc a) (put_bytes (512 * a) block buf) = take (512 * a) buf @ block"
    "drop (512 * b) (put_bytes (512 * a) block buf) = drop (512 * b) buf"
    "length (put_bytes (512 * a) block buf) = length buf"
    using assms by (simp_all add: put_bytes_def min_def)
qed

lemma read_loop_whole:
  assumes "fs_ok f" "inode_ok (abs_fs f) i" "b \<le> 76" "512 * b \<le> length buf" "a \<le> b" "buf_base sp = 0"
    and "\<And>k. a \<le> k \<Longrightarrow> k < b \<Longrightarrow> slice sp (of_nat k) = (0, 512)"
  shows "\<exists>f'. read_loop f i sp buf (map of_nat [a..<b] @ rest) =
      read_loop f' i sp (take (512 * a) buf @ concat (map (fblock (abs_fs f) i) [a..<b]) @ drop (512 * b) buf) rest \<and>
    fs_ok f' \<and> abs_fs f' = abs_fs f"
  using assms
proof (induction "b - a" arbitrary: a f buf)
  case 0
  then have "a = b" by simp
  with 0 show ?case by (intro exI [of _ f]) simp
next
  case (Suc n)
  then have ab: "a < b" by simp
  then have l: "[a..<b] = a # [Suc a..<b]" by (simp add: upt_conv_Cons)
  let ?blk = "fblock (abs_fs f) i a"
  have a: "unat (of_nat a :: u64) = a" "uint (of_nat a :: u64) = int a" "a < 76"
    using ab Suc.prems(3) by (simp_all add: unat_of_nat_u64 uint_of_nat_u64)
  have lb: "length ?blk = 512" by (rule length_fblock [OF Suc.prems(1,2)])
  obtain f1 where 1: "sfs_fs_inode_block_read f i (of_nat a) = (Some ?blk, f1)" "fs_ok f1" "abs_fs f1 = abs_fs f"
    using inode_block_read_ok [OF Suc.prems(1,2), of "of_nat a"] a by auto
  let ?buf = "put_bytes (512 * a) ?blk buf"
  have pk: "poke buf (512 * int a) ?blk = Some ?buf" using ab Suc.prems(4) lb by (simp add: poke_def nat_mult_distrib)
  have step: "read_loop f i sp buf (map of_nat [a..<b] @ rest) = read_loop f1 i sp ?buf (map of_nat [Suc a..<b] @ rest)"
    using read_loop_Cons [OF 1(1) lb, of sp 0 512] Suc.prems(6) Suc.prems(7) [of a] ab a pk unfolding l by simp
  note pb = put_bytes_step [OF lb Suc.prems(4) ab]
  have "\<exists>f'. read_loop f1 i sp ?buf (map of_nat [Suc a..<b] @ rest) =
      read_loop f' i sp (take (512 * Suc a) ?buf @ concat (map (fblock (abs_fs f1) i) [Suc a..<b]) @ drop (512 * b) ?buf) rest \<and>
    fs_ok f' \<and> abs_fs f' = abs_fs f1"
    using Suc.hyps(2) Suc.prems 1 ab pb(3) by (intro Suc.hyps(1)) simp_all
  then show ?case unfolding step pb(1,2) 1(3) unfolding l by simp
qed

subsection \<open>The handler of reads\<close>

lemma io_sys_ok:
  assumes so: "sys_ok s f p" and m: "mounted f'" "names (abs_fs f') = names (abs_fs f)" "used (abs_fs f') = used (abs_fs f)"
    "others_same (abs_fs f) (abs_fs f') n" "links (a_inode (abs_fs f') n) = links (a_inode (abs_fs f) n)" and n: "used (abs_fs f) n"
  shows "sys_ok (s\<lparr>st_locked := False, st_fs := Some f'\<rparr>) f' p"
proof -
  note sd = sys_okD [OF so]
  have "links_ok (abs_fs f') p"
    by (rule links_ok_frame [OF sd(7) m(4)]) (use sd(7) m n in \<open>auto simp: links_ok_def link_count_def\<close>)
  then show ?thesis using m(1) sd by (simp add: sys_ok_def ready_def)
qed

lemma size_result:
  assumes "1 \<le> sz" "sz < 2 ^ 31"
  shows "sint (ucast (of_nat sz :: u64) :: u32) = int sz" "(of_nat sz :: u64) \<noteq> 0"
proof -
  have "(of_nat (unat (of_nat sz :: u64)) :: u32) = ucast (of_nat sz :: u64)" by (rule of_nat_unat)
  moreover have "unat (of_nat sz :: u64) = sz" using assms(2) by (intro unat_of_nat_u64) simp
  ultimately have "(ucast (of_nat sz :: u64) :: u32) = of_nat sz" by metis
  moreover have "sint (of_nat sz :: u32) = int sz"
    using assms by (simp add: signed_of_nat signed_take_bit_int_eq_self)
  ultimately show "sint (ucast (of_nat sz :: u64) :: u32) = int sz" by simp
  show "(of_nat sz :: u64) \<noteq> 0" using of_nat_u64_eq [of sz 0] assms by simp
qed

text \<open>The open descriptor of an I/O request, and the inode after its time stamps have been set.\<close>

lemma io_start:
  assumes so: "sys_ok s f p" and k: "in_use p k" "slot_cell (get_slot p k) = Inumber n" "n \<noteq> 1"
  shows "handle_slot (handle fi k) (s\<lparr>st_locked := True\<rparr>) = Some (Some k, p)" "sfs_fd_inumber p k = n"
    "used (abs_fs f) n" "sfs_fs_read_inode f n = Some (Some (a_inode (abs_fs f) n), after_read f n)"
    "mounted (after_read f n)" "abs_fs (after_read f n) = abs_fs f"
    "inumber (a_inode (abs_fs f) n) = n" "inode_ok (abs_fs f) (a_inode (abs_fs f) n)"
proof -
  note sd = sys_okD [OF so] and md = mountedD [OF sys_okD(4) [OF so]]
  show u: "used (abs_fs f) n" using sd(7) k by (auto simp: links_ok_def)
  then have v: "valid_ino (superblock f) n" by (simp add: used_def)
  show "handle_slot (handle fi k) (s\<lparr>st_locked := True\<rparr>) = Some (Some k, p)"
    by (rule handle_slot_ok [OF _ sd(6) k(1)]) (use sd(5) in simp)
  show "sfs_fd_inumber p k = n" using k(2) by (simp add: sfs_fd_inumber_def)
  show "sfs_fs_read_inode f n = Some (Some (a_inode (abs_fs f) n), after_read f n)" by (rule sfs_fs_read_inode_ok [OF md(3) v])
  show "mounted (after_read f n)" "abs_fs (after_read f n) = abs_fs f"
    using after_read_mounted [OF sd(4) v] md(3) v by simp_all
  show "inumber (a_inode (abs_fs f) n) = n" "inode_ok (abs_fs f) (a_inode (abs_fs f) n)"
    using u sd(9) by (simp_all add: files_ok_def)
qed

lemma sfs_read_start:
  assumes so: "sys_ok s f p" and k: "in_use p k" "slot_cell (get_slot p k) = Inumber n" "n \<noteq> 1" and sz: "1 \<le> sz" "sz < 2 ^ 31"
  obtains f1 i1 t where
    "sfs_read buf (of_nat sz) off (handle fi k) s = do {
       (r, f2) \<leftarrow> read_loop f1 i1 (request_span (of_nat sz) off) buf (span_blocks (request_span (of_nat sz) off));
       Some ((case r of None \<Rightarrow> -1 | Some buf \<Rightarrow> int sz, r), s\<lparr>st_locked := False, st_fs := Some f2\<rparr>) }"
    "mounted f1" "names (abs_fs f1) = names (abs_fs f)" "used (abs_fs f1) = used (abs_fs f)"
    "others_same (abs_fs f) (abs_fs f1) n" "a_inode (abs_fs f1) n = i1"
    "i1 = (a_inode (abs_fs f) n)\<lparr>access_time := t\<rparr>"
    "fblock (abs_fs f1) i1 = fblock (abs_fs f) (a_inode (abs_fs f) n)" "inode_ok (abs_fs f1) i1" "used (abs_fs f) n"
proof -
  note st = io_start [OF so k] and sd = sys_okD [OF so]
  let ?A = "abs_fs f" and ?i = "a_inode (abs_fs f) n" and ?f0 = "tick (after_read f n)"
  let ?t = "fs_now (after_read f n)"
  let ?i1 = "?i\<lparr>access_time := ?t\<rparr>"
  have 0: "mounted ?f0" "abs_fs ?f0 = ?A" using st(5,6) by simp_all
  have p: "used (abs_fs ?f0) n" "inumber ?i1 = n" "block_pointers ?i1 = block_pointers (a_inode (abs_fs ?f0) n)"
    using st(3,7) 0(2) by simp_all
  note mm = meta_mounted [OF 0(1) p(1) k(3) p(2,3)]
  let ?f1 = "after_write ?f0 ?i1"
  have fb: "fblock (abs_fs ?f1) ?i1 = fblock ?A ?i" using mm(7) 0(2) fblock_cong [of ?A ?A ?i1 ?i] by simp
  have "used (abs_fs ?f1) n" using mm(4) p(1) by simp
  then have io: "inode_ok (abs_fs ?f1) ?i1" using mountedD(4) [OF mm(2)] mm(6) by (auto simp: files_ok_def)
  have "sfs_read buf (of_nat sz) off (handle fi k) s = do {
      (r, f2) \<leftarrow> read_loop ?f1 ?i1 (request_span (of_nat sz) off) buf (span_blocks (request_span (of_nat sz) off));
      Some ((case r of None \<Rightarrow> -1 | Some buf \<Rightarrow> int sz, r), s\<lparr>st_locked := False, st_fs := Some f2\<rparr>) }"
    using st(1,2,4) mm(1) sd(2,3) size_result [OF sz]
    by (simp add: sfs_read_def critical_def Let_def disk_access split: option.split Option.bind_split)
  from that [OF this mm(2)] mm(3-6) 0(2) fb io st(3) show ?thesis by simp
qed

text \<open>The bytes of a file, holes and what lies past its size included.\<close>

definition file_bytes :: "fs_abs \<Rightarrow> u64 \<Rightarrow> bytes" where
  "file_bytes A n = concat (map (fblock A (a_inode A n)) [0..<76])"

lemma concat_blocks_split:
  fixes n :: nat
  assumes "\<And>k. length (C k) = 512" "q \<le> n"
  shows "length (concat (map C [0..<q])) = 512 * q" "take (512 * q) (concat (map C [0..<n])) = concat (map C [0..<q])"
    "drop (512 * q) (concat (map C [0..<n])) = concat (map C [q..<n])"
proof -
  show l: "length (concat (map C [0..<q])) = 512 * q" using assms(1) by (induction q) simp_all
  have "[0..<n] = [0..<q] @ [q..<n]" using assms(2) upt_add_eq_append [of 0 q "n - q"] by simp
  then have "concat (map C [0..<n]) = concat (map C [0..<q]) @ concat (map C [q..<n])" by simp
  then show "take (512 * q) (concat (map C [0..<n])) = concat (map C [0..<q])"
    "drop (512 * q) (concat (map C [0..<n])) = concat (map C [q..<n])" using l by simp_all
qed

lemma last_blocks:
  assumes "1 \<le> sz" "sz \<le> MAX_FILE"
  shows "sz mod 512 = 0 \<Longrightarrow> [0..<(sz - 1) div 512 + 1] = [0..<sz div 512]" "sz mod 512 = 0 \<Longrightarrow> 1 \<le> sz div 512"
    "sz mod 512 \<noteq> 0 \<Longrightarrow> [0..<(sz - 1) div 512 + 1] = [0..<sz div 512] @ [sz div 512]"
    "sz mod 512 \<noteq> 0 \<Longrightarrow> sz div 512 < 76" "sz div 512 \<le> 76" "512 * (sz div 512) \<le> sz"
proof -
  show w: "sz mod 512 = 0 \<Longrightarrow> 1 \<le> sz div 512" using last_block_whole(3) [of sz] assms(1) by simp
  show "sz mod 512 = 0 \<Longrightarrow> [0..<(sz - 1) div 512 + 1] = [0..<sz div 512]"
    using last_block_whole(2) [of sz] assms(1) w by simp
  show "sz mod 512 \<noteq> 0 \<Longrightarrow> [0..<(sz - 1) div 512 + 1] = [0..<sz div 512] @ [sz div 512]"
    using last_block_part(2) [of sz] by simp
  show "512 * (sz div 512) \<le> sz" "sz div 512 \<le> 76" using assms(2) by simp_all
  show "sz div 512 < 76" if "sz mod 512 \<noteq> 0"
  proof (rule ccontr)
    assume "\<not> sz div 512 < 76"
    then have "512 * 76 \<le> 512 * (sz div 512)" by simp
    then have "sz = MAX_FILE" using \<open>512 * (sz div 512) \<le> sz\<close> assms(2) by simp
    then show False using that by simp
  qed
qed

lemma slice_start:
  assumes "1 \<le> sz" "sz \<le> MAX_FILE"
  shows "k < sz div 512 \<Longrightarrow> slice (request_span (of_nat sz) 0) (of_nat k) = (0, 512)"
    "sz mod 512 \<noteq> 0 \<Longrightarrow> slice (request_span (of_nat sz) 0) (of_nat (sz div 512)) = (0, of_nat (sz mod 512))"
    "buf_base (request_span (of_nat sz) 0) = 0"
proof -
  have a: "0 + sz \<le> MAX_FILE" using assms(2) by simp
  show "buf_base (request_span (of_nat sz) 0) = 0" using buf_base_eq [OF assms(1) a] by simp
  define X where "X = (sz - 1) div 512"
  define R where "R = (sz - 1) mod 512 + 1"
  have sl: "slice (request_span (of_nat sz) 0) (of_nat k) = (0, if k = X then of_nat R else 512)" if "k \<le> X" for k
    using slice_eq [OF assms(1) a, of k] that by (simp add: X_def R_def)
  show "slice (request_span (of_nat sz) 0) (of_nat k) = (0, 512)" if k: "k < sz div 512"
  proof (cases "sz mod 512 = 0")
    case True
    then have "R = 512" "X = sz div 512 - 1" using last_block_whole(1,2) [OF True] assms(1) unfolding R_def X_def by simp_all
    then show ?thesis using sl [of k] k by simp
  next
    case False
    then have "X = sz div 512" using last_block_part(2) unfolding X_def by simp
    then show ?thesis using sl [of k] k by simp
  qed
  show "slice (request_span (of_nat sz) 0) (of_nat (sz div 512)) = (0, of_nat (sz mod 512))" if "sz mod 512 \<noteq> 0"
  proof -
    have "X = sz div 512" "R = sz mod 512" using last_block_part [OF that] unfolding X_def R_def by simp_all
    then show ?thesis using sl [of "sz div 512"] by simp
  qed
qed

text \<open>
  A request at the start of a file: the whole blocks are placed right, but the tail of the last
  block is put at the start of the buffer.
\<close>

lemma sfs_read_prefix:
  assumes so: "sys_ok s f p" and k: "in_use p k" "slot_cell (get_slot p k) = Inumber n" "n \<noteq> 1"
    and sz: "1 \<le> sz" "sz \<le> MAX_FILE" "sz \<le> length buf"
  defines "C \<equiv> fblock (abs_fs f) (a_inode (abs_fs f) n)" and "q \<equiv> sz div 512" and "r \<equiv> sz mod 512"
  shows "\<exists>s' f'. sfs_read buf (of_nat sz) 0 (handle fi k) s =
      Some ((int sz, Some (if r = 0 then concat (map C [0..<q]) @ drop (512 * q) buf
         else put_bytes 0 (take r (C q)) (concat (map C [0..<q]) @ drop (512 * q) buf))), s') \<and>
    sys_ok s' f' p \<and> names (abs_fs f') = names (abs_fs f) \<and> only_changes (abs_fs f) (abs_fs f') n \<and>
    isize (a_inode (abs_fs f') n) = isize (a_inode (abs_fs f) n) \<and> file_bytes (abs_fs f') n = file_bytes (abs_fs f) n"
proof -
  have s31: "sz < 2 ^ 31" using sz(2) by simp
  let ?sp = "request_span (of_nat sz) 0" and ?b = "concat (map C [0..<q]) @ drop (512 * q) buf"
  let ?out = "if r = 0 then ?b else put_bytes 0 (take r (C q)) ?b"
  obtain f1 i1 t where 1: "sfs_read buf (of_nat sz) 0 (handle fi k) s = do {
       (r, f2) \<leftarrow> read_loop f1 i1 ?sp buf (span_blocks ?sp);
       Some ((case r of None \<Rightarrow> -1 | Some buf \<Rightarrow> int sz, r), s\<lparr>st_locked := False, st_fs := Some f2\<rparr>) }"
    "mounted f1" "names (abs_fs f1) = names (abs_fs f)" "used (abs_fs f1) = used (abs_fs f)"
    "others_same (abs_fs f) (abs_fs f1) n" "a_inode (abs_fs f1) n = i1"
    "i1 = (a_inode (abs_fs f) n)\<lparr>access_time := t\<rparr>" "fblock (abs_fs f1) i1 = C" "inode_ok (abs_fs f1) i1" "used (abs_fs f) n"
    unfolding C_def by (rule sfs_read_start [OF so k sz(1) s31, of buf 0 fi])
  note fs1 = mountedD(3) [OF 1(2)]
  note lb = last_blocks [OF sz(1,2), folded q_def r_def] and sl = slice_start [OF sz(1,2), folded q_def r_def]
  have sb: "span_blocks ?sp = map of_nat [0..<(sz - 1) div 512 + 1]" using span_blocks_eq [of sz 0] sz(1,2) by simp
  have bq: "512 * q \<le> length buf" using lb(6) sz(3) by simp
  have bs: "buf_base ?sp = 0" by (rule sl(3))
  have whole: "\<exists>f'. read_loop f1 i1 ?sp buf (map of_nat [0..<q] @ rest) = read_loop f' i1 ?sp ?b rest \<and>
      fs_ok f' \<and> abs_fs f' = abs_fs f1" for rest
    using read_loop_whole [OF fs1 1(9) lb(5) bq _ bs, of 0 rest] sl(1) 1(8) by simp
  have "\<exists>f2. read_loop f1 i1 ?sp buf (span_blocks ?sp) = Some (Some ?out, f2) \<and> fs_ok f2 \<and> abs_fs f2 = abs_fs f1"
  proof (cases "r = 0")
    case True
    then show ?thesis using whole [of "[]"] unfolding sb lb(1) [OF True] by simp
  next
    case False
    obtain f2 where 2: "read_loop f1 i1 ?sp buf (map of_nat [0..<q] @ [of_nat q]) = read_loop f2 i1 ?sp ?b [of_nat q]"
      "fs_ok f2" "abs_fs f2 = abs_fs f1"
      using whole [of "[of_nat q]"] by blast
    have q: "unat (of_nat q :: u64) < 76" "unat (of_nat q :: u64) = q" using lb(4) [OF False] by (simp_all add: unat_of_nat_u64)
    have io: "inode_ok (abs_fs f2) i1" using 1(9) 2(3) by simp
    obtain f3 where 3: "sfs_fs_inode_block_read f2 i1 (of_nat q) = (Some (C q), f3)" "fs_ok f3" "abs_fs f3 = abs_fs f1"
      using inode_block_read_ok [OF 2(2) io q(1)] q(2) 2(3) 1(8) by auto
    have r: "unat (of_nat r :: u64) = r" "(of_nat r :: u64) \<noteq> 512" "r \<le> sz"
      using of_nat_u64_eq [of r 512] by (simp_all add: r_def unat_of_nat_u64)
    have lq: "length (C q) = 512" using length_fblock [OF fs1 1(9)] 1(8) by simp
    have lr: "length (take r (C q)) = r" using lq by (simp add: r_def)
    have lC: "length (concat (map C [0..<q])) = 512 * q"
      using concat_blocks_split(1) [of C q q] length_fblock [OF fs1 1(9)] 1(8) by simp
    have "r \<le> length ?b" using r(3) sz(3) bq lC by simp
    then have pk: "poke ?b 0 (take r (C q)) = Some (put_bytes 0 (take r (C q)) ?b)" using poke_Some [of ?b 0] lr by simp
    have "read_loop f2 i1 ?sp ?b [of_nat q] = Some (Some ?out, f3)"
      using read_loop_Cons [OF 3(1) lq sl(2) [OF False]] False bs r pk by (simp add: get_bytes_def)
    then show ?thesis unfolding sb lb(3) [OF False] using 2(1) 3(2,3) by (intro exI [of _ f3]) simp
  qed
  then obtain f2 where 2: "read_loop f1 i1 ?sp buf (span_blocks ?sp) = Some (Some ?out, f2)" "fs_ok f2" "abs_fs f2 = abs_fs f1"
    by blast
  have m2: "mounted f2" by (rule mounted_abs [OF 1(2) 2(2,3)])
  have "sys_ok (s\<lparr>st_locked := False, st_fs := Some f2\<rparr>) f2 p"
    using 1(3-7,10) 2(3) by (intro io_sys_ok [OF so m2, where n = n]) simp_all
  moreover have "only_changes (abs_fs f) (abs_fs f1) n" by (rule only_changes_used [OF 1(5,4)])
  ultimately show ?thesis
    using 1(1,3,6-8) 2(1,3)
    by (intro exI [of _ "s\<lparr>st_locked := False, st_fs := Some f2\<rparr>"] exI [of _ f2]) (simp add: file_bytes_def C_def)
qed

end
