(* ===== verification/File_Bytes.thy ===== *)
theory File_Bytes
  imports File_Io
begin

text \<open>
  A file as one string of bytes, and what a read from its start does to the buffer.
\<close>

unbundle bit_operations_syntax

subsection \<open>The byte string of a file\<close>

lemma length_concat_blocks: "(\<And>k. k < n \<Longrightarrow> length (C k) = 512) \<Longrightarrow> length (concat (map C [0..<n])) = 512 * n"
  by (induction n) simp_all

lemma fblock_lengths:
  assumes "mounted f" "used (abs_fs f) n"
  shows "length (fblock (abs_fs f) (a_inode (abs_fs f) n) k) = 512"
  using assms length_fblock [of f "a_inode (abs_fs f) n" k] mountedD(3,4) [OF assms(1)] by (auto simp: files_ok_def)

lemma length_file_bytes: "mounted f \<Longrightarrow> used (abs_fs f) n \<Longrightarrow> length (file_bytes (abs_fs f) n) = MAX_FILE"
  unfolding file_bytes_def using length_concat_blocks [of 76 "fblock (abs_fs f) (a_inode (abs_fs f) n)"] fblock_lengths by simp

lemma file_bytes_slices:
  assumes m: "mounted f" "used (abs_fs f) n" and k: "k \<le> 76"
  defines "C \<equiv> fblock (abs_fs f) (a_inode (abs_fs f) n)"
  shows "concat (map C [0..<k]) = take (512 * k) (file_bytes (abs_fs f) n)"
    "k < 76 \<Longrightarrow> r \<le> 512 \<Longrightarrow> take r (C k) = take r (drop (512 * k) (file_bytes (abs_fs f) n))"
proof -
  have l: "\<And>j. length (C j) = 512" using fblock_lengths [OF m] by (simp add: C_def)
  note s = concat_blocks_split [of C k 76, OF l k]
  have fb: "file_bytes (abs_fs f) n = concat (map C [0..<76])" by (simp add: file_bytes_def C_def)
  show "concat (map C [0..<k]) = take (512 * k) (file_bytes (abs_fs f) n)" using s(2) fb by simp
  show "take r (C k) = take r (drop (512 * k) (file_bytes (abs_fs f) n))" if "k < 76" "r \<le> 512"
    unfolding fb s(3) using that l by (simp add: upt_conv_Cons)
qed

subsection \<open>Requests at the start of a file\<close>

text \<open>\<open>sz\<close> bytes are a number of whole blocks or less than one.\<close>

definition regular_size :: "nat \<Rightarrow> bool" where
  "regular_size sz \<longleftrightarrow> sz mod 512 = 0 \<or> sz < 512"

lemma put_take_append:
  assumes "r \<le> length b" "length v = r"
  shows "put_bytes 0 v b = v @ drop r b"
  using assms by (simp add: put_bytes_def)

lemma sfs_read_bytes:
  assumes so: "sys_ok s f p" and k: "in_use p k" "slot_cell (get_slot p k) = Inumber n" "n \<noteq> 1"
    and sz: "1 \<le> sz" "sz \<le> MAX_FILE" "sz \<le> length buf"
  defines "F \<equiv> file_bytes (abs_fs f) n"
  shows "\<exists>s' f'. sfs_read buf (of_nat sz) 0 (handle fi k) s =
      Some ((int sz, Some (if regular_size sz then take sz F @ drop sz buf
         else take (sz mod 512) (drop (512 * (sz div 512)) F) @
           drop (sz mod 512) (take (512 * (sz div 512)) F @ drop (512 * (sz div 512)) buf))), s') \<and>
    sys_ok s' f' p \<and> names (abs_fs f') = names (abs_fs f) \<and> only_changes (abs_fs f) (abs_fs f') n \<and>
    isize (a_inode (abs_fs f') n) = isize (a_inode (abs_fs f) n) \<and> file_bytes (abs_fs f') n = F"
proof -
  define q where "q = sz div 512"
  define r where "r = sz mod 512"
  let ?C = "fblock (abs_fs f) (a_inode (abs_fs f) n)" and ?b = "take (512 * q) F @ drop (512 * q) buf"
  have m: "mounted f" "used (abs_fs f) n" using sys_okD(4) [OF so] io_start(3) [OF so k] by simp_all
  have e: "512 * q + r = sz" "r < 512" by (simp_all add: q_def r_def)
  have q: "q \<le> 76" "r \<noteq> 0 \<Longrightarrow> q < 76" using last_blocks(4,5) [OF sz(1,2)] by (simp_all add: q_def r_def)
  note fs = file_bytes_slices [OF m, folded F_def]
  have lF: "length F = MAX_FILE" unfolding F_def by (rule length_file_bytes [OF m])
  have lb: "length ?b = length buf" using e q(1) sz(3) lF by simp
  have out: "(if r = 0 then concat (map ?C [0..<q]) @ drop (512 * q) buf
       else put_bytes 0 (take r (?C q)) (concat (map ?C [0..<q]) @ drop (512 * q) buf)) =
     (if regular_size sz then take sz F @ drop sz buf else take r (drop (512 * q) F) @ drop r ?b)"
  proof (cases "r = 0")
    case True
    then show ?thesis using e(1) fs(1) [OF q(1)] by (simp add: regular_size_def r_def)
  next
    case False
    have lr: "r \<le> length ?b" "length (take r (drop (512 * q) F)) = r" using e q(2) [OF False] sz(3) lF lb by simp_all
    have "put_bytes 0 (take r (?C q)) ?b = take r (drop (512 * q) F) @ drop r ?b"
      unfolding fs(2) [OF q(1) q(2) [OF False] less_imp_le [OF e(2)]] by (rule put_take_append [OF lr])
    moreover have "q = 0" "r = sz" if "regular_size sz" using that False by (simp_all add: regular_size_def r_def q_def)
    ultimately show ?thesis using False unfolding fs(1) [OF q(1)] by auto
  qed
  show ?thesis using sfs_read_prefix [OF so k sz, of fi, folded q_def r_def, folded F_def] unfolding out unfolding q_def r_def .
qed

end
