(* ===== verification/File_Request.thy ===== *)
theory File_Request
  imports File_Bytes
begin

text \<open>
  Requests at any offset: what \<^verbatim>\<open>sfs_read\<close> does to the buffer of its caller as a function of the bytes
  of the file, and the requests for which reading and writing are right.
\<close>

unbundle bit_operations_syntax

subsection \<open>The loop of reads on the contents of a file\<close>

definition place :: "(nat \<Rightarrow> bytes) \<Rightarrow> span \<Rightarrow> bytes \<Rightarrow> u64 \<Rightarrow> bytes option" where
  "place C sp buf j =
     (let (a, b) = slice sp j
      in if a = 0 \<and> b = 512 then poke buf (buf_base sp + 512 * uint j) (C (unat j))
         else if a = 0 then poke buf (buf_base sp) (take (unat b) (C (unat j)))
         else Some buf)"

fun copy_blocks :: "(nat \<Rightarrow> bytes) \<Rightarrow> span \<Rightarrow> bytes \<Rightarrow> u64 list \<Rightarrow> bytes option" where
  "copy_blocks C sp buf [] = Some buf"
| "copy_blocks C sp buf (j # js) = do { buf \<leftarrow> place C sp buf j; copy_blocks C sp buf js }"

lemma read_loop_copies:
  assumes "fs_ok f" "inode_ok (abs_fs f) i" "\<forall>j\<in>set js. unat j < 76"
  shows "\<exists>f'. read_loop f i sp buf js = map_option (\<lambda>b. (Some b, f')) (copy_blocks (fblock (abs_fs f) i) sp buf js) \<and>
    fs_ok f' \<and> abs_fs f' = abs_fs f"
  using assms
proof (induction js arbitrary: f buf)
  case Nil
  then show ?case by auto
next
  case (Cons j js)
  let ?C = "fblock (abs_fs f) i"
  obtain f1 where 1: "sfs_fs_inode_block_read f i j = (Some (?C (unat j)), f1)" "fs_ok f1" "abs_fs f1 = abs_fs f"
    using inode_block_read_ok [OF Cons.prems(1,2), of j] Cons.prems(3) by auto
  have step: "read_loop f i sp buf (j # js) = do { buf \<leftarrow> place ?C sp buf j; read_loop f1 i sp buf js }"
    using read_loop_Cons [OF 1(1) length_fblock [OF Cons.prems(1,2)]] by (simp add: place_def get_bytes_def split: prod.split)
  show ?case
  proof (cases "place ?C sp buf j")
    case None
    then show ?thesis unfolding step using 1(2,3) by (intro exI [of _ f1]) simp
  next
    case (Some buf1)
    obtain f2 where "read_loop f1 i sp buf1 js = map_option (\<lambda>b. (Some b, f2)) (copy_blocks (fblock (abs_fs f1) i) sp buf1 js)"
      "fs_ok f2" "abs_fs f2 = abs_fs f1"
      using Cons.IH [OF 1(2), of buf1] 1(3) Cons.prems(2,3) by auto
    then show ?thesis unfolding step using Some 1(3) by (intro exI [of _ f2]) simp
  qed
qed

text \<open>Whether a block can be placed depends on the length of the buffer only.\<close>

definition fits :: "nat \<Rightarrow> span \<Rightarrow> u64 \<Rightarrow> bool" where
  "fits L sp j \<longleftrightarrow>
     (let (a, b) = slice sp j
      in if a = 0 \<and> b = 512 then 0 \<le> buf_base sp + 512 * uint j \<and> buf_base sp + 512 * uint j + 512 \<le> int L
         else a = 0 \<longrightarrow> 0 \<le> buf_base sp \<and> buf_base sp + int (min (unat b) 512) \<le> int L)"

lemma place_fits:
  assumes "length (C (unat j)) = 512"
  shows "place C sp buf j = None \<longleftrightarrow> \<not> fits (length buf) sp j" "place C sp buf j = Some buf' \<Longrightarrow> length buf' = length buf"
  using assms by (auto simp: place_def fits_def poke_def length_put_bytes min.commute split: prod.splits if_splits)

lemma copy_blocks_fits:
  assumes "\<And>k. length (C k) = 512"
  shows "copy_blocks C sp buf js = None \<longleftrightarrow> (\<exists>j\<in>set js. \<not> fits (length buf) sp j)"
proof (induction js arbitrary: buf)
  case Nil
  then show ?case by simp
next
  case (Cons j js)
  then show ?case using place_fits [of C j sp buf, OF assms] by (cases "place C sp buf j") auto
qed

text \<open>Whole blocks in a row, with the buffer moved back by \<open>a\<close> bytes.\<close>

lemma copy_blocks_whole:
  assumes "\<And>k. length (C k) = 512" "buf_base sp = - int a" "a \<le> 512 * x" "x \<le> m" "512 * m \<le> length buf + a" "m \<le> 76"
    and "\<And>k. x \<le> k \<Longrightarrow> k < m \<Longrightarrow> slice sp (of_nat k) = (0, 512)"
  shows "copy_blocks C sp buf (map of_nat [x..<m]) =
    Some (take (512 * x - a) buf @ concat (map C [x..<m]) @ drop (512 * m - a) buf)"
  using assms(3-7)
proof (induction "m - x" arbitrary: x buf)
  case 0
  then show ?case by simp
next
  case (Suc d)
  then have xm: "x < m" by simp
  then have l: "[x..<m] = x # [Suc x..<m]" by (simp add: upt_conv_Cons)
  have x: "unat (of_nat x :: u64) = x" "uint (of_nat x :: u64) = int x" using xm Suc.prems(4) by (simp_all add: unat_of_nat_u64 uint_of_nat_u64)
  let ?o = "512 * x - a"
  have io: "512 * int x - int a = int ?o" using Suc.prems(1) by simp
  have le: "?o + 512 \<le> length buf" using xm Suc.prems(1,3) by simp
  let ?buf = "put_bytes ?o (C x) buf"
  have "poke buf (int ?o) (C x) = Some ?buf" using poke_Some [of buf ?o "C x"] le assms(1) by simp
  then have "place C sp buf (of_nat x) = Some ?buf"
    using Suc.prems(5) [of x] xm x by (simp add: place_def assms(2) io)
  moreover have "copy_blocks C sp ?buf (map of_nat [Suc x..<m]) =
      Some (take (512 * Suc x - a) ?buf @ concat (map C [Suc x..<m]) @ drop (512 * m - a) ?buf)"
    using Suc.hyps(2) Suc.prems xm le assms(1) by (intro Suc.hyps(1)) (simp_all add: length_put_bytes)
  moreover have "512 * Suc x - a = ?o + 512" "?o + 512 \<le> 512 * m - a" using Suc.prems(1) xm by simp_all
  moreover have "take (?o + 512) ?buf = take ?o buf @ C x" using le assms(1) [of x] by (simp add: put_bytes_def min_def)
  moreover have "drop (512 * m - a) ?buf = drop (512 * m - a) buf" if "?o + 512 \<le> 512 * m - a"
    using le assms(1) [of x] that by (simp add: put_bytes_def min_def)
  ultimately show ?case unfolding l by simp
qed

subsection \<open>The result of a read\<close>

text \<open>
  The bytes \<open>F\<close> of the file, a request for \<open>sz\<close> bytes at \<open>off\<close> and a buffer of \<open>sz\<close> bytes: a block that
  is read whole is placed by its number in the file and not by its distance from the first block of
  the request, the part of the last block goes to the start of the buffer, and of a first block that starts with
  an offset nothing is copied. \<open>None\<close> is an access outside the buffer.
\<close>

definition read_outcome :: "nat \<Rightarrow> nat \<Rightarrow> bytes \<Rightarrow> bytes \<Rightarrow> bytes option" where
  "read_outcome off sz F buf =
     (let a = off mod 512; e = off + sz; q = sz div 512; r = sz mod 512
      in if a = 0
         then (if sz < 512 then Some (take sz (drop off F))
               else if off = 0 then Some (if r = 0 then take sz F else take r (drop (512 * q) F) @ drop r (take (512 * q) F @ drop (512 * q) buf))
               else None)
         else if a + sz \<le> 512 then Some buf
         else if off < 512 \<and> e mod 512 = 0 then Some (take (512 - a) buf @ drop 512 (take e F))
         else None)"

text \<open>The requests for which this is what was asked for: less than one block from the start of a block, or whole blocks from the start of the file.\<close>

definition regular :: "nat \<Rightarrow> nat \<Rightarrow> bool" where
  "regular off sz \<longleftrightarrow> off mod 512 = 0 \<and> (sz < 512 \<or> off = 0 \<and> sz mod 512 = 0)"

lemma regular_outcome:
  assumes "regular off sz"
  shows "read_outcome off sz F buf = Some (take sz (drop off F))"
  using assms by (auto simp: regular_def read_outcome_def Let_def)

subsection \<open>The loop gives this result\<close>

lemma slice_parts:
  assumes "1 \<le> sz" "off + sz \<le> MAX_FILE"
  defines "sp \<equiv> request_span (of_nat sz) (int off)" and "m \<equiv> (off + sz - 1) div 512" and "b \<equiv> off div 512"
  shows "slice sp (of_nat b) = (of_nat (off mod 512), if b = m then of_nat ((off + sz - 1) mod 512 + 1) else 512)"
    "\<And>k. b < k \<Longrightarrow> k < m \<Longrightarrow> slice sp (of_nat k) = (0, 512)"
    "b < m \<Longrightarrow> slice sp (of_nat m) = (0, of_nat ((off + sz - 1) mod 512 + 1))"
    "b \<le> m" "m < 76" "span_blocks sp = map of_nat [b..<m + 1]" "buf_base sp = - int (off mod 512)"
proof -
  note sl = slice_eq [OF assms(1,2), folded m_def b_def sp_def]
  show bm: "b \<le> m" unfolding b_def m_def using assms(1) by (intro div_le_mono) simp
  show "m < 76" unfolding m_def using assms(1,2) by (intro less_mult_imp_div_less) simp
  show "slice sp (of_nat b) = (of_nat (off mod 512), if b = m then of_nat ((off + sz - 1) mod 512 + 1) else 512)"
    using sl [OF bm] by simp
  show "\<And>k. b < k \<Longrightarrow> k < m \<Longrightarrow> slice sp (of_nat k) = (0, 512)" using sl by simp
  show "b < m \<Longrightarrow> slice sp (of_nat m) = (0, of_nat ((off + sz - 1) mod 512 + 1))" using sl [of m] by simp
  show "span_blocks sp = map of_nat [b..<m + 1]" unfolding sp_def b_def m_def by (rule span_blocks_eq [OF assms(1,2)])
  show "buf_base sp = - int (off mod 512)" unfolding sp_def by (rule buf_base_eq [OF assms(1,2)])
qed

lemma of_nat_u64_nonzero: "0 < k \<Longrightarrow> k < 2 ^ 64 \<Longrightarrow> (of_nat k :: u64) \<noteq> 0"
  using of_nat_u64_eq [of k 0] by simp

lemma blocks_slice:
  assumes "\<And>k. length (C k) = 512" "y \<le> 76" "x \<le> y"
  shows "concat (map C [x..<y]) = drop (512 * x) (take (512 * y) (concat (map C [0..<76])))"
proof -
  have "[0..<y] = [0..<x] @ [x..<y]" using assms(3) upt_add_eq_append [of 0 x "y - x"] by simp
  then have "concat (map C [0..<y]) = concat (map C [0..<x]) @ concat (map C [x..<y])" by simp
  then show ?thesis
    using concat_blocks_split(2) [OF assms(1,2)] concat_blocks_split(1) [where C = C and q = x and n = x, OF assms(1)] by simp
qed

lemma block_slice:
  assumes "\<And>k. length (C k) = 512" "x < 76"
  shows "C x = take 512 (drop (512 * x) (concat (map C [0..<76])))"
  using blocks_slice [of C "Suc x" x, OF assms(1)] assms(2) by (simp add: drop_take)

lemma part_of_block:
  fixes off sz :: nat
  assumes "1 \<le> sz" "sz < 512" "off mod 512 = 0"
  shows "(off + sz - 1) div 512 = off div 512" "(off + sz - 1) mod 512 + 1 = sz" "off = 512 * (off div 512)"
proof -
  show o: "off = 512 * (off div 512)" using assms(3) by auto
  then have e: "off + sz - 1 = (sz - 1) + (off div 512) * 512" using assms(1) by linarith
  show "(off + sz - 1) div 512 = off div 512" unfolding e using assms(2) by (subst div_mult_self1) simp_all
  show "(off + sz - 1) mod 512 + 1 = sz" unfolding e mod_mult_self1 using assms(1,2) by simp
qed

lemma read_part_block:
  assumes C: "\<And>k. length (C k) = 512" and sz: "1 \<le> sz" "off + sz \<le> MAX_FILE" "length buf = sz"
    and r: "off mod 512 = 0" "sz < 512"
  defines "sp \<equiv> request_span (of_nat sz) (int off)"
  shows "copy_blocks C sp buf (span_blocks sp) = Some (take sz (drop off (concat (map C [0..<76]))))"
proof -
  note p = slice_parts [OF sz(1,2), folded sp_def]
  let ?b = "off div 512"
  note m = part_of_block(1) [OF sz(1) r(2,1)] and l = part_of_block(2) [OF sz(1) r(2,1)] and o = part_of_block(3) [OF sz(1) r(2,1)]
  have u: "unat (of_nat ?b :: u64) = ?b" "unat (of_nat sz :: u64) = sz" "(of_nat sz :: u64) \<noteq> 512"
    using sz r(2) of_nat_u64_eq [of sz 512] by (simp_all add: unat_of_nat_u64)
  have sl: "slice sp (of_nat ?b) = (0, of_nat sz)" using p(1) unfolding m l r(1) by simp
  have lt: "length (take sz (C ?b)) = length buf" using C [of ?b] r(2) sz(3) by simp
  have "place C sp buf (of_nat ?b) = Some (take sz (C ?b))"
    using sl u lt p(7) poke_Some [of buf 0 "take sz (C ?b)"] by (simp add: place_def r(1) put_bytes_def)
  moreover have "take sz (C ?b) = take sz (drop off (concat (map C [0..<76])))"
    using block_slice [of C ?b, OF C] p(4,5) m o r(2) by (simp add: min_def)
  ultimately show ?thesis using p(6) m by simp
qed

lemma read_inside_block:
  assumes sz: "1 \<le> sz" "off + sz \<le> MAX_FILE" and r: "off mod 512 \<noteq> 0" "off mod 512 + sz \<le> 512"
  defines "sp \<equiv> request_span (of_nat sz) (int off)"
  shows "copy_blocks C sp buf (span_blocks sp) = Some buf"
proof -
  note p = slice_parts [OF sz, folded sp_def]
  let ?b = "off div 512" and ?a = "off mod 512"
  have e: "off + sz - 1 = (?a + sz - 1) + ?b * 512" using sz(1) by simp
  have m: "(off + sz - 1) div 512 = ?b" unfolding e using r(2) sz(1) by (subst div_mult_self1) simp_all
  have "(of_nat ?a :: u64) \<noteq> 0" using of_nat_u64_nonzero [of ?a] r(1) by simp
  then show ?thesis using p(1,6) m by (simp add: place_def split: if_splits)
qed

text \<open>A block that does not fit into the buffer.\<close>

lemma read_misfit:
  assumes C: "\<And>k. length (C k) = 512" and sz: "1 \<le> sz" "off + sz \<le> MAX_FILE" "length buf = sz"
    and r: "off mod 512 = 0 \<and> 512 \<le> off \<and> 512 \<le> sz \<or>
      off mod 512 \<noteq> 0 \<and> 512 < off mod 512 + sz \<and> \<not> (off < 512 \<and> (off + sz) mod 512 = 0)"
  defines "sp \<equiv> request_span (of_nat sz) (int off)"
  shows "copy_blocks C sp buf (span_blocks sp) = None"
proof -
  note p = slice_parts [OF sz(1,2), folded sp_def]
  define a where "a = off mod 512"
  define b where "b = off div 512"
  define m where "m = (off + sz - 1) div 512"
  define l where "l = (off + sz - 1) mod 512 + 1"
  note p = p [folded a_def b_def m_def l_def]
  have o: "off = 512 * b + a" "a < 512" by (simp_all add: a_def b_def)
  have ml: "512 * m + l = off + sz" "1 \<le> l" "l \<le> 512" using sz(1) by (simp_all add: m_def l_def)
  have whole: "\<not> fits sz sp (of_nat k)" if "slice sp (of_nat k) = (0, 512)" "k < 76" "sz + a < 512 * k + 512" for k
    using that p(7) uint_of_nat_u64 [of k] by (simp add: fits_def)
  have "\<exists>k. b \<le> k \<and> k \<le> m \<and> \<not> fits sz sp (of_nat k)"
  proof (cases "l = 512")
    case True
    have s: "slice sp (of_nat m) = (0, 512)"
    proof (cases "b < m")
      case True
      then show ?thesis using p(3) \<open>l = 512\<close> by simp
    next
      case False
      then have "b = m" using p(4) by simp
      moreover have "a = 0"
      proof (rule ccontr)
        assume "a \<noteq> 0"
        then have "512 < a + sz" using r unfolding a_def by metis
        then show False using \<open>b = m\<close> ml(1) True o(1) by linarith
      qed
      ultimately show ?thesis using p(1) True by simp
    qed
    have "off + sz = 512 * (m + 1)" using ml(1) True by simp
    then have "(off + sz) mod 512 = 0" by (metis mod_mult_self1_is_0)
    then have "512 \<le> off" using r by (metis not_less)
    then have "1 \<le> b" unfolding b_def using div_le_mono [of 512 off 512] by simp
    then have "sz + a < 512 * m + 512" using ml(1) True o by linarith
    then show ?thesis using whole [OF s p(5)] p(4) by blast
  next
    case False
    show ?thesis
    proof (cases "a = 0")
      case True
      then have q: "512 \<le> off" "512 \<le> sz" using r by (simp_all add: a_def)
      then have b1: "1 \<le> b" unfolding b_def using div_le_mono [of 512 off 512] by simp
      have bm: "b < m"
      proof (rule ccontr)
        assume "\<not> b < m"
        then have "b = m" using p(4) by simp
        then show False using ml o True q(2) False by linarith
      qed
      have "slice sp (of_nat (m - 1)) = (0, 512)"
      proof (cases "m - 1 = b")
        case True
        show ?thesis unfolding True using p(1) bm \<open>a = 0\<close> by simp
      next
        case False
        then show ?thesis using p(2) [of "m - 1"] bm by simp
      qed
      moreover have "sz + a < 512 * (m - 1) + 512" using ml(1,3) False o(1) True b1 bm by linarith
      ultimately show ?thesis using whole [of "m - 1"] p(5) bm by (intro exI [of _ "m - 1"]) simp
    next
      case False
      have bm: "b < m"
      proof (rule ccontr)
        assume "\<not> b < m"
        then have "b = m" using p(4) by simp
        moreover have "512 < a + sz" using r False unfolding a_def by metis
        ultimately show False using ml o by linarith
      qed
      have "(of_nat l :: u64) \<noteq> 512" using of_nat_u64_eq [of l 512] \<open>l \<noteq> 512\<close> ml(3) by simp
      then have "\<not> fits sz sp (of_nat m)" using p(3) [OF bm] p(7) False by (simp add: fits_def)
      then show ?thesis using bm by (intro exI [of _ m]) simp
    qed
  qed
  then obtain k where k: "b \<le> k" "k \<le> m" "\<not> fits sz sp (of_nat k)" by blast
  then have "of_nat k \<in> set (map of_nat [b..<m + 1] :: u64 list)" unfolding set_map by (intro imageI) auto
  with k(3) show ?thesis unfolding copy_blocks_fits [OF C] p(6) sz(3) by blast
qed

lemma read_first_block_cut:
  assumes C: "\<And>k. length (C k) = 512" and sz: "1 \<le> sz" "off + sz \<le> MAX_FILE" "length buf = sz"
    and r: "off mod 512 \<noteq> 0" "512 < off mod 512 + sz" "off < 512" "(off + sz) mod 512 = 0"
  defines "sp \<equiv> request_span (of_nat sz) (int off)"
  shows "copy_blocks C sp buf (span_blocks sp) =
    Some (take (512 - off mod 512) buf @ drop 512 (take (off + sz) (concat (map C [0..<76]))))"
proof -
  note p = slice_parts [OF sz(1,2), folded sp_def]
  have o: "off mod 512 = off" "off div 512 = 0" "0 < off" using r(1,3) by (simp_all add: gr0I)
  define m where "m = (off + sz - 1) div 512"
  note lw = last_block_whole [OF r(4)]
  have e0: "0 < off + sz" using sz(1) by simp
  have ml: "(off + sz - 1) mod 512 + 1 = 512" "m + 1 = (off + sz) div 512" using lw(1,2,3) [OF e0] by (simp_all add: m_def)
  then have e: "512 * (m + 1) = off + sz" using r(4) by (metis dvd_mult_div_cancel mod_0_imp_dvd)
  have bm: "0 < m" using e r(2) o(1) by (cases m) simp_all
  note p = p [folded m_def, unfolded ml(1) o]
  have z: "(of_nat off :: u64) \<noteq> 0" using of_nat_u64_nonzero [OF o(3)] r(3) by simp
  have first: "place C sp buf (of_nat 0) = Some buf" using p(1) z by (simp add: place_def split: if_splits)
  have sl: "slice sp (of_nat k) = (0, 512)" if "1 \<le> k" "k < m + 1" for k
    using that p(2) [of k] p(3) bm by (cases "k = m") simp_all
  have "copy_blocks C sp buf (map of_nat [1..<m + 1]) =
      Some (take (512 * 1 - off) buf @ concat (map C [1..<m + 1]) @ drop (512 * (m + 1) - off) buf)"
    by (rule copy_blocks_whole [OF C p(7)]) (use r(3) bm p(5) e sz(3) sl in simp_all)
  moreover have "[0..<m + 1] = 0 # [1..<m + 1]" by (simp add: upt_conv_Cons)
  then have "copy_blocks C sp buf (span_blocks sp) = copy_blocks C sp buf (map of_nat [1..<m + 1])"
    using p(6) first by simp
  moreover have "concat (map C [1..<m + 1]) = drop 512 (take (off + sz) (concat (map C [0..<76])))"
    using blocks_slice [of C "m + 1" 1, OF C] p(5) e by simp
  ultimately show ?thesis using e sz(3) o(1) by simp
qed

lemma copy_blocks_outcome:
  assumes C: "\<And>k. length (C k) = 512" and sz: "1 \<le> sz" "off + sz \<le> MAX_FILE" "length buf = sz" and off: "off \<noteq> 0 \<or> sz < 512"
  defines "sp \<equiv> request_span (of_nat sz) (int off)"
  shows "copy_blocks C sp buf (span_blocks sp) = read_outcome off sz (concat (map C [0..<76])) buf"
proof -
  note rules = read_part_block [of C, OF C sz, folded sp_def] read_inside_block [where C = C, OF sz(1,2), folded sp_def]
    read_misfit [of C, OF C sz, folded sp_def] read_first_block_cut [of C, OF C sz, folded sp_def]
  consider "off mod 512 = 0" "sz < 512" | "off mod 512 = 0" "512 \<le> off" "512 \<le> sz" | "off mod 512 \<noteq> 0" "off mod 512 + sz \<le> 512"
    | "off mod 512 \<noteq> 0" "512 < off mod 512 + sz" "off < 512 \<and> (off + sz) mod 512 = 0"
    | "off mod 512 \<noteq> 0" "512 < off mod 512 + sz" "\<not> (off < 512 \<and> (off + sz) mod 512 = 0)"
  proof -
    have "512 \<le> off" if "off mod 512 = 0" "off \<noteq> 0" using that by (cases "off < 512") simp_all
    then show ?thesis using that off by (metis not_le)
  qed
  then show ?thesis
  proof cases
    case 1
    then show ?thesis using rules(1) by (simp add: read_outcome_def)
  next
    case 2
    then have "copy_blocks C sp buf (span_blocks sp) = None" using rules(3) by metis
    then show ?thesis using 2 by (simp add: read_outcome_def)
  next
    case 3
    then show ?thesis using rules(2) by (simp add: read_outcome_def)
  next
    case 4
    then show ?thesis using rules(4) by (simp add: read_outcome_def Let_def)
  next
    case 5
    then have "copy_blocks C sp buf (span_blocks sp) = None" using rules(3) by metis
    then show ?thesis using 5 by (simp add: read_outcome_def Let_def)
  qed
qed

subsection \<open>The handler\<close>

lemma sfs_read_copies:
  assumes so: "sys_ok s f p" and k: "in_use p k" "slot_cell (get_slot p k) = Inumber n" "n \<noteq> 1"
    and sz: "1 \<le> sz" "off + sz \<le> MAX_FILE"
  defines "sp \<equiv> request_span (of_nat sz) (int off)" and "C \<equiv> fblock (abs_fs f) (a_inode (abs_fs f) n)"
  shows "\<exists>s' f'. sfs_read buf (of_nat sz) (int off) (handle fi k) s =
      map_option (\<lambda>b. ((int sz, Some b), s')) (copy_blocks C sp buf (span_blocks sp)) \<and>
    sys_ok s' f' p \<and> names (abs_fs f') = names (abs_fs f) \<and> only_changes (abs_fs f) (abs_fs f') n \<and>
    isize (a_inode (abs_fs f') n) = isize (a_inode (abs_fs f) n) \<and> file_bytes (abs_fs f') n = file_bytes (abs_fs f) n"
proof -
  have s31: "sz < 2 ^ 31" using sz(2) by simp
  obtain f1 i1 t where 1: "sfs_read buf (of_nat sz) (int off) (handle fi k) s = do {
       (r, f2) \<leftarrow> read_loop f1 i1 sp buf (span_blocks sp);
       Some ((case r of None \<Rightarrow> -1 | Some buf \<Rightarrow> int sz, r), s\<lparr>st_locked := False, st_fs := Some f2\<rparr>) }"
    "mounted f1" "names (abs_fs f1) = names (abs_fs f)" "used (abs_fs f1) = used (abs_fs f)"
    "others_same (abs_fs f) (abs_fs f1) n" "a_inode (abs_fs f1) n = i1"
    "i1 = (a_inode (abs_fs f) n)\<lparr>access_time := t\<rparr>" "fblock (abs_fs f1) i1 = C" "inode_ok (abs_fs f1) i1" "used (abs_fs f) n"
    unfolding C_def sp_def by (rule sfs_read_start [OF so k sz(1) s31, of buf "int off" fi])
  note p = slice_parts [OF sz, folded sp_def]
  have "\<forall>j\<in>set (span_blocks sp). unat j < 76" using p(5) unfolding p(6) by (auto simp: unat_of_nat_u64)
  from read_loop_copies [OF mountedD(3) [OF 1(2)] 1(9) this, of sp buf] obtain f2 where
    2: "read_loop f1 i1 sp buf (span_blocks sp) = map_option (\<lambda>b. (Some b, f2)) (copy_blocks C sp buf (span_blocks sp))"
    "fs_ok f2" "abs_fs f2 = abs_fs f1"
    unfolding 1(8) by blast
  let ?s = "s\<lparr>st_locked := False, st_fs := Some f2\<rparr>"
  have m2: "mounted f2" by (rule mounted_abs [OF 1(2) 2(2,3)])
  have "sys_ok ?s f2 p" using 1(3-7,10) 2(3) by (intro io_sys_ok [OF so m2, where n = n]) simp_all
  moreover have "only_changes (abs_fs f) (abs_fs f1) n" by (rule only_changes_used [OF 1(5,4)])
  moreover have "sfs_read buf (of_nat sz) (int off) (handle fi k) s =
      map_option (\<lambda>b. ((int sz, Some b), ?s)) (copy_blocks C sp buf (span_blocks sp))"
    unfolding 1(1) 2(1) by (cases "copy_blocks C sp buf (span_blocks sp)") simp_all
  ultimately show ?thesis
    using 1(3,6-8) 2(3) by (intro exI [of _ ?s] exI [of _ f2]) (simp add: file_bytes_def C_def)
qed

text \<open>Every read inside the blocks a file can have.\<close>

lemma sfs_read_outcome:
  assumes so: "sys_ok s f p" and k: "in_use p k" "slot_cell (get_slot p k) = Inumber n" "n \<noteq> 1"
    and sz: "1 \<le> sz" "off + sz \<le> MAX_FILE" and buf: "length buf = sz"
  defines "F \<equiv> file_bytes (abs_fs f) n"
  shows "\<exists>s' f'. sfs_read buf (of_nat sz) (int off) (handle fi k) s =
      map_option (\<lambda>b. ((int sz, Some b), s')) (read_outcome off sz F buf) \<and>
    sys_ok s' f' p \<and> names (abs_fs f') = names (abs_fs f) \<and> only_changes (abs_fs f) (abs_fs f') n \<and>
    isize (a_inode (abs_fs f') n) = isize (a_inode (abs_fs f) n) \<and> file_bytes (abs_fs f') n = F"
proof (cases "off \<noteq> 0 \<or> sz < 512")
  case True
  have m: "mounted f" "used (abs_fs f) n" using sys_okD(4) [OF so] io_start(3) [OF so k] by simp_all
  have "copy_blocks (fblock (abs_fs f) (a_inode (abs_fs f) n)) (request_span (of_nat sz) (int off)) buf
      (span_blocks (request_span (of_nat sz) (int off))) = read_outcome off sz F buf"
    unfolding F_def file_bytes_def by (rule copy_blocks_outcome [OF fblock_lengths [OF m] sz buf True])
  then show ?thesis using sfs_read_copies [OF so k sz, of buf fi] unfolding F_def by simp
next
  case False
  then have z: "off = 0" "512 \<le> sz" by simp_all
  have "read_outcome 0 sz F buf = Some (if regular_size sz then take sz F @ drop sz buf
         else take (sz mod 512) (drop (512 * (sz div 512)) F) @
           drop (sz mod 512) (take (512 * (sz div 512)) F @ drop (512 * (sz div 512)) buf))"
    using z(2) buf by (auto simp: read_outcome_def regular_size_def Let_def)
  then show ?thesis
    using sfs_read_bytes [OF so k sz(1), of buf fi] sz(2) buf unfolding F_def z(1) by simp
qed

text \<open>An irregular request on a file of two different bytes gets something else.\<close>

lemma irregular_outcome:
  assumes sz: "1 \<le> sz" "off + sz \<le> MAX_FILE" and i: "\<not> regular off sz" and xyz: "x \<noteq> y" "z \<noteq> x" "z \<noteq> y"
  defines "F \<equiv> replicate 512 x @ replicate 38400 y"
  shows "read_outcome off sz F (replicate sz z) \<noteq> Some (take sz (drop off F))"
proof
  let ?buf = "replicate sz z"
  assume r: "read_outcome off sz F ?buf = Some (take sz (drop off F))"
  have F: "F ! k = (if k < 512 then x else y)" if "k < MAX_FILE" for k using that by (simp add: F_def nth_append)
  have lF: "length F = MAX_FILE" by (simp add: F_def)
  have first: "take sz (drop off F) ! 0 = F ! off" using sz lF by simp
  have oz: "F ! off \<noteq> z" using F [of off] sz xyz by simp
  show False
  proof (cases "off mod 512 = 0")
    case True
    then have big: "\<not> sz < 512" "off = 0" "sz mod 512 \<noteq> 0" using i r by (auto simp: regular_def read_outcome_def Let_def split: if_splits)
    let ?q = "sz div 512" and ?r = "sz mod 512"
    have q: "1 \<le> ?q" "512 * ?q + ?r = sz" using big(1) by (simp_all add: div_greater_zero_iff Suc_le_eq)
    then have lt: "512 * ?q < MAX_FILE" "512 \<le> 512 * ?q" using big(3) sz(2) by linarith+
    have "take ?r (drop (512 * ?q) F) @ drop ?r (take (512 * ?q) F @ drop (512 * ?q) ?buf) = take sz (drop off F)"
      using r big by (simp add: read_outcome_def Let_def)
    then have "(take ?r (drop (512 * ?q) F) @ drop ?r (take (512 * ?q) F @ drop (512 * ?q) ?buf)) ! 0 = F ! off"
      using first by simp
    then have "F ! (512 * ?q) = F ! off" using lt(1) lF big(3) by (simp add: nth_append)
    then show False using F [OF lt(1)] F [of 0] lt(2) big(2) xyz(1) by simp
  next
    case False
    have "out ! 0 = z" if "read_outcome off sz F ?buf = Some out" for out
      using that False sz(1) by (auto simp: read_outcome_def Let_def nth_append split: if_splits)
    then show False using r first oz by metis
  qed
qed

text \<open>
  A read is right when it returns what there is up to the end of the file, as the comment of \<^verbatim>\<open>sfs_read\<close> has it,
  and leaves the rest of the buffer alone.
\<close>

definition read_right :: "sfs_state \<Rightarrow> filesystem \<Rightarrow> u64 \<Rightarrow> fuse_file_info \<Rightarrow> nat \<Rightarrow> nat \<Rightarrow> bytes \<Rightarrow> bool" where
  "read_right s f n fi off sz buf \<longleftrightarrow>
     (let m = min sz (unat (isize (a_inode (abs_fs f) n)) - off)
      in \<exists>s'. sfs_read buf (of_nat sz) (int off) fi s =
           Some ((int m, Some (take m (drop off (file_bytes (abs_fs f) n)) @ drop m buf)), s'))"

text \<open>A file can have any size, whatever its bytes.\<close>

lemma resized:
  assumes so: "sys_ok s f p" and k: "in_use p k" "slot_cell (get_slot p k) = Inumber n" "n \<noteq> 1"
  obtains s' f' where "sys_ok s' f' p" "isize (a_inode (abs_fs f') n) = x" "file_bytes (abs_fs f') n = file_bytes (abs_fs f) n"
proof -
  note st = io_start [OF so k]
  let ?i = "(a_inode (abs_fs f) n)\<lparr>isize := x\<rparr>"
  have p: "inumber ?i = n" "block_pointers ?i = block_pointers (a_inode (abs_fs f) n)" using st(7) by simp_all
  note mm = meta_mounted [OF sys_okD(4) [OF so] st(3) k(3) p]
  let ?f' = "after_write f ?i"
  have "fblock (abs_fs ?f') ?i = fblock (abs_fs f) (a_inode (abs_fs f) n)"
    using mm(7) fblock_cong [of "abs_fs f" "abs_fs f" ?i "a_inode (abs_fs f) n"] by simp
  then have "file_bytes (abs_fs ?f') n = file_bytes (abs_fs f) n" using mm(6) by (simp add: file_bytes_def)
  moreover have "sys_ok (s\<lparr>st_locked := False, st_fs := Some ?f'\<rparr>) ?f' p"
    using mm st(3) by (intro io_sys_ok [OF so mm(2), where n = n]) simp_all
  ultimately show ?thesis using that [of _ ?f'] mm(6) by simp
qed

end
