(* ===== verification/File_Io_Write.thy ===== *)
theory File_Io_Write
  imports File_Io
begin

text \<open>
  What \<^verbatim>\<open>sfs_write\<close> does to the blocks of a file.
\<close>

unbundle bit_operations_syntax

subsection \<open>Blocks\<close>

definition holes :: "fs_abs \<Rightarrow> sfs_fs_inode \<Rightarrow> nat \<Rightarrow> nat \<Rightarrow> nat set" where
  "holes A i a b = {k. a \<le> k \<and> k < b \<and> fptr A i k = 0}"

lemma finite_holes [simp]: "finite (holes A i a b)"
  by (simp add: holes_def)

lemma holes_refl [simp]: "holes A i a a = {}"
  by (auto simp: holes_def)

lemma holes_Suc: "a < b \<Longrightarrow> holes A i a b = (if fptr A i a = 0 then insert a (holes A i (Suc a) b) else holes A i (Suc a) b)"
  unfolding holes_def using le_eq_less_or_eq by (auto simp: Suc_le_eq)

lemma card_holes_Suc: "a < b \<Longrightarrow> card (holes A i a b) = (if fptr A i a = 0 then 1 else 0) + card (holes A i (Suc a) b)"
  by (simp add: holes_Suc) (simp add: holes_def)

lemma finite_free_blocks: "alloc_ok f \<Longrightarrow> finite (free_blocks (abs_fs f))"
  by (elim alloc_okE) simp

text \<open>The blocks a write from block \<open>a\<close> to \<open>b\<close> takes: one for each hole, and one for the index if there is none.\<close>

definition needed :: "fs_abs \<Rightarrow> sfs_fs_inode \<Rightarrow> nat \<Rightarrow> nat \<Rightarrow> nat" where
  "needed A i a b = card (holes A i a b) + (if a < b \<and> 12 < b \<and> block_pointers i ! 12 = 0 then 1 else 0)"

lemma needed_refl [simp]: "needed A i a a = 0"
  by (simp add: needed_def)

text \<open>The index is taken after the direct blocks of the request; the block that is next then must hold zeros.\<close>

definition index_later :: "fs_abs \<Rightarrow> sfs_fs_inode \<Rightarrow> nat \<Rightarrow> bool" where
  "index_later A i a \<longleftrightarrow> index_ready ((take_block ^^ card (holes A i a 12)) A)"

lemma index_ready_same:
  assumes "space_ok A" "same_free A B" "h \<le> card (free_blocks A)"
  shows "index_ready ((take_block ^^ h) B) = index_ready ((take_block ^^ h) A)"
proof -
  let ?A = "(take_block ^^ h) A" and ?B = "(take_block ^^ h) B"
  have t: "space_ok ?A" "same_free ?A ?B" using same_free_takes [OF assms] by simp_all
  note fr = same_free_blocks [OF t]
  show ?thesis
  proof (cases "free_blocks ?A = {}")
    case True
    then show ?thesis using fr by (simp add: index_ready_def)
  next
    case False
    then show ?thesis using same_free_take(1,2) [OF t False] fr by (simp add: index_ready_def)
  qed
qed

lemma holes_within: "12 < b \<Longrightarrow> card (holes A i a 12) \<le> card (holes A i a b)"
  by (rule card_mono) (auto simp: holes_def)

lemma index_later_frame:
  assumes "space_ok A" "same_free A B" "fptr B i' = fptr A i" "card (holes A i a 12) \<le> card (free_blocks A)"
  shows "index_later B i' a = index_later A i a"
proof -
  have "holes B i' a 12 = holes A i a 12" using assms(3) by (simp add: holes_def)
  then show ?thesis using index_ready_same [OF assms(1,2,4)] by (simp add: index_later_def)
qed

lemma index_later_step:
  assumes sp: "space_ok A" and w: "file_written A i a x A1 i1" and ab: "a < b" "12 < b"
    and room: "needed A i a b \<le> card (free_blocks A)" and l: "block_pointers i ! 12 = 0 \<Longrightarrow> index_later A i a"
    and z: "block_pointers i1 ! 12 = 0"
  shows "index_later A1 i1 (Suc a)"
proof -
  have w0: "block_pointers i ! 12 \<noteq> 0 \<or> a < 12 \<Longrightarrow> block_pointers i1 ! 12 = block_pointers i ! 12"
    "block_pointers i ! 12 = 0 \<Longrightarrow> 12 \<le> a \<Longrightarrow> block_pointers i1 ! 12 \<in> free_blocks A"
    "\<And>j. j \<noteq> a \<Longrightarrow> fptr A1 i1 j = fptr A i j"
    "a < 12 \<Longrightarrow> same_free (if fptr A i a = 0 then take_block A else A) A1"
    using w by (simp_all add: file_written_def)
  have i0: "block_pointers i ! 12 = 0" and a: "a < 12" using z w0(1,2) zero_not_free [of A] by (metis, metis not_le)
  let ?h = "card (holes A i (Suc a) 12)" and ?B = "if fptr A i a = 0 then take_block A else A"
  have h1: "holes A1 i1 (Suc a) 12 = holes A i (Suc a) 12" using w0(3) by (auto simp: holes_def)
  note ch = card_holes_Suc [OF a, of A i]
  have r: "card (holes A i a 12) < card (free_blocks A)"
    using room holes_within [OF ab(2), of A i a] i0 ab by (simp add: needed_def)
  have "space_ok ?B \<and> ?h \<le> card (free_blocks ?B)"
  proof (cases "fptr A i a = 0")
    case True
    have "free_blocks A \<noteq> {}" using r by auto
    from space_take [OF sp this] show ?thesis using True r ch by (simp add: card_Diff_singleton)
  next
    case False
    then show ?thesis using sp r ch by simp
  qed
  then have "index_ready ((take_block ^^ ?h) A1) = index_ready ((take_block ^^ ?h) ?B)"
    using index_ready_same w0(4) [OF a] by blast
  moreover have "(take_block ^^ ?h) ?B = (take_block ^^ card (holes A i a 12)) A" unfolding ch by (simp add: funpow_swap1)
  ultimately show ?thesis using l [OF i0] unfolding index_later_def h1 by simp
qed

text \<open>\<open>v k\<close> is written to the blocks \<open>k\<close> from \<open>a\<close> to \<open>b\<close> of file \<open>n\<close>, and \<open>h\<close> blocks are taken for it.\<close>

definition file_stored ::
  "fs_abs \<Rightarrow> sfs_fs_inode \<Rightarrow> nat \<Rightarrow> nat \<Rightarrow> (nat \<Rightarrow> bytes) \<Rightarrow> nat \<Rightarrow> fs_abs \<Rightarrow> sfs_fs_inode \<Rightarrow> bool" where
  "file_stored A i a b v h A' i' \<longleftrightarrow>
     isize i' = isize i \<and> links i' = links i \<and> (block_pointers i ! 12 \<noteq> 0 \<longrightarrow> block_pointers i' ! 12 = block_pointers i ! 12) \<and>
     (\<forall>j<76. fblock A' i' j = (if a \<le> j \<and> j < b then v j else fblock A i j)) \<and>
     (\<forall>j. \<not> (a \<le> j \<and> j < b) \<longrightarrow> fptr A' i' j = fptr A i j) \<and>
     free_blocks A' \<subseteq> free_blocks A \<and> card (free_blocks A) = card (free_blocks A') + h"

lemma file_stored_refl: "file_stored A i a a v 0 A i"
  by (auto simp: file_stored_def)

lemma needed_step:
  assumes io: "inode_ok A i" and w: "file_written A i a x A1 i1" and fin: "finite (free_blocks A)" and ab: "a < b" "b \<le> 76"
  shows "card (free_blocks A) + needed A1 i1 (Suc a) b = card (free_blocks A1) + needed A i a b"
proof -
  have w0: "fblock A1 i1 a = x" "\<And>j. j < 76 \<Longrightarrow> j \<noteq> a \<Longrightarrow> fblock A1 i1 j = fblock A i j"
    "free_blocks A1 = free_blocks A - {fptr A1 i1 a, block_pointers i1 ! 12}" "\<And>j. j \<noteq> a \<Longrightarrow> fptr A1 i1 j = fptr A i j"
    "block_pointers i ! 12 \<noteq> 0 \<or> a < 12 \<Longrightarrow> block_pointers i1 ! 12 = block_pointers i ! 12"
    "block_pointers i ! 12 = 0 \<Longrightarrow> 12 \<le> a \<Longrightarrow> block_pointers i1 ! 12 \<in> free_blocks A"
    "fptr A i a \<noteq> 0 \<Longrightarrow> fptr A1 i1 a = fptr A i a" "fptr A i a = 0 \<Longrightarrow> fptr A1 i1 a \<in> free_blocks A" "inode_ok A1 i1"
    using w by (simp_all add: file_written_def)
  have h: "holes A1 i1 (Suc a) b = holes A i (Suc a) b" using w0(4) by (auto simp: holes_def)
  show ?thesis
  proof (cases "block_pointers i ! 12 \<noteq> 0 \<or> a < 12")
    case True
    note p = w0(5) [OF True]
    have "block_pointers i ! 12 \<notin> free_blocks A" using inode_okD(4) [OF io] zero_not_free by metis
    then have f1: "free_blocks A1 = free_blocks A - {fptr A1 i1 a}" using w0(3) p by auto
    have "card (free_blocks A) = card (free_blocks A1) + (if fptr A i a = 0 then 1 else 0)"
    proof (cases "fptr A i a = 0")
      case True
      then have "fptr A1 i1 a \<in> free_blocks A" by (rule w0(8))
      then show ?thesis unfolding f1 using card.remove [OF fin] True by simp
    next
      case False
      then show ?thesis unfolding f1 using w0(7) inode_okD(3) [OF io False] by simp
    qed
    then show ?thesis using p True ab unfolding needed_def h card_holes_Suc [OF ab(1), of A i] by auto
  next
    case False
    then have i0: "block_pointers i ! 12 = 0" "12 \<le> a" by simp_all
    note p = w0(6) [OF i0]
    have z: "fptr A i a = 0" using i0 by (simp add: fptr_def)
    then have q: "fptr A1 i1 a \<in> free_blocks A" by (rule w0(8))
    then have "fptr A1 i1 a \<noteq> block_pointers i1 ! 12" using inode_okD(5) [OF w0(9), of a] zero_not_free by metis
    then have two: "{fptr A1 i1 a, block_pointers i1 ! 12} \<subseteq> free_blocks A" "card {fptr A1 i1 a, block_pointers i1 ! 12} = 2"
      using p q by simp_all
    have "card (free_blocks A) = card (free_blocks A1) + 2"
      unfolding w0(3) using card_Diff_subset [OF _ two(1)] card_mono [OF fin two(1)] two(2) by simp
    moreover have "block_pointers i1 ! 12 \<noteq> 0" using p zero_not_free by metis
    ultimately show ?thesis using i0 z ab unfolding needed_def h card_holes_Suc [OF ab(1), of A i] by simp
  qed
qed

lemma file_stored_step:
  assumes io: "inode_ok A i" and w: "file_written A i a (v a) A1 i1" and fin: "finite (free_blocks A)"
    and ab: "a < b" "b \<le> 76"
    and st: "file_stored A1 i1 (Suc a) b v (needed A1 i1 (Suc a) b) A2 i2"
  shows "file_stored A i a b v (needed A i a b) A2 i2"
proof -
  have w0: "fblock A1 i1 a = v a" "\<And>j. j < 76 \<Longrightarrow> j \<noteq> a \<Longrightarrow> fblock A1 i1 j = fblock A i j"
    "free_blocks A1 = free_blocks A - {fptr A1 i1 a, block_pointers i1 ! 12}" "\<And>j. j \<noteq> a \<Longrightarrow> fptr A1 i1 j = fptr A i j"
    "block_pointers i ! 12 \<noteq> 0 \<Longrightarrow> block_pointers i1 ! 12 = block_pointers i ! 12"
    using w by (simp_all add: file_written_def)
  note c = needed_step [OF io w fin ab]
  from st have s: "isize i2 = isize i1" "links i2 = links i1"
    "block_pointers i1 ! 12 \<noteq> 0 \<longrightarrow> block_pointers i2 ! 12 = block_pointers i1 ! 12"
    "\<And>j. j < 76 \<Longrightarrow> fblock A2 i2 j = (if Suc a \<le> j \<and> j < b then v j else fblock A1 i1 j)"
    "\<And>j. \<not> (Suc a \<le> j \<and> j < b) \<Longrightarrow> fptr A2 i2 j = fptr A1 i1 j"
    "free_blocks A2 \<subseteq> free_blocks A1" "card (free_blocks A1) = card (free_blocks A2) + needed A1 i1 (Suc a) b"
    by (simp_all add: file_stored_def)
  have "fblock A2 i2 j = (if a \<le> j \<and> j < b then v j else fblock A i j)" if "j < 76" for j
    using s(4) [OF that] w0(1,2) that ab by (cases "j = a") auto
  moreover have "fptr A2 i2 j = fptr A i j" if "\<not> (a \<le> j \<and> j < b)" for j
    using s(5) [of j] w0(4) [of j] that ab by auto
  moreover have "free_blocks A2 \<subseteq> free_blocks A" using s(6) w0(3) by blast
  ultimately show "file_stored A i a b v (needed A i a b) A2 i2"
    using s(1-3,7) c w0(5) file_written_same [OF w] by (simp add: file_stored_def)
qed

text \<open>
  What the loop writes to block \<open>k\<close>, given the contents \<open>C\<close> of the file and of the variable \<^verbatim>\<open>tmp_block\<close>: a whole
  block from the buffer, the first bytes of the buffer over the old contents, or \<^verbatim>\<open>tmp_block\<close>.
\<close>

definition written :: "bytes \<Rightarrow> bytes \<Rightarrow> (nat \<Rightarrow> bytes) \<Rightarrow> span \<Rightarrow> nat \<Rightarrow> bytes option" where
  "written buf tmp C sp k =
     (let (a, b) = slice sp (of_nat k)
      in if a = 0 \<and> b = 512 then peek buf (buf_base sp + 512 * int k) BLOCK_SIZE
         else if a = 0 then map_option (\<lambda>v. put_bytes 0 v (C k)) (peek buf (buf_base sp) (unat b))
         else Some tmp)"

lemma peek_length: "peek buf k n = Some v \<Longrightarrow> length v = n"
  by (auto simp: peek_def length_get_bytes nat_add_distrib split: if_splits)

lemma write_loop_block:
  fixes buf :: bytes
  assumes m: "mounted f" and i: "inode_ok (abs_fs f) i" and k: "k < 76" and tmp: "fst (slice sp (of_nat k)) = 0 \<or> length tmp = BLOCK_SIZE"
    and b: "unat (snd (slice sp (of_nat k))) \<le> 512"
  defines "v \<equiv> written buf tmp (fblock (abs_fs f) i) sp k"
  shows "v = None \<Longrightarrow> (\<And>u. length u = BLOCK_SIZE \<Longrightarrow> \<exists>x. sfs_fs_inode_block_write f i (of_nat k) u = Some (0, x)) \<Longrightarrow>
      write_loop f i sp buf tmp (of_nat k # rest) = None"
    "v = Some w \<Longrightarrow> length w = BLOCK_SIZE \<and> (\<exists>f0 tmp'. mounted f0 \<and> abs_fs f0 = abs_fs f \<and>
       write_loop f i sp buf tmp (of_nat k # rest) = do {
         (r, i', f') \<leftarrow> sfs_fs_inode_block_write f0 i (of_nat k) w;
         if r \<noteq> 0 then Some (-1, f') else write_loop f' i' sp buf tmp' rest })"
proof -
  obtain x y where xy: "slice sp (of_nat k) = (x, y)" by fastforce
  have k': "unat (of_nat k :: u64) = k" "uint (of_nat k :: u64) = int k" using k by (simp_all add: unat_of_nat_u64 uint_of_nat_u64)
  obtain f0 where 0: "sfs_fs_inode_block_read f i (of_nat k) = (Some (fblock (abs_fs f) i k), f0)" "fs_ok f0" "abs_fs f0 = abs_fs f"
    using inode_block_read_ok [OF mountedD(3) [OF m] i, of "of_nat k"] k k' by auto
  have m0: "mounted f0" by (rule mounted_abs [OF m 0(2,3)])
  have l: "length (fblock (abs_fs f) i k) = 512" by (rule length_fblock [OF mountedD(3) [OF m] i])
  {
    assume vn: "v = None" and "\<And>u. length u = BLOCK_SIZE \<Longrightarrow> \<exists>x. sfs_fs_inode_block_write f i (of_nat k) u = Some (0, x)"
    then obtain x where "sfs_fs_inode_block_write f i (of_nat k) zero_block = Some (0, x)" by fastforce
    then obtain n i1 f1 where "block_to_write f i (of_nat k) = Some (Some n, i1, f1)" using block_written_outside by blast
    then show "write_loop f i sp buf tmp (of_nat k # rest) = None"
      using vn xy 0(1) k' by (auto simp: v_def written_def)
  }
  assume v: "v = Some w"
  consider "x = 0" "y = 512" | "x = 0" "y \<noteq> 512" | "x \<noteq> 0" by blast
  then show "length w = BLOCK_SIZE \<and> (\<exists>f0 tmp'. mounted f0 \<and> abs_fs f0 = abs_fs f \<and>
       write_loop f i sp buf tmp (of_nat k # rest) = do {
         (r, i', f') \<leftarrow> sfs_fs_inode_block_write f0 i (of_nat k) w;
         if r \<noteq> 0 then Some (-1, f') else write_loop f' i' sp buf tmp' rest })"
  proof cases
    case 1
    then have "peek buf (buf_base sp + 512 * int k) BLOCK_SIZE = Some w" using v xy by (simp add: v_def written_def)
    then show ?thesis using 1 xy k' m tmp peek_length [of buf _ BLOCK_SIZE w]
      by (intro conjI exI [of _ f] exI [of _ tmp]) (simp_all add: block_written_bind [where w = w])
  next
    case 2
    then obtain u where u: "peek buf (buf_base sp) (unat y) = Some u" "w = put_bytes 0 u (fblock (abs_fs f) i k)"
      using v xy by (auto simp: v_def written_def)
    have "length w = 512" using u(2) l peek_length [OF u(1)] b xy by (simp add: length_put_bytes)
    then show ?thesis using 2 xy u 0 m0 by (intro conjI exI [of _ f0] exI [of _ "put_bytes 0 u (fblock (abs_fs f) i k)"]) (simp_all add: block_written_bind [where w = w])
  next
    case 3
    then have "w = tmp" using v xy by (simp add: v_def written_def)
    then show ?thesis using 3 xy m tmp by (intro conjI exI [of _ f] exI [of _ tmp]) (simp_all add: block_written_bind [where w = w])
  qed
qed

lemma written_cong:
  assumes "C k = C' k" "tmp = tmp' \<or> fst (slice sp (of_nat k)) = 0"
  shows "written buf tmp C sp k = written buf tmp' C' sp k"
  using assms by (auto simp: written_def split: prod.split)

lemma write_loop_written:
  fixes buf :: bytes
  assumes "mounted f" "used (abs_fs f) n" "n \<noteq> 1" "a_inode (abs_fs f) n = i" "b \<le> 76" "a \<le> b" "a < b \<Longrightarrow> fst (slice sp (of_nat a)) = 0 \<or> length tmp = BLOCK_SIZE"
    and "\<And>k. a \<le> k \<Longrightarrow> k < b \<Longrightarrow> unat (snd (slice sp (of_nat k))) \<le> 512"
    and "\<And>k. a < k \<Longrightarrow> k < b \<Longrightarrow> fst (slice sp (of_nat k)) = 0"
    and "a < b \<and> 12 < b \<and> block_pointers i ! 12 = 0 \<longrightarrow> index_later (abs_fs f) i a"
    and "needed (abs_fs f) i a b \<le> card (free_blocks (abs_fs f))"
  defines "w \<equiv> written buf tmp (fblock (abs_fs f) i) sp"
  shows "if \<exists>k. a \<le> k \<and> k < b \<and> w k = None then write_loop f i sp buf tmp (map of_nat [a..<b] @ rest) = None
    else \<exists>i' f' tmp'. write_loop f i sp buf tmp (map of_nat [a..<b] @ rest) = write_loop f' i' sp buf tmp' rest \<and>
      mounted f' \<and> names (abs_fs f') = names (abs_fs f) \<and> used (abs_fs f') = used (abs_fs f) \<and>
      others_same (abs_fs f) (abs_fs f') n \<and> a_inode (abs_fs f') n = i' \<and>
      file_stored (abs_fs f) i a b (\<lambda>k. the (w k)) (needed (abs_fs f) i a b) (abs_fs f') i'"
  using assms(1-11) unfolding w_def
proof (induction "b - a" arbitrary: a f i tmp)
  case 0
  then have "a = b" by simp
  with 0 show ?case by (auto simp: others_same_refl file_stored_def intro!: exI [of _ i] exI [of _ f] exI [of _ tmp])
next
  case (Suc m)
  then have ab: "a < b" by simp
  then have l: "[a..<b] = a # [Suc a..<b]" by (simp add: upt_conv_Cons)
  let ?A = "abs_fs f" and ?C = "fblock (abs_fs f) i"
  let ?w = "written buf tmp ?C sp"
  note md = mountedD [OF Suc.prems(1)]
  have io: "inode_ok ?A i" using md(4) Suc.prems(2,4) by (auto simp: files_ok_def)
  have a: "unat (of_nat a :: u64) = a" "a < 76" using ab Suc.prems(5) by (simp_all add: unat_of_nat_u64)
  note blk = write_loop_block [where buf = buf and rest = "map of_nat [Suc a..<b] @ rest", OF Suc.prems(1) io a(2) Suc.prems(7) [OF ab] Suc.prems(8) [OF order_refl ab]]
  have "fptr ?A i a = 0 \<Longrightarrow> 0 < needed ?A i a b" using card_holes_Suc [OF ab, of ?A i] by (simp add: needed_def)
  moreover have "12 \<le> a \<Longrightarrow> holes ?A i a 12 = {}" by (auto simp: holes_def)
  ultimately have wa: "writable ?A i (unat (of_nat a :: u64))"
    unfolding writable_def a(1) using a(2) ab Suc.prems(10,11) by (auto simp: index_later_def)
  show ?case
  proof (cases "?w a")
    case None
    have "\<exists>x. sfs_fs_inode_block_write f i (of_nat a) u = Some (0, x)" if "length u = BLOCK_SIZE" for u
      using block_written_mounted [OF Suc.prems(1-4) wa that] by metis
    from blk(1) [OF None this] have "write_loop f i sp buf tmp (map of_nat [a..<b] @ rest) = None" unfolding l by simp
    moreover have "\<exists>k. a \<le> k \<and> k < b \<and> ?w k = None" using None ab by blast
    ultimately show ?thesis by simp
  next
    case (Some v)
    obtain f0 tmp' where 0: "length v = BLOCK_SIZE" "mounted f0" "abs_fs f0 = ?A"
      "write_loop f i sp buf tmp (map of_nat [a..<b] @ rest) = do {
         (r, i', f') \<leftarrow> sfs_fs_inode_block_write f0 i (of_nat a) v;
         if r \<noteq> 0 then Some (-1, f') else write_loop f' i' sp buf tmp' (map of_nat [Suc a..<b] @ rest) }"
      using blk(2) [OF Some] l by auto
    have "writable (abs_fs f0) i (unat (of_nat a :: u64))" using wa 0(3) by simp
    moreover have "used (abs_fs f0) n" "a_inode (abs_fs f0) n = i" using 0(3) Suc.prems(2,4) by simp_all
    ultimately obtain i1 f1 where 1: "sfs_fs_inode_block_write f0 i (of_nat a) v = Some (0, i1, f1)" "mounted f1"
      "names (abs_fs f1) = names ?A" "used (abs_fs f1) = used ?A" "others_same ?A (abs_fs f1) n"
      "a_inode (abs_fs f1) n = i1" "file_written ?A i a v (abs_fs f1) i1"
      using block_written_mounted [OF 0(2) _ Suc.prems(3) _ _ 0(1)] a(1) 0(3) by metis
    have fin: "finite (free_blocks ?A)" by (rule finite_free_blocks [OF md(2)])
    have w1: "\<And>j. j < 76 \<Longrightarrow> j \<noteq> a \<Longrightarrow> fblock (abs_fs f1) i1 j = ?C j" using 1(7) by (simp add: file_written_def)
    have i1: "Suc a < b \<and> 12 < b \<and> block_pointers i1 ! 12 = 0 \<longrightarrow> index_later (abs_fs f1) i1 (Suc a)"
      using index_later_step [OF alloc_ok_space [OF md(2)] 1(7) ab _ Suc.prems(11)] Suc.prems(10) ab by blast
    let ?u = "\<lambda>k. the (?w k)"
    have fw: "file_written ?A i a (?u a) (abs_fs f1) i1" using 1(7) Some by simp
    note step1 = file_stored_step [where v = ?u, OF io fw fin ab Suc.prems(5)]
    have cf: "needed (abs_fs f1) i1 (Suc a) b \<le> card (free_blocks (abs_fs f1))"
      using needed_step [OF io fw fin ab Suc.prems(5)] Suc.prems(11) by linarith
    have w: "written buf tmp' (fblock (abs_fs f1) i1) sp k = ?w k" if "Suc a \<le> k" "k < b" for k
      using w1 [of k] that Suc.prems(5) Suc.prems(9) [of k] by (intro written_cong) auto
    have zero: "Suc a < b \<Longrightarrow> fst (slice sp (of_nat (Suc a))) = 0" using Suc.prems(9) by blast
    have IH: "if \<exists>k. Suc a \<le> k \<and> k < b \<and> written buf tmp' (fblock (abs_fs f1) i1) sp k = None
      then write_loop f1 i1 sp buf tmp' (map of_nat [Suc a..<b] @ rest) = None
      else \<exists>i' f' tmp''. write_loop f1 i1 sp buf tmp' (map of_nat [Suc a..<b] @ rest) = write_loop f' i' sp buf tmp'' rest \<and>
        mounted f' \<and> names (abs_fs f') = names (abs_fs f1) \<and> used (abs_fs f') = used (abs_fs f1) \<and>
        others_same (abs_fs f1) (abs_fs f') n \<and> a_inode (abs_fs f') n = i' \<and>
        file_stored (abs_fs f1) i1 (Suc a) b (\<lambda>k. the (written buf tmp' (fblock (abs_fs f1) i1) sp k))
          (needed (abs_fs f1) i1 (Suc a) b) (abs_fs f') i'"
      using Suc.hyps(2) Suc.prems 1(2,4,6) ab i1 cf zero by (intro Suc.hyps(1)) simp_all
    have step: "write_loop f i sp buf tmp (map of_nat [a..<b] @ rest) = write_loop f1 i1 sp buf tmp' (map of_nat [Suc a..<b] @ rest)"
      using 0(4) 1(1) by simp
    have ex: "(\<exists>k. a \<le> k \<and> k < b \<and> ?w k = None) \<longleftrightarrow> (\<exists>k. Suc a \<le> k \<and> k < b \<and> written buf tmp' (fblock (abs_fs f1) i1) sp k = None)"
      using Some w ab by (metis Suc_leD not_less_eq_eq le_antisym option.distinct(1))
    show ?thesis
    proof (cases "\<exists>k. a \<le> k \<and> k < b \<and> ?w k = None")
      case True
      then show ?thesis using IH step unfolding ex by simp
    next
      case False
      then obtain i' f' tmp'' where 2: "write_loop f1 i1 sp buf tmp' (map of_nat [Suc a..<b] @ rest) = write_loop f' i' sp buf tmp'' rest"
        "mounted f'" "names (abs_fs f') = names (abs_fs f1)" "used (abs_fs f') = used (abs_fs f1)"
        "others_same (abs_fs f1) (abs_fs f') n" "a_inode (abs_fs f') n = i'"
        "file_stored (abs_fs f1) i1 (Suc a) b (\<lambda>k. the (written buf tmp' (fblock (abs_fs f1) i1) sp k)) (needed (abs_fs f1) i1 (Suc a) b) (abs_fs f') i'"
        using IH ex by auto
      have "file_stored (abs_fs f1) i1 (Suc a) b ?u (needed (abs_fs f1) i1 (Suc a) b) (abs_fs f') i'"
        using 2(7) w by (simp add: file_stored_def Suc_le_eq cong: conj_cong)
      then have "file_stored ?A i a b ?u (needed ?A i a b) (abs_fs f') i'" using step1 by blast
      then show ?thesis
        using False step 2 1(3,4) others_same_trans [OF 1(5) 2(5)] by (simp only: if_False) (intro exI [of _ i'] exI [of _ f'] exI [of _ tmp''], simp)
    qed
  qed
qed

text \<open>When the last free block has been taken the loop stops at the next hole.\<close>

lemma write_loop_hole:
  fixes buf tmp :: bytes
  assumes m: "mounted f" and n: "used (abs_fs f) n" "n \<noteq> 1" "a_inode (abs_fs f) n = i"
    and h: "a \<le> h" "h < 76" "fptr (abs_fs f) i h = 0" "a < h \<Longrightarrow> 12 < h \<Longrightarrow> block_pointers i ! 12 \<noteq> 0"
    and full: "card (holes (abs_fs f) i a h) = card (free_blocks (abs_fs f))"
    and sl: "\<And>j. a \<le> j \<Longrightarrow> j \<le> h \<Longrightarrow> fst (slice sp (of_nat j)) = 0" "\<And>j. a \<le> j \<Longrightarrow> j \<le> h \<Longrightarrow> unat (snd (slice sp (of_nat j))) \<le> 512"
  defines "w \<equiv> written buf tmp (fblock (abs_fs f) i) sp"
  assumes def: "\<And>j. a \<le> j \<Longrightarrow> j \<le> h \<Longrightarrow> w j \<noteq> None"
  shows "\<exists>i' f'. write_loop f i sp buf tmp (map of_nat [a..<h] @ of_nat h # rest) = Some (-1, f') \<and>
    mounted f' \<and> names (abs_fs f') = names (abs_fs f) \<and> used (abs_fs f') = used (abs_fs f) \<and>
    others_same (abs_fs f) (abs_fs f') n \<and> a_inode (abs_fs f') n = i' \<and>
    file_stored (abs_fs f) i a h (\<lambda>k. the (w k)) (card (free_blocks (abs_fs f))) (abs_fs f') i'"
proof -
  have pr: "a < h \<Longrightarrow> fst (slice sp (of_nat a)) = 0 \<or> length tmp = BLOCK_SIZE"
    "\<And>j. a \<le> j \<Longrightarrow> j < h \<Longrightarrow> unat (snd (slice sp (of_nat j))) \<le> 512" "\<And>j. a < j \<Longrightarrow> j < h \<Longrightarrow> fst (slice sp (of_nat j)) = 0"
    using sl [of a] sl by simp_all
  have ind: "a < h \<and> 12 < h \<and> block_pointers i ! 12 = 0 \<longrightarrow> index_later (abs_fs f) i a" using h(4) by blast
  have full': "needed (abs_fs f) i a h = card (free_blocks (abs_fs f))" using full h(4) by (auto simp: needed_def)
  have nn: "\<not> (\<exists>j. a \<le> j \<and> j < h \<and> w j = None)" using def by (meson less_imp_le)
  note wl = write_loop_written [where buf = buf and rest = "of_nat h # rest",
      OF m n less_imp_le [OF h(2)] h(1) pr ind eq_imp_le [OF full'], folded w_def, unfolded if_not_P [OF nn]]
  obtain i2 f2 tmp2 where 2: "write_loop f i sp buf tmp (map of_nat [a..<h] @ of_nat h # rest) = write_loop f2 i2 sp buf tmp2 (of_nat h # rest)"
    "mounted f2" "names (abs_fs f2) = names (abs_fs f)" "used (abs_fs f2) = used (abs_fs f)" "others_same (abs_fs f) (abs_fs f2) n"
    "a_inode (abs_fs f2) n = i2" "file_stored (abs_fs f) i a h (\<lambda>k. the (w k)) (card (free_blocks (abs_fs f))) (abs_fs f2) i2"
    using wl unfolding full' by blast
  note st = 2(7) [unfolded file_stored_def]
  have "card (free_blocks (abs_fs f2)) = 0" using st by linarith
  then have fr: "free_blocks (abs_fs f2) = {}" "fptr (abs_fs f2) i2 h = 0"
    using finite_free_blocks [OF mountedD(2) [OF 2(2)]] st h(3) by simp_all
  have io: "inode_ok (abs_fs f2) i2" using mountedD(4) [OF 2(2)] n(1) 2(4,6) by (auto simp: files_ok_def)
  have "written buf tmp2 (fblock (abs_fs f2) i2) sp h = w h"
    unfolding w_def using st h(2) sl(1) [OF h(1) order_refl] by (intro written_cong) simp_all
  then obtain v where v: "written buf tmp2 (fblock (abs_fs f2) i2) sp h = Some v" using def [OF h(1) order_refl] by auto
  obtain f3 tmp3 where 3: "mounted f3" "abs_fs f3 = abs_fs f2"
    "write_loop f2 i2 sp buf tmp2 (of_nat h # rest) = do {
       (r, i', f') \<leftarrow> sfs_fs_inode_block_write f3 i2 (of_nat h) v;
       if r \<noteq> 0 then Some (-1, f') else write_loop f' i' sp buf tmp3 rest }"
    using write_loop_block(2) [OF 2(2) io h(2) disjI1 [OF sl(1) [OF h(1) order_refl]] sl(2) [OF h(1) order_refl] v] by blast
  have u: "unat (of_nat h :: u64) = h" using h(2) by (simp add: unat_of_nat_u64)
  obtain f4 where 4: "sfs_fs_inode_block_write f3 i2 (of_nat h) v = Some (-1, i2, f4)" "alloc_ok f4" "abs_fs f4 = abs_fs f3"
    using inode_block_write_hole [of f3 i2 "of_nat h" v] mountedD(2) [OF 3(1)] io fr h(2) 3(2) u by auto
  have "mounted f4" by (rule mounted_abs [OF 3(1) alloc_ok_fs [OF 4(2)] 4(3)])
  then show ?thesis using 2 3 4 by (intro exI [of _ i2] exI [of _ f4]) simp
qed

subsection \<open>The handler\<close>

lemma sfs_write_start:
  assumes so: "sys_ok s f p" and k: "in_use p k" "slot_cell (get_slot p k) = Inumber n" "n \<noteq> 1"
    and sz: "1 \<le> sz" "off + sz \<le> MAX_FILE"
  obtains f1 i1 where
    "sfs_write env buf (of_nat sz) (int off) (handle fi k) s = do {
       (r, f2) \<leftarrow> write_loop f1 i1 (request_span (of_nat sz) (int off)) buf (stack_block env)
                    (span_blocks (request_span (of_nat sz) (int off)));
       Some (if r \<noteq> 0 then -1 else int sz, s\<lparr>st_locked := False, st_fs := Some f2\<rparr>) }"
    "mounted f1" "names (abs_fs f1) = names (abs_fs f)" "used (abs_fs f1) = used (abs_fs f)"
    "others_same (abs_fs f) (abs_fs f1) n" "a_inode (abs_fs f1) n = i1"
    "unat (isize i1) = max (unat (isize (a_inode (abs_fs f) n))) (off + sz)"
    "links i1 = links (a_inode (abs_fs f) n)" "block_pointers i1 = block_pointers (a_inode (abs_fs f) n)"
    "fblock (abs_fs f1) i1 = fblock (abs_fs f) (a_inode (abs_fs f) n)"
    "fptr (abs_fs f1) i1 = fptr (abs_fs f) (a_inode (abs_fs f) n)" "free_blocks (abs_fs f1) = free_blocks (abs_fs f)"
    "used (abs_fs f) n" "same_free (abs_fs f) (abs_fs f1)"
proof -
  note st = io_start [OF so k] and sd = sys_okD [OF so]
  let ?A = "abs_fs f" and ?i = "a_inode (abs_fs f) n"
  let ?f0 = "tick (after_read f n)" and ?grow = "isize (a_inode (abs_fs f) n) < of_nat (off + sz)"
  define f0 where "f0 = (if ?grow then tick ?f0 else ?f0)"
  define i1 where "i1 = (if ?grow
      then ?i\<lparr>access_time := fs_now (after_read f n), change_time := fs_now ?f0, isize := of_nat (off + sz)\<rparr>
      else ?i\<lparr>access_time := fs_now (after_read f n)\<rparr>)"
  have s31: "sz < 2 ^ 31" using sz(2) by simp
  have 0: "mounted f0" "abs_fs f0 = ?A" using st(5,6) by (simp_all add: f0_def)
  have p: "used (abs_fs f0) n" "inumber i1 = n" "block_pointers i1 = block_pointers (a_inode (abs_fs f0) n)"
    "block_pointers i1 = block_pointers ?i"
    using st(3,7) 0(2) by (simp_all add: i1_def)
  note mm = meta_mounted [OF 0(1) p(1) k(3) p(2,3)]
  let ?f1 = "after_write f0 i1"
  have fb: "fblock (abs_fs ?f1) i1 = fblock ?A ?i" "fptr (abs_fs ?f1) i1 = fptr ?A ?i"
    using mm(7,9) 0(2) fblock_cong [of ?A ?A i1 ?i] fptr_cong [of ?A ?A i1 ?i] p(4) by simp_all
  have u: "unat (of_nat (off + sz) :: u64) = off + sz" using sz(2) by (intro unat_of_nat_u64) simp
  have isz: "unat (isize i1) = max (unat (isize ?i)) (off + sz)"
    unfolding i1_def using u by (simp add: word_less_nat_alt)
  have e: "(of_int (int off) + of_nat sz :: u64) = of_nat (off + sz)" by simp
  have "sfs_write env buf (of_nat sz) (int off) (handle fi k) s = do {
      (r, f2) \<leftarrow> write_loop ?f1 i1 (request_span (of_nat sz) (int off)) buf (stack_block env)
                   (span_blocks (request_span (of_nat sz) (int off)));
      Some (if r \<noteq> 0 then -1 else int sz, s\<lparr>st_locked := False, st_fs := Some f2\<rparr>) }"
  proof (cases ?grow)
    case True
    then show ?thesis
      using st(1,2,4) mm(1) sd(2,3) size_result [OF sz(1) s31] unfolding sfs_write_def e f0_def i1_def
      by (simp add: critical_def Let_def disk_access split: option.split Option.bind_split)
  next
    case False
    then show ?thesis
      using st(1,2,4) mm(1) sd(2,3) size_result [OF sz(1) s31] unfolding sfs_write_def e f0_def i1_def
      by (simp add: critical_def Let_def disk_access split: option.split Option.bind_split)
  qed
  moreover have "superblock f0 = superblock f" using 0(2) abs_fs_sel by metis
  then have "same_free ?A (abs_fs ?f1)" using mm(10,13) 0(2) by (simp add: same_free_def)
  ultimately show ?thesis using that [OF _ mm(2)] mm(3-6,8) 0(2) isz p(4) fb st(3) by (simp add: i1_def)
qed

text \<open>
  There is room for a write if the blocks it needs can be allocated and, where the file gets its index block, that block
  holds zeros.
\<close>

definition room_for :: "fs_abs \<Rightarrow> u64 \<Rightarrow> nat \<Rightarrow> nat \<Rightarrow> bool" where
  "room_for A n off sz \<longleftrightarrow>
     (let a = off div 512; m = (off + sz - 1) div 512 + 1; i = a_inode A n
      in (12 < m \<and> block_pointers i ! 12 = 0 \<longrightarrow> index_later A i a) \<and> needed A i a m \<le> card (free_blocks A))"

text \<open>Every write for which there is room, block by block; it is undefined if one of its blocks is.\<close>

lemma sfs_write_written:
  fixes env :: sfs_env and buf :: bytes
  assumes so: "sys_ok s f p" and k: "in_use p k" "slot_cell (get_slot p k) = Inumber n" "n \<noteq> 1"
    and sz: "1 \<le> sz" "off + sz \<le> MAX_FILE" and room: "room_for (abs_fs f) n off sz"
    and tmp: "off mod 512 = 0 \<or> length (stack_block env) = BLOCK_SIZE"
  defines "C \<equiv> fblock (abs_fs f) (a_inode (abs_fs f) n)" and "a \<equiv> off div 512" and "m \<equiv> (off + sz - 1) div 512"
  defines "w \<equiv> written buf (stack_block env) C (request_span (of_nat sz) (int off))"
  shows "if \<exists>j. a \<le> j \<and> j < m + 1 \<and> w j = None then sfs_write env buf (of_nat sz) (int off) (handle fi k) s = None
    else \<exists>s' f'. sfs_write env buf (of_nat sz) (int off) (handle fi k) s = Some (int sz, s') \<and>
      sys_ok s' f' p \<and> names (abs_fs f') = names (abs_fs f) \<and> only_changes (abs_fs f) (abs_fs f') n \<and>
      unat (isize (a_inode (abs_fs f') n)) = max (unat (isize (a_inode (abs_fs f) n))) (off + sz) \<and>
      (\<forall>j<76. fblock (abs_fs f') (a_inode (abs_fs f') n) j = (if a \<le> j \<and> j < m + 1 then the (w j) else C j))"
proof -
  let ?sp = "request_span (of_nat sz) (int off)" and ?A = "abs_fs f" and ?tmp = "stack_block env"
  obtain f1 i1 where 1: "sfs_write env buf (of_nat sz) (int off) (handle fi k) s = do {
       (r, f2) \<leftarrow> write_loop f1 i1 ?sp buf ?tmp (span_blocks ?sp);
       Some (if r \<noteq> 0 then -1 else int sz, s\<lparr>st_locked := False, st_fs := Some f2\<rparr>) }"
    "mounted f1" "names (abs_fs f1) = names ?A" "used (abs_fs f1) = used ?A"
    "others_same ?A (abs_fs f1) n" "a_inode (abs_fs f1) n = i1" "unat (isize i1) = max (unat (isize (a_inode ?A n))) (off + sz)"
    "links i1 = links (a_inode ?A n)" "block_pointers i1 = block_pointers (a_inode ?A n)" "fblock (abs_fs f1) i1 = C"
    "fptr (abs_fs f1) i1 = fptr ?A (a_inode ?A n)" "free_blocks (abs_fs f1) = free_blocks ?A" "used ?A n"
    "same_free ?A (abs_fs f1)"
    unfolding C_def by (rule sfs_write_start [OF so k sz, of env buf fi])
  note sl = slice_eq [OF sz, folded a_def m_def]
  have sb: "span_blocks ?sp = map of_nat [a..<Suc m]" using span_blocks_eq [OF sz] by (simp add: a_def m_def)
  have am: "a \<le> m" unfolding a_def m_def using sz(1) by (intro div_le_mono) simp
  have m76: "Suc m \<le> 76" unfolding m_def using sz less_mult_imp_div_less [of "off + sz - 1" 76 512] by simp
  have s1: "unat (snd (slice ?sp (of_nat j))) \<le> 512" if "a \<le> j" "j < Suc m" for j
    using sl [of j] that(2) by (auto simp: unat_of_nat_u64 Suc_le_eq simp del: of_nat_Suc of_nat_add)
  have s2: "fst (slice ?sp (of_nat j)) = 0" if "a < j" "j < Suc m" for j using sl [of j] that by simp
  have s3: "fst (slice ?sp (of_nat a)) = 0 \<or> length ?tmp = BLOCK_SIZE" using sl [OF am] tmp by auto
  have h: "needed (abs_fs f1) i1 a (Suc m) = needed ?A (a_inode ?A n) a (Suc m)" by (simp add: needed_def holes_def 1(9,11))
  have rm: "12 < Suc m \<and> block_pointers (a_inode ?A n) ! 12 = 0 \<longrightarrow> index_later ?A (a_inode ?A n) a"
    "needed ?A (a_inode ?A n) a (Suc m) \<le> card (free_blocks ?A)"
    using room unfolding room_for_def Let_def by (simp_all add: a_def m_def)
  have rm1: "needed (abs_fs f1) i1 a (Suc m) \<le> card (free_blocks (abs_fs f1))" using rm(2) h 1(12) by simp
  have il: "a < Suc m \<and> 12 < Suc m \<and> block_pointers i1 ! 12 = 0 \<longrightarrow> index_later (abs_fs f1) i1 a"
  proof
    assume that: "a < Suc m \<and> 12 < Suc m \<and> block_pointers i1 ! 12 = 0"
    then have "card (holes ?A (a_inode ?A n) a 12) \<le> card (free_blocks ?A)"
      using rm(2) holes_within [of "Suc m" ?A "a_inode ?A n" a] by (simp add: needed_def)
    from index_later_frame [OF alloc_ok_space [OF mountedD(2) [OF sys_okD(4) [OF so]]] 1(14,11) this] rm(1) that 1(9)
    show "index_later (abs_fs f1) i1 a" by simp
  qed
  have u1: "used (abs_fs f1) n" using 1(4,13) by simp
  note wl = write_loop_written [where buf = buf and rest = "[]", OF 1(2) u1 k(3) 1(6) m76 _ s3 s1 s2 il rm1, unfolded 1(10), folded w_def]
  show ?thesis
  proof (cases "\<exists>j. a \<le> j \<and> j < Suc m \<and> w j = None")
    case True
    then show ?thesis using wl am 1(1) sb by auto
  next
    case False
    note wl = wl [unfolded if_not_P [OF False] append_Nil2 sb [symmetric]]
    obtain i2 f2 where 2: "write_loop f1 i1 ?sp buf ?tmp (span_blocks ?sp) = Some (0, f2)" "mounted f2"
      "names (abs_fs f2) = names (abs_fs f1)" "used (abs_fs f2) = used (abs_fs f1)" "others_same (abs_fs f1) (abs_fs f2) n"
      "a_inode (abs_fs f2) n = i2"
      "file_stored (abs_fs f1) i1 a (Suc m) (\<lambda>j. the (w j)) (needed (abs_fs f1) i1 a (Suc m)) (abs_fs f2) i2"
      using wl am by auto
    note st = 2(7) [unfolded file_stored_def 1(10)]
    have ot: "others_same ?A (abs_fs f2) n" by (rule others_same_trans [OF 1(5) 2(5)])
    have "sys_ok (s\<lparr>st_locked := False, st_fs := Some f2\<rparr>) f2 p"
      by (rule io_sys_ok [OF so 2(2) _ _ ot _ 1(13)]) (use 1(3,4,8) 2(3,4,6) st in simp_all)
    moreover have "only_changes ?A (abs_fs f2) n" by (rule only_changes_used [OF ot]) (use 1(4) 2(4) in simp)
    moreover have "isize i2 = isize i1" "\<forall>j<76. fblock (abs_fs f2) i2 j = (if a \<le> j \<and> j < m + 1 then the (w j) else C j)"
      using st by simp_all
    ultimately show ?thesis
      using False 1(1,3,7) 2(1,3,6) by (auto intro!: exI [of _ "s\<lparr>st_locked := False, st_fs := Some f2\<rparr>"] exI [of _ f2])
  qed
qed

end
