(* ===== verification/File_Write.thy ===== *)
theory File_Write
  imports File_Request File_Io_Write
begin

text \<open>
  Writes at any offset: what \<^verbatim>\<open>sfs_write\<close> makes of the bytes of the file, as a function of the
  request, the buffer and what is on the stack.
\<close>

unbundle bit_operations_syntax

subsection \<open>Blocks and bytes\<close>

lemma concat_replaced:
  assumes C: "\<And>j. length (C j) = 512" and ab: "a \<le> b" "b \<le> 76"
    and D: "\<forall>j<76. D j = (if a \<le> j \<and> j < b then v j else C j)"
  defines "F \<equiv> concat (map C [0..<76])"
  shows "concat (map D [0..<76]) = take (512 * a) F @ concat (map v [a..<b]) @ drop (512 * b) F"
proof -
  have "[0..<76] = [0..<a] @ [a..<b] @ [b..<76]"
    using ab upt_add_eq_append [of 0 a "76 - a"] upt_add_eq_append [of a b "76 - b"] by simp
  moreover have "map D [0..<a] = map C [0..<a]" "map D [a..<b] = map v [a..<b]" "map D [b..<76] = map C [b..<76]"
    using D ab by simp_all
  moreover have "take (512 * a) F = concat (map C [0..<a])" "drop (512 * b) F = concat (map C [b..<76])"
    unfolding F_def using ab by (simp_all only: concat_blocks_split(2,3) [of C _ 76, OF C] order_trans [OF ab])
  ultimately show ?thesis by (simp only: map_append concat_append)
qed

lemma concat_slices:
  assumes "x \<le> 512 * a" "a \<le> b" "512 * b \<le> length buf + x"
  shows "concat (map (\<lambda>j. get_bytes (512 * j - x) 512 buf) [a..<b]) = take (512 * (b - a)) (drop (512 * a - x) buf)"
  using assms(2,3)
proof (induction b rule: dec_induct)
  case base
  then show ?case by simp
next
  case (step b)
  have o: "512 * b - x = 512 * (b - a) + (512 * a - x)" and s: "512 * (Suc b - a) = 512 * (b - a) + 512"
    using assms(1) step.hyps(1) by simp_all
  have "concat (map (\<lambda>j. get_bytes (512 * j - x) 512 buf) [a..<Suc b]) =
      take (512 * (b - a)) (drop (512 * a - x) buf) @ take 512 (drop (512 * (b - a)) (drop (512 * a - x) buf))"
    using step by (simp add: get_bytes_def o drop_drop)
  then show ?case unfolding s take_add .
qed

subsection \<open>The blocks of a request\<close>

text \<open>A block can be taken from the buffer exactly if it could be placed into it.\<close>

lemma written_fits:
  assumes "k < 76" "unat (snd (slice sp (of_nat k))) \<le> 512"
  shows "written buf tmp C sp k = None \<longleftrightarrow> \<not> fits (length buf) sp (of_nat k)"
  using assms by (auto simp: written_def fits_def peek_def uint_of_nat_u64 split: prod.splits if_splits)

lemma written_part:
  assumes sz: "1 \<le> sz" "off + sz \<le> MAX_FILE" "sz \<le> length buf" and r: "off mod 512 = 0" "sz < 512"
  shows "written buf tmp C (request_span (of_nat sz) (int off)) (off div 512) = Some (put_bytes 0 (take sz buf) (C (off div 512)))"
proof -
  note p = slice_parts [OF sz(1,2)] and pb = part_of_block [OF sz(1) r(2,1)]
  have u: "unat (of_nat sz :: u64) = sz" "(of_nat sz :: u64) \<noteq> 512"
    using sz r(2) of_nat_u64_eq [of sz 512] by (simp_all add: unat_of_nat_u64)
  have "slice (request_span (of_nat sz) (int off)) (of_nat (off div 512)) = (0, of_nat sz)"
    using p(1) unfolding pb(1,2) r(1) by simp
  then show ?thesis using u p(7) sz(3) r(1) by (simp add: written_def peek_def get_bytes_def)
qed

lemma written_stack:
  assumes sz: "1 \<le> sz" "off + sz \<le> MAX_FILE" and r: "off mod 512 \<noteq> 0"
  shows "written buf tmp C (request_span (of_nat sz) (int off)) (off div 512) = Some tmp"
proof -
  have "(of_nat (off mod 512) :: u64) \<noteq> 0" using of_nat_u64_nonzero [of "off mod 512"] r by simp
  then show ?thesis using slice_parts(1) [OF sz] by (simp add: written_def split: if_splits)
qed

lemma written_whole:
  assumes sz: "1 \<le> sz" "off + sz \<le> MAX_FILE" "sz \<le> length buf" and k: "k < 76" "slice (request_span (of_nat sz) (int off)) (of_nat k) = (0, 512)"
    and fit: "off mod 512 \<le> 512 * k" "512 * k + 512 \<le> sz + off mod 512"
  shows "written buf tmp C (request_span (of_nat sz) (int off)) k = Some (get_bytes (512 * k - off mod 512) 512 buf)"
proof -
  have "nat (512 * int k - int (off mod 512)) = 512 * k - off mod 512" using fit(1) by linarith
  then show ?thesis
    using slice_parts(7) [OF sz(1,2)] k sz(3) fit by (simp add: written_def peek_def)
qed

lemma block_tail:
  assumes "\<And>k. length (C k) = 512" "x < 76" "r \<le> 512"
  defines "F \<equiv> concat (map C [0..<76])"
  shows "drop r (C x) @ drop (512 * Suc x) F = drop (512 * x + r) F"
proof -
  have "C x @ drop (512 * Suc x) F = drop (512 * x) F"
    using append_take_drop_id [of 512 "drop (512 * x) F"] block_slice [of C x, OF assms(1,2)]
    unfolding F_def by (simp add: add.commute)
  then have "drop r (C x @ drop (512 * Suc x) F) = drop (512 * x + r) F" by (simp add: add.commute)
  then show ?thesis using assms(1) [of x] assms(3) by simp
qed

subsection \<open>The result of a write\<close>

text \<open>
  The bytes \<open>F\<close> of the file, a request for \<open>sz\<close> bytes at \<open>off\<close>, its buffer and the contents of the variable
  \<^verbatim>\<open>tmp_block\<close> before it is set: a block that is written whole is taken from the buffer by its number in the
  file, the part of the last block from the start of the buffer, and a first block that starts with an
  offset is replaced by \<^verbatim>\<open>tmp_block\<close>. \<open>None\<close> is an access outside the buffer.
\<close>

definition write_outcome :: "nat \<Rightarrow> nat \<Rightarrow> bytes \<Rightarrow> bytes \<Rightarrow> bytes \<Rightarrow> bytes option" where
  "write_outcome off sz F buf tmp =
     (let a = off mod 512; b = off - a; e = off + sz; q = sz div 512; r = sz mod 512
      in if a = 0
         then (if sz < 512 then Some (take off F @ take sz buf @ drop e F)
               else if off = 0 then Some (take (512 * q) buf @ take r buf @ drop e F)
               else None)
         else if a + sz \<le> 512 then Some (take b F @ tmp @ drop (b + 512) F)
         else if off < 512 \<and> e mod 512 = 0 then Some (tmp @ take (e - 512) (drop (512 - a) buf) @ drop e F)
         else None)"

lemma regular_write_outcome:
  assumes "regular off sz"
  shows "write_outcome off sz F buf tmp = Some (take off F @ take sz buf @ drop (off + sz) F)"
  using assms by (auto simp: regular_def write_outcome_def Let_def)

text \<open>The file with the blocks of the request replaced.\<close>

definition replaced :: "(nat \<Rightarrow> bytes) \<Rightarrow> (nat \<Rightarrow> bytes option) \<Rightarrow> nat \<Rightarrow> nat \<Rightarrow> bytes option" where
  "replaced C w a b =
     (if \<exists>j. a \<le> j \<and> j < b \<and> w j = None then None
      else Some (take (512 * a) (concat (map C [0..<76])) @ concat (map (\<lambda>j. the (w j)) [a..<b]) @ drop (512 * b) (concat (map C [0..<76]))))"

lemma replacedI:
  assumes "\<And>j. a \<le> j \<Longrightarrow> j < b \<Longrightarrow> w j = Some (v j)"
  shows "replaced C w a b = Some (take (512 * a) (concat (map C [0..<76])) @ concat (map v [a..<b]) @ drop (512 * b) (concat (map C [0..<76])))"
proof -
  have "map (\<lambda>j. the (w j)) [a..<b] = map v [a..<b]" "\<not> (\<exists>j. a \<le> j \<and> j < b \<and> w j = None)" using assms by auto
  then show ?thesis by (simp only: replaced_def if_False)
qed

lemma replaced_part:
  assumes C: "\<And>k. length (C k) = 512" and sz: "1 \<le> sz" "off + sz \<le> MAX_FILE" "sz \<le> length buf" and r: "off mod 512 = 0" "sz < 512"
  shows "replaced C (written buf tmp C (request_span (of_nat sz) (int off))) (off div 512) ((off + sz - 1) div 512 + 1) =
    write_outcome off sz (concat (map C [0..<76])) buf tmp"
proof -
  note pb = part_of_block [OF sz(1) r(2,1)]
  let ?b = "off div 512" and ?F = "concat (map C [0..<76])"
  have b: "?b < 76" using slice_parts(4,5) [OF sz(1,2)] by simp
  have "replaced C (written buf tmp C (request_span (of_nat sz) (int off))) ?b (?b + 1) =
      Some (take (512 * ?b) ?F @ concat (map (\<lambda>j. put_bytes 0 (take sz buf) (C j)) [?b..<?b + 1]) @ drop (512 * (?b + 1)) ?F)"
    using written_part [OF sz r, where C = C and tmp = tmp] by (intro replacedI) (auto dest: le_antisym simp: less_Suc_eq_le)
  moreover have "drop sz (C ?b) @ drop (512 * (?b + 1)) ?F = drop (off + sz) ?F"
    using block_tail [of C ?b sz, OF C b] r(2) pb(3) by simp
  ultimately show ?thesis
    using r pb(3) sz(3) unfolding pb(1) by (simp add: write_outcome_def put_bytes_def)
qed

lemma replaced_start:
  assumes C: "\<And>k. length (C k) = 512" and sz: "1 \<le> sz" "sz \<le> MAX_FILE" "sz \<le> length buf" and big: "512 \<le> sz"
  shows "replaced C (written buf tmp C (request_span (of_nat sz) 0)) 0 ((sz - 1) div 512 + 1) =
    write_outcome 0 sz (concat (map C [0..<76])) buf tmp"
proof -
  define q where "q = sz div 512"
  define r where "r = sz mod 512"
  let ?w = "written buf tmp C (request_span (of_nat sz) 0)" and ?F = "concat (map C [0..<76])"
  note lb = last_blocks [OF sz(1,2), folded q_def r_def] and sl = slice_start [OF sz(1,2), folded q_def r_def]
  have e: "512 * q + r = sz" "r < 512" by (simp_all add: q_def r_def)
  have whole: "?w j = Some (get_bytes (512 * j) 512 buf)" if "j < q" for j
  proof -
    have "512 * j + 512 \<le> length buf" using that lb(6) sz(3) by simp
    then show ?thesis using sl(1) [OF that] sl(3) by (simp add: written_def peek_def nat_mult_distrib)
  qed
  have slices: "concat (map (\<lambda>j. get_bytes (512 * j) 512 buf) [0..<q]) = take (512 * q) buf"
    using concat_slices [of 0 0 q buf] lb(6) sz(3) by simp
  show ?thesis
  proof (cases "r = 0")
    case True
    then have m: "(sz - 1) div 512 + 1 = q" using last_block_whole(2) [of sz] lb(2) sz(1) unfolding q_def r_def by simp
    have "replaced C ?w 0 q = Some (take (512 * 0) ?F @ concat (map (\<lambda>j. get_bytes (512 * j) 512 buf) [0..<q]) @ drop (512 * q) ?F)"
      by (rule replacedI) (rule whole)
    then show ?thesis unfolding m slices using True big e by (simp add: write_outcome_def r_def q_def)
  next
    case False
    have m: "(sz - 1) div 512 + 1 = Suc q" using last_block_part(2) [of sz] False unfolding q_def r_def by simp
    have "unat (of_nat r :: u64) = r" "(of_nat r :: u64) \<noteq> 512" "r \<le> sz"
      using of_nat_u64_eq [of r 512] by (simp_all add: r_def unat_of_nat_u64)
    then have part: "?w q = Some (put_bytes 0 (take r buf) (C q))"
      using sl(2) [OF False] sl(3) sz(3) by (simp add: written_def peek_def get_bytes_def)
    let ?v = "\<lambda>j. if j < q then get_bytes (512 * j) 512 buf else put_bytes 0 (take r buf) (C j)"
    have rep: "replaced C ?w 0 (Suc q) = Some (take (512 * 0) ?F @ concat (map ?v [0..<Suc q]) @ drop (512 * Suc q) ?F)"
      using whole part by (intro replacedI) (auto simp: less_Suc_eq)
    have "map ?v [0..<q] = map (\<lambda>j. get_bytes (512 * j) 512 buf) [0..<q]" by simp
    then have "concat (map ?v [0..<q]) = take (512 * q) buf" using slices by (simp only:)
    then have con: "concat (map ?v [0..<Suc q]) = take (512 * q) buf @ take r buf @ drop r (C q)"
      using e sz(3) by (simp add: put_bytes_def del: map_eq_conv)
    have tail: "drop r (C q) @ drop (512 * Suc q) ?F = drop (512 * q + r) ?F"
      using lb(4) False e(2) by (intro block_tail [of C q r, OF C]) simp_all
    show ?thesis
      unfolding m rep con append_assoc tail unfolding e(1) using big by (simp add: write_outcome_def r_def q_def)
  qed
qed

lemma replaced_stack:
  assumes sz: "1 \<le> sz" "off + sz \<le> MAX_FILE" and r: "off mod 512 \<noteq> 0" "off mod 512 + sz \<le> 512"
  shows "replaced C (written buf tmp C (request_span (of_nat sz) (int off))) (off div 512) ((off + sz - 1) div 512 + 1) =
    write_outcome off sz (concat (map C [0..<76])) buf tmp"
proof -
  let ?a = "off mod 512" and ?b = "off div 512" and ?F = "concat (map C [0..<76])"
  have e: "off + sz - 1 = (?a + sz - 1) + ?b * 512" using sz(1) by simp
  have m: "(off + sz - 1) div 512 = ?b" unfolding e using r(2) sz(1) by (subst div_mult_self1) simp_all
  have "replaced C (written buf tmp C (request_span (of_nat sz) (int off))) ?b (?b + 1) =
      Some (take (512 * ?b) ?F @ concat (map (\<lambda>j. tmp) [?b..<?b + 1]) @ drop (512 * (?b + 1)) ?F)"
    using written_stack [OF sz r(1), where C = C and tmp = tmp and buf = buf] by (intro replacedI) (auto dest: le_antisym simp: less_Suc_eq_le)
  moreover have "off - ?a = 512 * ?b" by (simp add: minus_mod_eq_mult_div)
  ultimately show ?thesis unfolding m using r by (simp add: write_outcome_def Let_def add.commute)
qed

lemma replaced_first_cut:
  assumes C: "\<And>k. length (C k) = 512" and sz: "1 \<le> sz" "off + sz \<le> MAX_FILE" "sz \<le> length buf"
    and r: "off mod 512 \<noteq> 0" "512 < off mod 512 + sz" "off < 512" "(off + sz) mod 512 = 0"
  shows "replaced C (written buf tmp C (request_span (of_nat sz) (int off))) (off div 512) ((off + sz - 1) div 512 + 1) =
    write_outcome off sz (concat (map C [0..<76])) buf tmp"
proof -
  let ?sp = "request_span (of_nat sz) (int off)" and ?F = "concat (map C [0..<76])"
  have o: "off mod 512 = off" "off div 512 = 0" using r(3) by simp_all
  define m where "m = (off + sz - 1) div 512"
  have e0: "0 < off + sz" using sz(1) by simp
  note lw = last_block_whole [OF r(4)]
  have ml: "(off + sz - 1) mod 512 + 1 = 512" "m + 1 = (off + sz) div 512" using lw(1,2,3) [OF e0] by (simp_all add: m_def)
  then have e: "512 * (m + 1) = off + sz" using r(4) by (metis dvd_mult_div_cancel mod_0_imp_dvd)
  have bm: "0 < m" using e r(2) o(1) by (cases m) simp_all
  note p = slice_parts [OF sz(1,2), folded m_def, unfolded ml(1) o]
  let ?v = "\<lambda>j. if j = 0 then tmp else get_bytes (512 * j - off) 512 buf"
  have w: "written buf tmp C ?sp j = Some (?v j)" if "0 \<le> j" "j < m + 1" for j
  proof (cases "j = 0")
    case True
    then show ?thesis using written_stack [OF sz(1,2) r(1), where C = C and tmp = tmp and buf = buf] o(2) by simp
  next
    case False
    have "slice ?sp (of_nat j) = (0, 512)" using p(2) [of j] p(3) [OF bm] False that(2) by (cases "j = m") simp_all
    moreover have "512 * j + 512 \<le> sz + off" using that(2) e by simp
    ultimately show ?thesis using written_whole [OF sz, of j tmp C] False o(1) r(3) p(5) that(2) by simp
  qed
  have "concat (map ?v [1..<m + 1]) = concat (map (\<lambda>j. get_bytes (512 * j - off) 512 buf) [1..<m + 1])"
    by (intro arg_cong [where f = concat] map_cong refl) auto
  also have "\<dots> = take (512 * (m + 1 - 1)) (drop (512 * 1 - off) buf)"
    using r(3) bm e sz(3) by (intro concat_slices) simp_all
  also have "512 * (m + 1 - 1) = off + sz - 512" using arg_cong [OF e, of "\<lambda>x. x - 512"] by simp
  finally have c: "concat (map ?v [1..<m + 1]) = take (off + sz - 512) (drop (512 - off) buf)" by simp
  have "replaced C (written buf tmp C ?sp) 0 (m + 1) = Some (take (512 * 0) ?F @ concat (map ?v [0..<m + 1]) @ drop (512 * (m + 1)) ?F)"
    using w by (rule replacedI)
  moreover have "[0..<m + 1] = 0 # [1..<m + 1]" by (simp add: upt_conv_Cons)
  ultimately show ?thesis
    unfolding m_def [symmetric] using r o c e by (simp add: write_outcome_def Let_def)
qed

lemma replaced_misfit:
  assumes sz: "1 \<le> sz" "off + sz \<le> MAX_FILE" "length buf = sz"
    and r: "off mod 512 = 0 \<and> 512 \<le> off \<and> 512 \<le> sz \<or>
      off mod 512 \<noteq> 0 \<and> 512 < off mod 512 + sz \<and> \<not> (off < 512 \<and> (off + sz) mod 512 = 0)"
  shows "replaced C (written buf tmp C (request_span (of_nat sz) (int off))) (off div 512) ((off + sz - 1) div 512 + 1) = None"
proof -
  let ?sp = "request_span (of_nat sz) (int off)" and ?Z = "\<lambda>_ :: nat. replicate 512 0 :: bytes"
  have Z: "\<And>k. length (?Z k) = 512" by simp
  note p = slice_parts [OF sz(1,2)]
  have "\<exists>j\<in>set (span_blocks ?sp). \<not> fits (length buf) ?sp j"
    using read_misfit [of ?Z, OF Z sz r] copy_blocks_fits [of ?Z, OF Z] by blast
  then obtain k where k: "off div 512 \<le> k" "k < (off + sz - 1) div 512 + 1" "\<not> fits (length buf) ?sp (of_nat k)"
    unfolding p(6) by auto
  have "unat (snd (slice ?sp (of_nat k))) \<le> 512"
    using slice_eq [OF sz(1,2), of k] k(2) by (auto simp: unat_of_nat_u64 Suc_le_eq simp del: of_nat_Suc of_nat_add)
  then have "written buf tmp C ?sp k = None" using written_fits [of k] k(2,3) p(5) by simp
  then show ?thesis using k(1,2) by (auto simp: replaced_def)
qed

lemma replaced_outcome:
  assumes C: "\<And>k. length (C k) = 512" and sz: "1 \<le> sz" "off + sz \<le> MAX_FILE" "sz \<le> length buf" and l: "regular off sz \<or> length buf = sz"
  shows "replaced C (written buf tmp C (request_span (of_nat sz) (int off))) (off div 512) ((off + sz - 1) div 512 + 1) =
    write_outcome off sz (concat (map C [0..<76])) buf tmp"
proof -
  consider "off mod 512 = 0" "sz < 512" | "off = 0" "512 \<le> sz" | "off mod 512 = 0" "512 \<le> off" "512 \<le> sz"
    | "off mod 512 \<noteq> 0" "off mod 512 + sz \<le> 512"
    | "off mod 512 \<noteq> 0" "512 < off mod 512 + sz" "off < 512 \<and> (off + sz) mod 512 = 0"
    | "off mod 512 \<noteq> 0" "512 < off mod 512 + sz" "\<not> (off < 512 \<and> (off + sz) mod 512 = 0)"
  proof -
    have "512 \<le> off" if "off mod 512 = 0" "off \<noteq> 0" using that by (cases "off < 512") simp_all
    then show ?thesis using that by (metis not_le)
  qed
  then show ?thesis
  proof cases
    case 1
    then show ?thesis by (rule replaced_part [of C, OF C sz])
  next
    case 2
    then show ?thesis using replaced_start [of C, OF C sz(1) _ sz(3)] sz(2) by simp
  next
    case 3
    then have "length buf = sz" using l by (auto simp: regular_def)
    then show ?thesis using 3 replaced_misfit [OF sz(1,2)] by (simp add: write_outcome_def)
  next
    case 4
    then show ?thesis by (rule replaced_stack [OF sz(1,2)])
  next
    case 5
    then show ?thesis by (intro replaced_first_cut [of C, OF C sz]) simp_all
  next
    case 6
    then have "length buf = sz" using l by (auto simp: regular_def)
    then show ?thesis using 6 replaced_misfit [OF sz(1,2)] by (simp add: write_outcome_def Let_def)
  qed
qed

subsection \<open>The handler\<close>

text \<open>Every write inside the blocks a file can have for which there is room.\<close>

lemma sfs_write_outcome:
  assumes so: "sys_ok s f p" and k: "in_use p k" "slot_cell (get_slot p k) = Inumber n" "n \<noteq> 1"
    and sz: "1 \<le> sz" "off + sz \<le> MAX_FILE" "sz \<le> length buf" and l: "regular off sz \<or> length buf = sz"
    and room: "room_for (abs_fs f) n off sz" and tmp: "off mod 512 = 0 \<or> length (stack_block env) = BLOCK_SIZE"
  defines "F \<equiv> file_bytes (abs_fs f) n"
  shows "case write_outcome off sz F buf (stack_block env) of
      None \<Rightarrow> sfs_write env buf (of_nat sz) (int off) (handle fi k) s = None
    | Some F' \<Rightarrow> \<exists>s' f'. sfs_write env buf (of_nat sz) (int off) (handle fi k) s = Some (int sz, s') \<and>
        sys_ok s' f' p \<and> names (abs_fs f') = names (abs_fs f) \<and> only_changes (abs_fs f) (abs_fs f') n \<and>
        unat (isize (a_inode (abs_fs f') n)) = max (unat (isize (a_inode (abs_fs f) n))) (off + sz) \<and> file_bytes (abs_fs f') n = F'"
proof -
  let ?C = "fblock (abs_fs f) (a_inode (abs_fs f) n)" and ?b = "(off + sz - 1) div 512 + 1"
  let ?w = "written buf (stack_block env) ?C (request_span (of_nat sz) (int off))"
  have m: "mounted f" "used (abs_fs f) n" using sys_okD(4) [OF so] io_start(3) [OF so k] by simp_all
  have C: "\<And>j. length (?C j) = 512" by (rule fblock_lengths [OF m])
  have out: "write_outcome off sz F buf (stack_block env) = replaced ?C ?w (off div 512) ?b"
    unfolding F_def file_bytes_def by (rule replaced_outcome [of ?C, OF C sz l, symmetric])
  have b: "off div 512 \<le> ?b" "?b \<le> 76" using slice_parts(4,5) [OF sz(1,2)] by simp_all
  note w = sfs_write_written [OF so k sz(1,2) room tmp, of buf fi]
  show ?thesis
  proof (cases "\<exists>j. off div 512 \<le> j \<and> j < ?b \<and> ?w j = None")
    case True
    then show ?thesis using w unfolding out replaced_def by (simp only: if_True option.case)
  next
    case False
    then obtain s' f' where 1: "sfs_write env buf (of_nat sz) (int off) (handle fi k) s = Some (int sz, s')"
      "sys_ok s' f' p" "names (abs_fs f') = names (abs_fs f)" "only_changes (abs_fs f) (abs_fs f') n"
      "unat (isize (a_inode (abs_fs f') n)) = max (unat (isize (a_inode (abs_fs f) n))) (off + sz)"
      "\<forall>j<76. fblock (abs_fs f') (a_inode (abs_fs f') n) j = (if off div 512 \<le> j \<and> j < ?b then the (?w j) else ?C j)"
      using w by (simp only: if_False) blast
    have "replaced ?C ?w (off div 512) ?b = Some (file_bytes (abs_fs f') n)"
      unfolding replaced_def if_not_P [OF False] file_bytes_def [of "abs_fs f'"] concat_replaced [OF C b 1(6)] ..
    then show ?thesis using 1(1-5) unfolding out by auto
  qed
qed

subsection \<open>No space left\<close>

lemma written_regular:
  assumes C: "\<And>k. length (C k) = 512" and sz: "1 \<le> sz" "off + sz \<le> MAX_FILE" "sz \<le> length buf" "regular off sz"
    and j: "off div 512 \<le> j" "j \<le> (off + sz - 1) div 512"
  defines "sp \<equiv> request_span (of_nat sz) (int off)"
  shows "fst (slice sp (of_nat j)) = 0" "unat (snd (slice sp (of_nat j))) \<le> 512" "written buf tmp C sp j \<noteq> None"
    "j < (off + sz - 1) div 512 \<Longrightarrow> written buf tmp C sp j = Some (get_bytes (512 * j - off) 512 buf)"
proof -
  let ?a = "off div 512" and ?m = "(off + sz - 1) div 512"
  note sl = slice_eq [OF sz(1,2) j(2), folded sp_def]
  have o: "off mod 512 = 0" using sz(4) by (auto simp: regular_def)
  show "fst (slice sp (of_nat j)) = 0" using sl o by auto
  show "unat (snd (slice sp (of_nat j))) \<le> 512"
    using sl by (auto simp: unat_of_nat_u64 Suc_le_eq simp del: of_nat_Suc of_nat_add)
  have "replaced C (written buf tmp C sp) ?a (?m + 1) \<noteq> None"
    unfolding sp_def replaced_outcome [of C, OF C sz(1-3) disjI1 [OF sz(4)]] regular_write_outcome [OF sz(4)] by simp
  then have "\<not> (\<exists>j. ?a \<le> j \<and> j < ?m + 1 \<and> written buf tmp C sp j = None)" unfolding replaced_def by metis
  then show "written buf tmp C sp j \<noteq> None" using j by (metis less_Suc_eq_le Suc_eq_plus1)
  assume m: "j < ?m"
  have "slice sp (of_nat j) = (0, 512)" using sl o m by simp
  moreover have "512 * j + 512 \<le> off + sz - 1" using m less_eq_div_iff_mult_less_eq [of 512 "j + 1" "off + sz - 1"] by simp
  moreover have "off = 0"
  proof (rule ccontr)
    assume "off \<noteq> 0"
    then have "sz < 512" using sz(4) by (auto simp: regular_def)
    then have "?m = ?a" using part_of_block(1) [OF sz(1) _ o] by simp
    then show False using j(1) m by simp
  qed
  moreover have "j < 76" using m slice_parts(5) [OF sz(1,2)] by simp
  ultimately show "written buf tmp C sp j = Some (get_bytes (512 * j - off) 512 buf)"
    using written_whole [OF sz(1-3), of j tmp C] by (simp add: sp_def)
qed

text \<open>
  A regular write that reaches a hole, block \<open>h\<close>, when the last free block is taken stores what comes before it,
  reports an error, and leaves the file with the size it would have had.
\<close>

lemma sfs_write_hole:
  fixes env :: sfs_env and buf :: bytes
  assumes so: "sys_ok s f p" and k: "in_use p k" "slot_cell (get_slot p k) = Inumber n" "n \<noteq> 1"
    and sz: "1 \<le> sz" "off + sz \<le> MAX_FILE" "sz \<le> length buf" "regular off sz"
  defines "i \<equiv> a_inode (abs_fs f) n" and "F \<equiv> file_bytes (abs_fs f) n"
  assumes h: "off div 512 \<le> h" "h \<le> (off + sz - 1) div 512" "fptr (abs_fs f) i h = 0" "off div 512 < h \<Longrightarrow> 12 < h \<Longrightarrow> block_pointers i ! 12 \<noteq> 0"
    and full: "card (holes (abs_fs f) i (off div 512) h) = card (free_blocks (abs_fs f))"
  shows "\<exists>s' f'. sfs_write env buf (of_nat sz) (int off) (handle fi k) s = Some (-1, s') \<and>
    sys_ok s' f' p \<and> names (abs_fs f') = names (abs_fs f) \<and> only_changes (abs_fs f) (abs_fs f') n \<and>
    unat (isize (a_inode (abs_fs f') n)) = max (unat (isize i)) (off + sz) \<and>
    file_bytes (abs_fs f') n = take off F @ take (512 * h - off) buf @ drop (512 * h) F"
proof -
  let ?sp = "request_span (of_nat sz) (int off)" and ?A = "abs_fs f" and ?a = "off div 512" and ?m = "(off + sz - 1) div 512"
  let ?tmp = "stack_block env" and ?C = "fblock ?A i"
  let ?w = "written buf ?tmp ?C ?sp" and ?rest = "map of_nat [Suc h..<?m + 1]"
  obtain f1 i1 where 1: "sfs_write env buf (of_nat sz) (int off) (handle fi k) s = do {
       (r, f2) \<leftarrow> write_loop f1 i1 ?sp buf ?tmp (span_blocks ?sp);
       Some (if r \<noteq> 0 then -1 else int sz, s\<lparr>st_locked := False, st_fs := Some f2\<rparr>) }"
    "mounted f1" "names (abs_fs f1) = names ?A" "used (abs_fs f1) = used ?A"
    "others_same ?A (abs_fs f1) n" "a_inode (abs_fs f1) n = i1" "unat (isize i1) = max (unat (isize i)) (off + sz)"
    "links i1 = links i" "block_pointers i1 = block_pointers i" "fblock (abs_fs f1) i1 = ?C"
    "fptr (abs_fs f1) i1 = fptr ?A i" "free_blocks (abs_fs f1) = free_blocks ?A" "used ?A n"
    unfolding i_def by (rule sfs_write_start [OF so k sz(1,2), of env buf fi])
  have C: "\<And>j. length (?C j) = 512" using fblock_lengths [of f n] sys_okD(4) [OF so] 1(13) unfolding i_def by simp
  note p = slice_parts [OF sz(1,2)] and wr = written_regular [of ?C, OF C sz]
  have h76: "h < 76" using h(2) p(5) by simp
  have "[?a..<?m + 1] = [?a..<h] @ h # [Suc h..<?m + 1]"
    using h(1,2) upt_add_eq_append [of ?a h "?m + 1 - h"] by (simp add: upt_conv_Cons)
  then have sb: "span_blocks ?sp = map of_nat [?a..<h] @ of_nat h # ?rest" unfolding p(6) by simp
  have hf: "card (holes (abs_fs f1) i1 ?a h) = card (free_blocks (abs_fs f1))" using full by (simp add: holes_def 1(11,12))
  obtain i2 f2 where 2: "write_loop f1 i1 ?sp buf ?tmp (span_blocks ?sp) = Some (-1, f2)" "mounted f2"
    "names (abs_fs f2) = names (abs_fs f1)" "used (abs_fs f2) = used (abs_fs f1)" "others_same (abs_fs f1) (abs_fs f2) n"
    "a_inode (abs_fs f2) n = i2" "file_stored (abs_fs f1) i1 ?a h (\<lambda>j. the (?w j)) (card (free_blocks ?A)) (abs_fs f2) i2"
    using write_loop_hole [OF 1(2) _ k(3) 1(6) h(1) h76 _ _ hf, of ?sp buf ?tmp ?rest, unfolded 1(9-12), folded sb] 1(4,13) h wr(1-3)
    by auto
  note st = 2(7) [unfolded file_stored_def 1(10)]
  let ?s = "s\<lparr>st_locked := False, st_fs := Some f2\<rparr>"
  have ot: "others_same ?A (abs_fs f2) n" by (rule others_same_trans [OF 1(5) 2(5)])
  have so': "sys_ok ?s f2 p" by (rule io_sys_ok [OF so 2(2) _ _ ot _ 1(13)]) (use 1(3,4,8) 2(3,4,6) st i_def in simp_all)
  have oc: "only_changes ?A (abs_fs f2) n" by (rule only_changes_used [OF ot]) (use 1(4) 2(4) in simp)
  have D: "\<forall>j<76. fblock (abs_fs f2) (a_inode (abs_fs f2) n) j = (if ?a \<le> j \<and> j < h then the (?w j) else ?C j)"
    using st 2(6) by simp
  have o: "512 * ?a = off" using sz(4) by (auto simp: regular_def)
  have "map (\<lambda>j. the (?w j)) [?a..<h] = map (\<lambda>j. get_bytes (512 * j - off) 512 buf) [?a..<h]"
    using wr(4) h(2) by simp
  moreover have "512 * h \<le> off + sz - 1" using h(2) less_eq_div_iff_mult_less_eq [of 512 h "off + sz - 1"] by simp
  then have "concat (map (\<lambda>j. get_bytes (512 * j - off) 512 buf) [?a..<h]) = take (512 * h - off) buf"
    using concat_slices [of off ?a h buf] o h(1) sz(3) by (simp add: diff_mult_distrib2)
  ultimately have "file_bytes (abs_fs f2) n = take off F @ take (512 * h - off) buf @ drop (512 * h) F"
    using concat_replaced [OF C h(1) less_imp_le [OF h76] D] o unfolding F_def file_bytes_def i_def by (simp only:)
  then show ?thesis using 1(1,3,7) 2(1,3,6) so' oc st by (intro exI [of _ ?s] exI [of _ f2]) simp
qed

end
