(* ===== verification/File_Regular.thy ===== *)
theory File_Regular
  imports File_Write
begin

text \<open>
  Regular requests, less than one block from the start of a block or whole blocks from the start of the
  file: \<^verbatim>\<open>sfs_read\<close> and \<^verbatim>\<open>sfs_write\<close> are \<^verbatim>\<open>pread\<close> and \<^verbatim>\<open>pwrite\<close> on the bytes of the file.
\<close>

subsection \<open>Regular requests\<close>

lemma sfs_read_regular:
  assumes so: "sys_ok s f p" and k: "in_use p k" "slot_cell (get_slot p k) = Inumber n" "n \<noteq> 1"
    and sz: "1 \<le> sz" "off + sz \<le> MAX_FILE" "sz \<le> length buf" "regular off sz"
  defines "F \<equiv> file_bytes (abs_fs f) n"
  shows "\<exists>s' f'. sfs_read buf (of_nat sz) (int off) (handle fi k) s = Some ((int sz, Some (take sz (drop off F) @ drop sz buf)), s') \<and>
    sys_ok s' f' p \<and> names (abs_fs f') = names (abs_fs f) \<and> only_changes (abs_fs f) (abs_fs f') n \<and>
    isize (a_inode (abs_fs f') n) = isize (a_inode (abs_fs f) n) \<and> file_bytes (abs_fs f') n = F"
proof (cases "off = 0")
  case True
  then have "regular_size sz" using sz(4) by (auto simp: regular_def regular_size_def)
  then show ?thesis using sfs_read_bytes [OF so k sz(1) _ sz(3), of fi] sz(2) True unfolding F_def by simp
next
  case False
  then have r: "off mod 512 = 0" "sz < 512" using sz(4) by (auto simp: regular_def)
  let ?sp = "request_span (of_nat sz) (int off)" and ?C = "fblock (abs_fs f) (a_inode (abs_fs f) n)"
  have m: "mounted f" "used (abs_fs f) n" using sys_okD(4) [OF so] io_start(3) [OF so k] by simp_all
  note pb = part_of_block [OF sz(1) r(2,1)] and p = slice_parts [OF sz(1,2)]
  let ?b = "off div 512"
  have u: "unat (of_nat ?b :: u64) = ?b" "unat (of_nat sz :: u64) = sz" "(of_nat sz :: u64) \<noteq> 512"
    using sz r(2) of_nat_u64_eq [of sz 512] by (simp_all add: unat_of_nat_u64)
  have sl: "slice ?sp (of_nat ?b) = (0, of_nat sz)" using p(1) unfolding pb(1,2) r(1) by simp
  have b: "?b < 76" using p(5) pb(1) by simp
  have lC: "length (?C ?b) = 512" by (rule fblock_lengths [OF m])
  then have "place ?C ?sp buf (of_nat ?b) = Some (take sz (?C ?b) @ drop sz buf)"
    using sl u p(7) r sz(3) poke_Some [of buf 0 "take sz (?C ?b)"] by (simp add: place_def put_bytes_def)
  moreover have "take sz (?C ?b) = take sz (drop off F)"
    using file_bytes_slices(2) [OF m less_imp_le [OF b] b, of sz] r(2) unfolding F_def pb(3) [symmetric] by simp
  ultimately show ?thesis
    using sfs_read_copies [OF so k sz(1,2), of buf fi] p(6) pb(1) unfolding F_def by simp
qed

lemma sfs_write_regular:
  assumes so: "sys_ok s f p" and k: "in_use p k" "slot_cell (get_slot p k) = Inumber n" "n \<noteq> 1"
    and sz: "1 \<le> sz" "off + sz \<le> MAX_FILE" "sz \<le> length buf" "regular off sz" and room: "room_for (abs_fs f) n off sz"
  defines "F \<equiv> file_bytes (abs_fs f) n"
  shows "\<exists>s' f'. sfs_write env buf (of_nat sz) (int off) (handle fi k) s = Some (int sz, s') \<and>
    sys_ok s' f' p \<and> names (abs_fs f') = names (abs_fs f) \<and> only_changes (abs_fs f) (abs_fs f') n \<and>
    unat (isize (a_inode (abs_fs f') n)) = max (unat (isize (a_inode (abs_fs f) n))) (off + sz) \<and>
    file_bytes (abs_fs f') n = take off F @ take sz buf @ drop (off + sz) F"
  using sfs_write_outcome [OF so k sz(1-3) disjI1 [OF sz(4)] room, of env fi] sz(4)
  unfolding F_def regular_write_outcome [OF sz(4)] by (simp add: regular_def)

text \<open>Reading back what was written, through any descriptor on the file.\<close>

lemma regular_read_back:
  assumes so: "sys_ok s f p" and k: "in_use p k" "slot_cell (get_slot p k) = Inumber n" "n \<noteq> 1"
    and k': "in_use p k'" "slot_cell (get_slot p k') = Inumber n"
    and sz: "1 \<le> sz" "off + sz \<le> MAX_FILE" "sz \<le> length buf" "sz \<le> length buf'" "regular off sz"
    and room: "room_for (abs_fs f) n off sz"
  shows "\<exists>s' f' s''. sfs_write env buf (of_nat sz) (int off) (handle fi k) s = Some (int sz, s') \<and> sys_ok s' f' p \<and>
    sfs_read buf' (of_nat sz) (int off) (handle fi' k') s' = Some ((int sz, Some (take sz buf @ drop sz buf')), s'')"
proof -
  let ?F = "file_bytes (abs_fs f) n"
  obtain s' f' where 1: "sfs_write env buf (of_nat sz) (int off) (handle fi k) s = Some (int sz, s')" "sys_ok s' f' p"
    "file_bytes (abs_fs f') n = take off ?F @ take sz buf @ drop (off + sz) ?F"
    using sfs_write_regular [OF so k sz(1-3,5) room, of env fi] by blast
  have "length ?F = MAX_FILE" using length_file_bytes sys_okD(4) [OF so] io_start(3) [OF so k] by blast
  then have "take sz (drop off (file_bytes (abs_fs f') n)) = take sz buf" using sz(2,3) by (simp add: 1(3))
  then show ?thesis using 1(1,2) sfs_read_regular [OF 1(2) k' k(3) sz(1,2,4,5), of fi'] by auto
qed

end
