(* ===== verification/Dir_Handlers.thy ===== *)
theory Dir_Handlers
  imports Sfs_Files Sfs_Io
begin

text \<open>
  Reading the root directory, \<^verbatim>\<open>sfs_readdir\<close>: what the filler callback is given are the two dots and the
  names of the volume with the attributes of their files, in the order of the entries.
\<close>

subsection \<open>Listing\<close>

fun fill :: "('b \<Rightarrow> bytes \<Rightarrow> stat option \<Rightarrow> bool \<times> 'b) \<Rightarrow> 'b \<Rightarrow> (bytes \<times> stat option) list \<Rightarrow> 'b" where
  "fill filler buf [] = buf"
| "fill filler buf ((nm, st) # es) =
     (let (full, buf) = filler buf nm st in if full then buf else fill filler buf es)"

definition listing :: "fs_abs \<Rightarrow> nat \<Rightarrow> (bytes \<times> stat option) list" where
  "listing A j =
     map (\<lambda>k. (dname A k, Some (sfs_fs_inode_to_stat (a_inode A (dino A k))))) (filter (live A) [j..<dsize (root A)])"

lemma filter_find_upt:
  "filter P [a..<b] = (case List.find P [a..<b] of None \<Rightarrow> [] | Some k \<Rightarrow> k # filter P [Suc k..<b])"
proof (induction "b - a" arbitrary: a)
  case 0
  then show ?case by simp
next
  case (Suc n)
  then have "[a..<b] = a # [Suc a..<b]" by (simp add: upt_conv_Cons)
  with Suc show ?case by simp
qed

lemma listing_next:
  "listing A j =
     (case next_live A (root A) j of
        None \<Rightarrow> []
      | Some k \<Rightarrow> (dname A k, Some (sfs_fs_inode_to_stat (a_inode A (dino A k)))) # listing A (Suc k))"
proof -
  have "List.find (live A) [j..<dsize (root A)] = next_live A (root A) j"
    unfolding next_live_def by (intro find_cong) (auto simp: live_def dlive_def dino_def)
  then show ?thesis unfolding listing_def by (subst filter_find_upt) (simp split: option.split)
qed

lemma touched_listing:
  assumes m: "mounted f" and t: "touched (abs_fs f) (root (abs_fs f)) (abs_fs f') d'"
    and f': "fs_ok f'" "superblock f' = superblock f"
  shows "listing (abs_fs f') = listing (abs_fs f)"
proof -
  let ?A = "abs_fs f" and ?A' = "abs_fs f'"
  note tm = touched_mounted [OF m t f'] and md = mountedD [OF m]
  have s: "\<And>k. dslot ?A' (root ?A') k = dslot ?A (root ?A) k" "dsize (root ?A') = dsize (root ?A)"
    using touched_dir(2) [OF t] touched_same(6) [OF t] tm(4) by simp_all
  have "a_inode ?A' (dino ?A k) = a_inode ?A (dino ?A k)" if "live ?A k" for k
  proof -
    have "dino ?A k \<noteq> 1" using that md(5) by (simp add: root_ok_def)
    then show ?thesis using touched_same(10) [OF t] md(9) by simp
  qed
  then show ?thesis by (auto simp: listing_def fun_eq_iff root_same [OF s] s(2))
qed

lemma cstr_name: "cstr (de_name (get_entry j block)) = cstr (take 256 (de_name (get_entry j block)))"
  by (simp add: get_entry_def get_bytes_def)

lemma readdir_loop_ok:
  assumes "mounted f" "it_inode it = root (abs_fs f)" "iter_ok (abs_fs f) it"
  shows "\<exists>f' d'. readdir_loop filler buf f it = Some (fill filler buf (listing (abs_fs f) (iter_pos it)), f') \<and>
    fs_ok f' \<and> superblock f' = superblock f \<and> touched (abs_fs f) (root (abs_fs f)) (abs_fs f') d'"
  using assms
proof (induction "dsize (root (abs_fs f)) - iter_pos it" arbitrary: f it buf rule: less_induct)
  case less
  let ?A = "abs_fs f"
  note md = mountedD [OF less.prems(1)]
  have v: "\<forall>k<dsize (it_inode it). dlive ?A (it_inode it) k \<longrightarrow> valid_ino (superblock f) (de_inumber (dslot ?A (it_inode it) k))"
    using md(5) less.prems(2) by (auto simp: root_ok_def used_def live_def dino_def dlive_def)
  obtain r it1 f1 where 1: "sfs_dir_iternext f it True = Some (r, it1, f1)" "fs_ok f1" "superblock f1 = superblock f"
    "iter_result ?A (root ?A) True (next_live ?A (root ?A) (iter_pos it)) r it1 (abs_fs f1)"
    using iternext_ok [OF md(3) less.prems(3), of True] v less.prems(2) by auto
  have t: "touched ?A (root ?A) (abs_fs f1) (it_inode it1)" using 1(4) by (simp add: iter_result_def)
  note tm = touched_mounted [OF less.prems(1) t 1(2,3)]
  show ?case
  proof (cases r)
    case None
    then have "next_live ?A (root ?A) (iter_pos it) = None" using 1(4) by (auto simp: iter_result_def split: option.splits)
    then have "listing ?A (iter_pos it) = []" by (simp add: listing_next)
    with None 1 t show ?thesis by (subst readdir_loop.simps) auto
  next
    case (Some x)
    then have rn: "r \<noteq> None" by simp
    have ir: "iter_result ?A (it_inode it) True (next_live ?A (it_inode it) (iter_pos it)) r it1 (abs_fs f1)"
      using 1(4) less.prems(2) by simp
    note ok = iter_result_ok [OF less.prems(3) ir rn]
    let ?k = "unat (it_iblock it1)"
    have nl: "next_live ?A (root ?A) (iter_pos it) = Some ?k" using ok(3) less.prems(2) by simp
    note k = next_live_Some [OF nl]
    have lk: "live ?A ?k" using k by (simp add: live_def dlive_def dino_def)
    have "dino ?A ?k \<noteq> 1" using lk md(5) by (simp add: root_ok_def)
    then have same: "a_inode (abs_fs f1) (dino ?A ?k) = a_inode ?A (dino ?A ?k)" using touched_same(10) [OF t] md(9) by simp
    from 1(4) nl same have x: "r = Some (0, Some (a_inode ?A (dino ?A ?k)))" "cached_block it1 = fblock ?A (root ?A) ?k"
      by (auto simp: iter_result_def dino_def)
    have nm: "cstr (de_name (get_entry 0 (cached_block it1))) = dname ?A ?k"
      unfolding cstr_name by (simp add: dname_def dslot_def x(2))
    obtain full buf1 where fl: "filler buf (dname ?A ?k) (Some (sfs_fs_inode_to_stat (a_inode ?A (dino ?A ?k)))) = (full, buf1)"
      by (cases "filler buf (dname ?A ?k) (Some (sfs_fs_inode_to_stat (a_inode ?A (dino ?A ?k))))")
    have unf: "readdir_loop filler buf f it = (if full then Some (buf1, f1) else readdir_loop filler buf1 f1 it1)"
      using 1(1) x(1) nm fl by (subst readdir_loop.simps) simp
    show ?thesis
    proof (cases full)
      case True
      then show ?thesis using unf fl nl 1(2,3) t by (subst listing_next) auto
    next
      case False
      have "dsize (root (abs_fs f1)) - iter_pos it1 < dsize (root ?A) - iter_pos it"
        unfolding ok(2) tm(4) using k touched_same(6) [OF t] by linarith
      from less.hyps [OF this tm(1) _ ok(1), of buf1] tm(4) obtain f' d' where 2:
        "readdir_loop filler buf1 f1 it1 = Some (fill filler buf1 (listing (abs_fs f1) (iter_pos it1)), f')"
        "fs_ok f'" "superblock f' = superblock f1" "touched (abs_fs f1) (root (abs_fs f1)) (abs_fs f') d'"
        by auto
      have "fill filler buf (listing ?A (iter_pos it)) = fill filler buf1 (listing (abs_fs f1) (iter_pos it1))"
        using nl fl False ok(2) touched_listing [OF less.prems(1) t 1(2,3)] by (subst listing_next) simp
      moreover have "touched ?A (root ?A) (abs_fs f') d'" using touched_trans [OF t] 2(4) tm(4) by simp
      ultimately show ?thesis using 2(1-3) 1(3) unf False by auto
    qed
  qed
qed

lemma sfs_readdir_root:
  assumes so: "sys_ok s f p" and env: "env_ok env"
  shows "\<exists>s' f'. sfs_readdir env filler [SLASH] buf s =
      Some ((0, fill filler buf (([DOT], None) # ([DOT, DOT], None) # listing (abs_fs f) 0)), s') \<and> sys_ok s' f' p \<and>
    names (abs_fs f') = names (abs_fs f) \<and> only_changes (abs_fs f) (abs_fs f') 1"
proof -
  note sd = sys_okD [OF so] and md = mountedD [OF sys_okD(4) [OF so]]
  let ?A = "abs_fs f" and ?f0 = "after_read f 1"
  have m0: "mounted ?f0" "abs_fs ?f0 = ?A" "superblock ?f0 = superblock f"
    using after_read_mounted [OF sd(4) md(8)] md(3,8) by simp_all
  have dr: "sfs_dir_root f = Some (Some (root ?A), ?f0)"
    using md(3,8) by (simp add: sfs_dir_root_def sfs_fs_read_inode_ok)
  have u0: "used (abs_fs ?f0) = used ?A" "others_same ?A (abs_fs ?f0) 1" using m0 by (simp_all add: others_same_refl)
  have quit: "sys_ok (s\<lparr>st_locked := False, st_fs := Some ?f0\<rparr>) ?f0 p" "names (abs_fs ?f0) = names ?A"
    using absent_sys_ok [OF so m0(1) _ u0] m0(2) by simp_all
  obtain raw where raw: "iter_mem env 0 = Some raw" using env by (auto simp: env_ok_def)
  let ?it = "\<lparr>it_inode = root ?A, it_iblock = 0, it_entry = 0, cached_block = raw\<rparr>"
  have it: "sfs_dir_iterate (iter_mem env 0) (root ?A) = Some (Some ?it)"
    using raw dir_okD(5) [OF md(6)] by (simp add: sfs_dir_iterate_def)
  have iok: "iter_ok (abs_fs ?f0) ?it" "it_inode ?it = root (abs_fs ?f0)" "iter_pos ?it = 0"
    using md(6) m0(2) by (simp_all add: iter_ok_def iter_pos_def)
  obtain full1 buf1 where 1: "filler buf [DOT] None = (full1, buf1)" by (cases "filler buf [DOT] None")
  obtain full2 buf2 where 2: "filler buf1 [DOT, DOT] None = (full2, buf2)" by (cases "filler buf1 [DOT, DOT] None")
  obtain f' d' where 3: "readdir_loop filler buf2 ?f0 ?it = Some (fill filler buf2 (listing ?A 0), f')"
    "fs_ok f'" "superblock f' = superblock f" "touched ?A (root ?A) (abs_fs f') d'"
    using readdir_loop_ok [OF m0(1) iok(2,1), of filler buf2] m0 iok(3) by auto
  note tm = touched_mounted [OF sd(4) 3(4,2,3)]
  have o: "others_same ?A (abs_fs f') 1" using touched_others(1) [OF sd(4)] 3(4) tm(4,5) by simp
  note fin = absent_sys_ok [OF so tm(1,2,5) o]
  show ?thesis
  proof (cases "full1 \<or> full2")
    case True
    then have "sfs_readdir env filler [SLASH] buf s =
        Some ((0, fill filler buf (([DOT], None) # ([DOT, DOT], None) # listing ?A 0)), s\<lparr>st_locked := False, st_fs := Some ?f0\<rparr>)"
      using dr 1 2 sd(2,3) by (auto simp: sfs_readdir_def critical_def)
    then show ?thesis using quit only_changes_used [OF u0(2,1)] by blast
  next
    case False
    then have "sfs_readdir env filler [SLASH] buf s =
        Some ((0, fill filler buf (([DOT], None) # ([DOT, DOT], None) # listing ?A 0)), s\<lparr>st_locked := False, st_fs := Some f'\<rparr>)"
      using dr 1 2 3(1) it sd(2,3) by (simp add: sfs_readdir_def critical_def)
    then show ?thesis using fin tm(2) only_changes_used [OF o tm(5)] by blast
  qed
qed

text \<open>The names that are listed.\<close>

lemma listing_names:
  assumes "root_ok A"
  shows "distinct (map fst (listing A 0))" "set (map fst (listing A 0)) = dom (names A)"
    "(nm, st) \<in> set (listing A 0) \<Longrightarrow> \<exists>n. names A nm = Some n \<and> st = Some (sfs_fs_inode_to_stat (a_inode A n))"
proof -
  have f: "map fst (listing A 0) = map (dname A) (filter (live A) [0..<dsize (root A)])" by (simp add: listing_def)
  have "inj_on (dname A) {k. live A k}" using assms by (auto simp: root_ok_def inj_on_def)
  then show "distinct (map fst (listing A 0))"
    unfolding f distinct_map by (auto intro: inj_on_subset)
  have l: "live A k \<Longrightarrow> k < dsize (root A)" for k by (simp add: live_def)
  have d: "nm \<in> dom (names A) \<longleftrightarrow> (\<exists>k. live A k \<and> dname A k = nm)" for nm by (simp add: dom_def names_Some [OF assms])
  show "set (map fst (listing A 0)) = dom (names A)"
    unfolding f by (rule set_eqI) (use d l in auto)
  show "(nm, st) \<in> set (listing A 0) \<Longrightarrow> \<exists>n. names A nm = Some n \<and> st = Some (sfs_fs_inode_to_stat (a_inode A n))"
    unfolding listing_def names_Some [OF assms] by auto
qed

lemma fill_append:
  assumes "\<And>b nm st. filler b nm st = (False, g b nm st)"
  shows "fill filler b es = fold (\<lambda>(nm, st) b. g b nm st) es b"
  using assms by (induction es arbitrary: b) auto

subsection \<open>Opening the root directory\<close>

text \<open>The path \<^verbatim>\<open>/\<close> has two empty tokens; as no file has an empty name, the walk ends at the root.\<close>

lemma strcmp_empty: "strcmp_eq (de_name (dslot A (root A) k)) [] \<Longrightarrow> dname A k = []"
  by (cases "de_name (dslot A (root A) k)") (simp_all add: strcmp_eq_def dname_def cstr_def)

lemma opendir_walk_root:
  assumes "mounted f" "names (abs_fs f) [] = None" "it_inode it = root (abs_fs f)" "iter_ok (abs_fs f) it"
  shows "\<exists>f' d'. opendir_walk env n f it [] tok = Some (Inr d', f') \<and>
    fs_ok f' \<and> superblock f' = superblock f \<and> touched (abs_fs f) (root (abs_fs f)) (abs_fs f') d'"
  using assms
proof (induction "dsize (root (abs_fs f)) - iter_pos it" arbitrary: f it rule: less_induct)
  case less
  let ?A = "abs_fs f"
  note md = mountedD [OF less.prems(1)]
  have v: "\<forall>k<dsize (it_inode it). dlive ?A (it_inode it) k \<longrightarrow> valid_ino (superblock f) (de_inumber (dslot ?A (it_inode it) k))"
    using md(5) less.prems(3) by (auto simp: root_ok_def used_def live_def dino_def dlive_def)
  obtain r it1 f1 where 1: "sfs_dir_iternext f it True = Some (r, it1, f1)" "fs_ok f1" "superblock f1 = superblock f"
    "iter_result ?A (root ?A) True (next_live ?A (root ?A) (iter_pos it)) r it1 (abs_fs f1)"
    using iternext_ok [OF md(3) less.prems(4), of True] v less.prems(3) by auto
  have t: "touched ?A (root ?A) (abs_fs f1) (it_inode it1)" using 1(4) by (simp add: iter_result_def)
  note tm = touched_mounted [OF less.prems(1) t 1(2,3)]
  show ?case
  proof (cases r)
    case None
    with 1 t show ?thesis by (subst opendir_walk.simps) auto
  next
    case (Some x)
    then have rn: "r \<noteq> None" by simp
    have ir: "iter_result ?A (it_inode it) True (next_live ?A (it_inode it) (iter_pos it)) r it1 (abs_fs f1)"
      using 1(4) less.prems(3) by simp
    note ok = iter_result_ok [OF less.prems(4) ir rn]
    let ?k = "unat (it_iblock it1)"
    have nl: "next_live ?A (root ?A) (iter_pos it) = Some ?k" using ok(3) less.prems(3) by simp
    note k = next_live_Some [OF nl]
    have lk: "live ?A ?k" using k by (simp add: live_def dlive_def dino_def)
    from 1(4) nl obtain i where x: "r = Some (0, Some i)" "cached_block it1 = fblock ?A (root ?A) ?k"
      by (auto simp: iter_result_def)
    have "dname ?A ?k \<noteq> []" using less.prems(2) lk by (auto simp: names_None)
    then have "\<not> strcmp_eq (de_name (get_entry 0 (cached_block it1))) []"
      using strcmp_empty [of ?A ?k] x(2) by (auto simp: dslot_def)
    then have unf: "opendir_walk env n f it [] tok = opendir_walk env n f1 it1 [] tok"
      using 1(1) x(1) by (subst opendir_walk.simps) simp
    have "dsize (root (abs_fs f1)) - iter_pos it1 < dsize (root ?A) - iter_pos it"
      unfolding ok(2) tm(4) using k touched_same(6) [OF t] by linarith
    from less.hyps [OF this tm(1) _ _ ok(1)] tm(2,4) less.prems(2) obtain f' d' where 2:
      "opendir_walk env n f1 it1 [] tok = Some (Inr d', f')" "fs_ok f'" "superblock f' = superblock f1"
      "touched (abs_fs f1) (root (abs_fs f1)) (abs_fs f') d'"
      by auto
    then have "touched ?A (root ?A) (abs_fs f') d'" using touched_trans [OF t] tm(4) by simp
    then show ?thesis using unf 2 1(3) by auto
  qed
qed

text \<open>A descriptor is opened on the root directory; its link count stays as it is.\<close>

lemma sfs_opendir_root:
  assumes so: "sys_ok s f p" and env: "env_full env" and ne: "names (abs_fs f) [] = None" and p: "free_fds p \<noteq> {}"
  shows "\<exists>k s' f' p'. sfs_opendir env [SLASH] fi s = Some ((0, handle fi k), s') \<and> sys_ok s' f' p' \<and>
    names (abs_fs f') = names (abs_fs f) \<and> only_changes (abs_fs f) (abs_fs f') 1 \<and>
    links (root (abs_fs f')) = links (root (abs_fs f)) \<and> fd_added p p' k 1"
proof -
  note sd = sys_okD [OF so] and md = mountedD [OF sys_okD(4) [OF so]]
  let ?A = "abs_fs f" and ?f0 = "after_read f 1"
  have m0: "mounted ?f0" "abs_fs ?f0 = ?A" "superblock ?f0 = superblock f"
    using after_read_mounted [OF sd(4) md(8)] md(3,8) by simp_all
  have dr: "sfs_dir_root f = Some (Some (root ?A), ?f0)"
    using md(3,8) by (simp add: sfs_dir_root_def sfs_fs_read_inode_ok)
  obtain raw mem where raw: "iter_mem env 0 = Some raw" "slab_mem env = Some mem" using env by (auto simp: env_ok_def env_full_def)
  let ?it = "\<lparr>it_inode = root ?A, it_iblock = 0, it_entry = 0, cached_block = raw\<rparr>"
  have it: "sfs_dir_iterate (iter_mem env 0) (root ?A) = Some (Some ?it)"
    using raw dir_okD(5) [OF md(6)] by (simp add: sfs_dir_iterate_def)
  have iok: "iter_ok (abs_fs ?f0) ?it" "it_inode ?it = root (abs_fs ?f0)" "names (abs_fs ?f0) [] = None"
    using md(6) m0(2) ne by (simp_all add: iter_ok_def)
  obtain f' d' where 1: "opendir_walk env 0 ?f0 ?it [] (Some []) = Some (Inr d', f')"
    "fs_ok f'" "superblock f' = superblock f" "touched ?A (root ?A) (abs_fs f') d'"
    using opendir_walk_root [OF m0(1) iok(3,2,1), of env 0 "Some []"] m0 by auto
  note tm = touched_mounted [OF sd(4) 1(4,2,3)] and ts = touched_same [OF 1(4)]
  have o: "others_same ?A (abs_fs f') 1" using touched_others(1) [OF sd(4)] 1(4) tm(4,5) by simp
  have d1: "inumber d' = 1" using ts(1) md(9) by simp
  obtain k p' where 2:
    "\<And>s1. st_pool s1 = Some p \<Longrightarrow> open_fd env 1 fi s1 = Some ((0, handle fi k), s1\<lparr>st_pool := Some p'\<rparr>)"
    "pool_ok p'" "\<not> in_use p k" "\<And>j. in_use p' j \<longleftrightarrow> in_use p j \<or> j = k" "\<And>j. in_use p j \<Longrightarrow> get_slot p' j = get_slot p j"
    "slot_cell (get_slot p' k) = Inumber 1"
    using open_fd_ok [OF sd(6) p raw(2), of 1 fi] by metis
  have "links_ok (abs_fs f') p'"
  proof (rule links_ok_frame [OF sd(7) o])
    show "m \<noteq> 1 \<Longrightarrow> fds_on p' m = fds_on p m" for m using fds_on_open(1) [OF 2(3-6), of m] by simp
    show "\<exists>m. slot_cell (get_slot p' j) = Inumber m \<and> used (abs_fs f') m" if "in_use p' j" for j
      using that 2(4-6) sd(7) tm(5) md(7) by (cases "j = k") (auto simp: links_ok_def)
  qed (use tm(2,5) in simp_all)
  then have "sys_ok (s\<lparr>st_locked := False, st_fs := Some f', st_pool := Some p'\<rparr>) f' p'"
    using tm(1) 2(2) by (simp add: sys_ok_def ready_def)
  moreover have "sfs_opendir env [SLASH] fi s = Some ((0, handle fi k), s\<lparr>st_locked := False, st_fs := Some f', st_pool := Some p'\<rparr>)"
    using sd(2,3,5) dr it 1(1) d1 2(1) by (simp add: sfs_opendir_def Let_def)
  ultimately show ?thesis
    using tm(2,4) only_changes_used [OF o tm(5)] ts(5) 2(3-6) unfolding fd_added_def
    by (intro exI [of _ k] exI [of _ "s\<lparr>st_locked := False, st_fs := Some f', st_pool := Some p'\<rparr>"] exI [of _ f'] exI [of _ p']) simp
qed

text \<open>Every other path leaves the mutex locked, so that no operation can proceed afterwards.\<close>

lemma sfs_opendir_stuck:
  assumes "\<not> st_locked s" "path \<noteq> [SLASH]"
  shows "sfs_opendir env path fi s = Some ((- ENOENT, fi), s\<lparr>st_locked := True\<rparr>)"
  using assms by (simp add: sfs_opendir_def)

text \<open>A handler that takes the mutex does not return when it is locked.\<close>

lemma locked_stuck:
  assumes "st_locked s"
  shows "sfs_init mp ms addr mf ok fok usr grp s = None" "sfs_destroy s = None" "sfs_getattr env path s = None"
    "sfs_create env path cmode fi s = None" "sfs_unlink env path s = None" "sfs_open env path fi s = None"
    "sfs_release fi s = None" "sfs_read buf sz off fi s = None" "sfs_write env src sz off fi s = None"
    "sfs_opendir env path fi s = None" "sfs_readdir env filler path b s = None" "sfs_releasedir fi s = None"
  using assms
  by (simp_all add: critical_def sfs_init_def sfs_destroy_def sfs_getattr_def sfs_create_def sfs_unlink_def sfs_open_def
      sfs_release_def sfs_read_def sfs_write_def sfs_opendir_def sfs_readdir_def sfs_releasedir_def)

subsection \<open>Releasing the root directory\<close>

text \<open>The root inode is rewritten with another link count.\<close>

lemma root_meta_mounted:
  assumes m: "mounted f" and i: "i = (root (abs_fs f))\<lparr>links := l, change_time := t\<rparr>"
  defines "f' \<equiv> after_write f i"
  shows "sfs_fs_write_inode f i = Some (0, f')" "mounted f'" "names (abs_fs f') = names (abs_fs f)"
    "used (abs_fs f') = used (abs_fs f)" "others_same (abs_fs f) (abs_fs f') 1" "root (abs_fs f') = i"
proof -
  let ?A = "abs_fs f" and ?A' = "abs_fs f'" and ?r = "root (abs_fs f)"
  note md = mountedD [OF m] and dd = dir_okD [OF mountedD(6) [OF m]]
  have i1: "inumber i = 1" "block_pointers i = block_pointers ?r" "isize i = isize ?r" "mode i = mode ?r"
    using i md(9) by simp_all
  have p: "valid_ino (superblock f) (inumber i)" "wf_inode i" "inumber i \<notin> free_inodes ?A"
    using i1(1) i dd(4) md(7) by (simp_all add: used_def)
  note aw = after_write_abs [OF md(3) p(1,2), folded f'_def] after_write_inode_alloc [OF md(1) p, folded f'_def]
  show "sfs_fs_write_inode f i = Some (0, f')" using sfs_fs_write_inode_ok [OF md(3) p(1)] by (simp add: f'_def)
  have sel: "a_inode ?A' = (a_inode ?A)(1 := i)" "a_block ?A' = a_block ?A" "a_super ?A' = a_super ?A" using aw(1) i1(1) by simp_all
  have fp: "fptr ?A' = fptr ?A" and fb: "fblock ?A' = fblock ?A"
    using sel(2) by (simp_all add: fptr_def fblock_def fun_eq_iff)
  have fr: "free_blocks ?A' = free_blocks ?A" using sel by (intro free_blocks_cong) simp_all
  have us: "used ?A' = used ?A" using aw(5) sel by (simp add: used_def fun_eq_iff)
  then show "used ?A' = used ?A" .
  show r: "root ?A' = i" using sel by simp
  have ip: "iptrs ?A' d = iptrs ?A d" "inode_ok ?A' d = inode_ok ?A d" for d
    using fp fr sel by (simp_all add: inode_ok_def iptrs_def)
  have same: "iptrs ?A i = iptrs ?A ?r" "inode_ok ?A i = inode_ok ?A ?r" "fblock ?A i = fblock ?A ?r"
    using i1(2) iptrs_cong [of ?A ?A i ?r] inode_ok_cong [of ?A ?A i ?r] fblock_cong [of ?A ?A i ?r] by simp_all
  have ow: "owns ?A' = owns ?A" using sel ip same(1) by (simp add: owns_def fun_eq_iff)
  have "inode_ok ?A i" using same(2) dd(1) by simp
  then have files: "files_ok ?A'" using md(4) us ow sel ip i1(1) by (auto simp: files_ok_def)
  have d: "dir_ok ?A' (root ?A')"
    using md(6) \<open>inode_ok ?A i\<close> ip sel i1 md(9) by (simp add: dir_ok_def dsize_def)
  have rs: "\<And>k. dslot ?A' (root ?A') k = dslot ?A (root ?A) k" "dsize (root ?A') = dsize (root ?A)"
    using fb r same(3) i1(3) by (simp_all add: dslot_def dsize_def)
  have ro: "root_ok ?A'" by (rule root_ok_same [OF md(5) d rs]) (use us md(5) in \<open>auto simp: root_ok_def\<close>)
  show "mounted f'" using aw(4) files ro by (simp add: mounted_def)
  show "names ?A' = names ?A" by (rule root_same [OF rs])
  show "others_same ?A ?A' 1" using us sel fb by (simp add: others_same_def same_file_def)
qed

lemma sfs_releasedir_root:
  assumes so: "sys_ok s f p" and k: "in_use p k" "slot_cell (get_slot p k) = Inumber 1"
  shows "\<exists>s' f'. sfs_releasedir (handle fi k) s = Some (0, s') \<and> sys_ok s' f' (sfs_filedescriptor_free p k) \<and>
    names (abs_fs f') = names (abs_fs f) \<and> only_changes (abs_fs f) (abs_fs f') 1 \<and>
    links (root (abs_fs f')) = links (root (abs_fs f)) - 1 \<and> \<not> in_use (sfs_filedescriptor_free p k) k"
proof -
  note sd = sys_okD [OF so] and md = mountedD [OF sys_okD(4) [OF so]]
  let ?A = "abs_fs f" and ?p' = "sfs_filedescriptor_free p k" and ?r = "root (abs_fs f)"
  have hs: "handle_slot (handle fi k) (s\<lparr>st_locked := True\<rparr>) = Some (Some k, p)"
    by (rule handle_slot_ok [OF _ sd(6) k(1)]) (use sd(5) in simp)
  have fi: "sfs_fd_inumber p k = 1" using k(2) by (simp add: sfs_fd_inumber_def)
  let ?f1 = "tick (after_read f 1)" and ?t = "fs_now (after_read f 1)"
  let ?i' = "?r\<lparr>links := links ?r - 1, change_time := ?t\<rparr>"
  have m1: "mounted ?f1" "abs_fs ?f1 = ?A" "superblock ?f1 = superblock f"
    using after_read_mounted [OF sd(4) md(8)] md(3,8) by simp_all
  have "?i' = (root (abs_fs ?f1))\<lparr>links := links ?r - 1, change_time := ?t\<rparr>" using m1(2) by simp
  note rm = root_meta_mounted [OF m1(1) this]
  let ?f' = "after_write ?f1 ?i'"
  note c = fd_close_ok [OF sd(6) k(1)] and cl = fds_on_close [OF k(1) fd_close_ok(2,3) [OF sd(6) k(1)] k(2)]
  have "links_ok (abs_fs ?f') ?p'"
  proof (rule links_ok_frame [OF sd(7), of _ 1])
    show "\<exists>m. slot_cell (get_slot ?p' j) = Inumber m \<and> used (abs_fs ?f') m" if "in_use ?p' j" for j
      using that c(2,3) sd(7) rm(4) m1(2) by (auto simp: links_ok_def)
  qed (use rm(3-5) m1(2) cl(1) in simp_all)
  then have "sys_ok (s\<lparr>st_locked := False, st_fs := Some ?f', st_pool := Some ?p'\<rparr>) ?f' ?p'"
    using rm(2) c(1) by (simp add: sys_ok_def ready_def)
  moreover have "sfs_releasedir (handle fi k) s = Some (0, s\<lparr>st_locked := False, st_fs := Some ?f', st_pool := Some ?p'\<rparr>)"
    using hs fi sd(2,3) rm(1) sfs_fs_read_inode_ok [OF md(3,8)]
    by (simp add: sfs_releasedir_def critical_def Let_def disk_access)
  moreover have "\<not> in_use ?p' k" using c(2) by simp
  moreover have "only_changes ?A (abs_fs ?f') 1" by (rule only_changes_used) (use rm(4,5) m1(2) in simp_all)
  ultimately show ?thesis using rm(3,6) m1(2) by (intro exI conjI) (assumption | simp)+
qed

end
