(* ===== verification/Simulation.thy ===== *)
theory Simulation
  imports Main
begin

text \<open>
  Traces of labelled step relations and the refinement between two of them: the contract a service
  and its specification share, with what follows from it for whole runs.
\<close>

inductive trace :: "('s \<Rightarrow> 'l \<Rightarrow> 's \<Rightarrow> bool) \<Rightarrow> 's \<Rightarrow> 'l list \<Rightarrow> 's \<Rightarrow> bool" for step s0 where
  trace_nil: "trace step s0 [] s0"
| trace_snoc: "trace step s0 tr s \<Longrightarrow> step s l s' \<Longrightarrow> trace step s0 (tr @ [l]) s'"

inductive_simps trace_nil_iff [simp]: "trace step s0 [] s"

lemma trace_snoc_iff: "trace step s0 (tr @ [l]) s' \<longleftrightarrow> (\<exists>s. trace step s0 tr s \<and> step s l s')"
proof
  assume "trace step s0 (tr @ [l]) s'"
  then show "\<exists>s. trace step s0 tr s \<and> step s l s'" by (cases rule: trace.cases) auto
qed (auto intro: trace_snoc)

lemma trace_append: "trace step s0 tr s \<Longrightarrow> trace step s tr' s' \<Longrightarrow> trace step s0 (tr @ tr') s'"
proof (induction tr' arbitrary: s' rule: rev_induct)
  case Nil
  then show ?case by simp
next
  case (snoc l tr')
  from snoc.prems(2) obtain t where "trace step s tr' t" "step t l s'" by (auto simp: trace_snoc_iff)
  then show ?case using trace_snoc [OF snoc.IH [OF snoc.prems(1)]] by simp
qed

text \<open>\<open>R\<close> relates the states of the implementation to those of the specification.\<close>

locale forward_simulation =
  fixes cstep :: "'c \<Rightarrow> 'l \<Rightarrow> 'c \<Rightarrow> bool"
    and astep :: "'a \<Rightarrow> 'l \<Rightarrow> 'a \<Rightarrow> bool"
    and R :: "'c \<Rightarrow> 'a \<Rightarrow> bool"
  assumes simulate: "R c a \<Longrightarrow> cstep c l c' \<Longrightarrow> \<exists>a'. astep a l a' \<and> R c' a'"
begin

lemma trace_simulate: "trace cstep c0 tr c \<Longrightarrow> R c0 a0 \<Longrightarrow> \<exists>a. trace astep a0 tr a \<and> R c a"
proof (induction rule: trace.induct)
  case trace_nil
  then show ?case by auto
next
  case (trace_snoc tr c l c')
  then obtain a where "trace astep a0 tr a" "R c a" by blast
  with simulate [OF _ trace_snoc.hyps(2)] trace.trace_snoc [of astep a0 tr a l] show ?case by blast
qed

text \<open>What holds along every run of the specification holds along every run of the implementation.\<close>

lemma trace_invariant:
  assumes "trace cstep c0 tr c" "R c0 a0" and "\<And>a. trace astep a0 tr a \<Longrightarrow> P tr"
  shows "P tr"
  using trace_simulate [OF assms(1,2)] assms(3) by blast

end

end
