(* ===== verification/File_System.thy ===== *)
theory File_System
  imports File_Regular Dir_Handlers Simulation
begin

text \<open>
  The service as a whole: the requests FUSE makes, an abstract file system of names, byte strings and
  open descriptors, and the proof that every run of the handlers is a run of the abstract one.
\<close>

unbundle bit_operations_syntax

subsection \<open>Requests\<close>

datatype request =
    Getattr bytes
  | Create bytes u32 fuse_file_info
  | Open bytes fuse_file_info
  | Unlink bytes
  | Release fuse_file_info nat
  | Readdir
  | Opendir fuse_file_info
  | Releasedir fuse_file_info nat
  | Read fuse_file_info nat nat nat bytes
  | Write fuse_file_info nat nat nat bytes

datatype reply =
    Status int
  | Attributes int "stat option"
  | Handle int fuse_file_info
  | Entries int "(bytes \<times> stat option) list"
  | Data int "bytes option"

definition collect :: "(bytes \<times> stat option) list \<Rightarrow> bytes \<Rightarrow> stat option \<Rightarrow> bool \<times> (bytes \<times> stat option) list" where
  "collect es nm st = (False, es @ [(nm, st)])"

lemma fill_collect: "fill collect es0 es = es0 @ es"
  by (induction es arbitrary: es0) (auto simp: collect_def)

fun serve :: "sfs_env \<Rightarrow> request \<Rightarrow> sfs_state \<Rightarrow> (reply \<times> sfs_state) option" where
  "serve env (Getattr nm) s = map_option (apfst (\<lambda>(r, st). Attributes r st)) (sfs_getattr env (SLASH # nm) s)"
| "serve env (Create nm m fi) s = map_option (apfst (\<lambda>(r, fi). Handle r fi)) (sfs_create env (SLASH # nm) m fi s)"
| "serve env (Open nm fi) s = map_option (apfst (\<lambda>(r, fi). Handle r fi)) (sfs_open env (SLASH # nm) fi s)"
| "serve env (Unlink nm) s = map_option (apfst Status) (sfs_unlink env (SLASH # nm) s)"
| "serve env (Release fi k) s = map_option (apfst Status) (sfs_release (handle fi k) s)"
| "serve env Readdir s = map_option (apfst (\<lambda>(r, es). Entries r es)) (sfs_readdir env collect [SLASH] [] s)"
| "serve env (Opendir fi) s = map_option (apfst (\<lambda>(r, fi). Handle r fi)) (sfs_opendir env [SLASH] fi s)"
| "serve env (Releasedir fi k) s = map_option (apfst Status) (sfs_releasedir (handle fi k) s)"
| "serve env (Read fi k off sz buf) s =
     map_option (apfst (\<lambda>(r, b). Data r b)) (sfs_read buf (of_nat sz) (int off) (handle fi k) s)"
| "serve env (Write fi k off sz buf) s = map_option (apfst Status) (sfs_write env buf (of_nat sz) (int off) (handle fi k) s)"

text \<open>
  The requests that are admitted in a state: names without a slash, descriptors that are open and of the
  right kind, transfers that are regular, reads up to the end of the file, and enough free space for what
  is created or written. The attributes of a name that exists are not asked for, since \<^verbatim>\<open>sfs_getattr\<close> takes the
  number of its inode from memory it has just freed.
\<close>

definition open_on_file :: "pool \<Rightarrow> nat \<Rightarrow> bool" where
  "open_on_file p k \<longleftrightarrow> in_use p k \<and> slot_cell (get_slot p k) \<noteq> Inumber 1"

definition transfer_ok :: "nat \<Rightarrow> nat \<Rightarrow> bytes \<Rightarrow> bool" where
  "transfer_ok off sz buf \<longleftrightarrow> 1 \<le> sz \<and> off + sz \<le> MAX_FILE \<and> sz \<le> length buf \<and> regular off sz"

fun admissible :: "filesystem \<Rightarrow> pool \<Rightarrow> request \<Rightarrow> bool" where
  "admissible f p (Getattr nm) \<longleftrightarrow> proper_name nm \<and> names (abs_fs f) nm = None"
| "admissible f p (Create nm m fi) \<longleftrightarrow> proper_name nm \<and> free_fds p \<noteq> {} \<and>
     (names (abs_fs f) nm = None \<longrightarrow> free_inodes (abs_fs f) \<noteq> {} \<and>
        writable (abs_fs f) (root (abs_fs f)) (vacant_from (abs_fs f) (root (abs_fs f)) 0))"
| "admissible f p (Open nm fi) \<longleftrightarrow> proper_name nm \<and> free_fds p \<noteq> {}"
| "admissible f p (Unlink nm) \<longleftrightarrow> proper_name nm"
| "admissible f p (Release fi k) \<longleftrightarrow> open_on_file p k"
| "admissible f p Readdir \<longleftrightarrow> True"
| "admissible f p (Opendir fi) \<longleftrightarrow> free_fds p \<noteq> {}"
| "admissible f p (Releasedir fi k) \<longleftrightarrow> in_use p k \<and> slot_cell (get_slot p k) = Inumber 1"
| "admissible f p (Read fi k off sz buf) \<longleftrightarrow> open_on_file p k \<and> transfer_ok off sz buf \<and>
     off + sz \<le> unat (isize (a_inode (abs_fs f) (sfs_fd_inumber p k)))"
| "admissible f p (Write fi k off sz buf) \<longleftrightarrow> open_on_file p k \<and> transfer_ok off sz buf \<and>
     room_for (abs_fs f) (sfs_fd_inumber p k) off sz"

subsection \<open>The abstract file system\<close>

text \<open>
  Names stand for file numbers; a file has a size and the bytes of the 76 blocks it can have; a
  descriptor is open on a file or, as number 1, on the directory.
\<close>

record spec =
  sp_names :: "bytes \<Rightarrow> u64 option"
  sp_files :: "u64 \<Rightarrow> (nat \<times> bytes) option"
  sp_fds :: "nat \<Rightarrow> u64 option"

definition describes :: "stat option \<Rightarrow> u64 \<Rightarrow> nat \<times> bytes \<Rightarrow> bool" where
  "describes st n file \<longleftrightarrow> (\<exists>st'. st = Some st' \<and> st_ino st' = n \<and> unat (st_size st') = fst file)"

abbreviation empty_file :: "nat \<times> bytes" where "empty_file \<equiv> (0, replicate MAX_FILE 0)"

inductive spec_step :: "spec \<Rightarrow> request \<Rightarrow> reply \<Rightarrow> spec \<Rightarrow> bool" where
  getattr_absent: "sp_names S nm = None \<Longrightarrow> spec_step S (Getattr nm) (Attributes (- ENOENT) None) S"
| create_fresh: "sp_names S nm = None \<Longrightarrow> sp_files S n = None \<Longrightarrow> n \<noteq> 1 \<Longrightarrow> sp_fds S k = None \<Longrightarrow>
    spec_step S (Create nm m fi) (Handle 0 (handle fi k))
      (S\<lparr>sp_names := (sp_names S)(nm \<mapsto> n), sp_files := (sp_files S)(n \<mapsto> empty_file), sp_fds := (sp_fds S)(k \<mapsto> n)\<rparr>)"
| create_refused: "sp_names S nm = Some n \<Longrightarrow> fi_flags fi AND O_EXCL \<noteq> 0 \<Longrightarrow>
    spec_step S (Create nm m fi) (Handle (- EEXIST) fi) S"
| create_opens: "sp_names S nm = Some n \<Longrightarrow> fi_flags fi AND O_EXCL = 0 \<Longrightarrow> sp_fds S k = None \<Longrightarrow>
    spec_step S (Create nm m fi) (Handle 0 (handle fi k)) (S\<lparr>sp_fds := (sp_fds S)(k \<mapsto> n)\<rparr>)"
| open_absent: "sp_names S nm = None \<Longrightarrow> spec_step S (Open nm fi) (Handle (- ENOENT) fi) S"
| open_present: "sp_names S nm = Some n \<Longrightarrow> sp_fds S k = None \<Longrightarrow>
    spec_step S (Open nm fi) (Handle 0 (handle fi k)) (S\<lparr>sp_fds := (sp_fds S)(k \<mapsto> n)\<rparr>)"
| unlink_absent: "sp_names S nm = None \<Longrightarrow> spec_step S (Unlink nm) (Status (- ENOENT)) S"
| unlink_present: "sp_names S nm = Some n \<Longrightarrow>
    spec_step S (Unlink nm) (Status 0)
      (S\<lparr>sp_names := (sp_names S)(nm := None),
         sp_files := if n \<in> ran (sp_fds S) then sp_files S else (sp_files S)(n := None)\<rparr>)"
| release: "sp_fds S k = Some n \<Longrightarrow> n \<noteq> 1 \<Longrightarrow>
    spec_step S (Release fi k) (Status 0)
      (S\<lparr>sp_fds := (sp_fds S)(k := None),
         sp_files := if n \<in> ran (sp_names S) \<or> n \<in> ran ((sp_fds S)(k := None)) then sp_files S else (sp_files S)(n := None)\<rparr>)"
| readdir: "distinct (map fst es) \<Longrightarrow> set (map fst es) = dom (sp_names S) \<Longrightarrow>
    \<forall>(nm, st)\<in>set es. \<exists>n c. sp_names S nm = Some n \<and> sp_files S n = Some c \<and> describes st n c \<Longrightarrow>
    spec_step S Readdir (Entries 0 (([DOT], None) # ([DOT, DOT], None) # es)) S"
| opendir: "sp_fds S k = None \<Longrightarrow> spec_step S (Opendir fi) (Handle 0 (handle fi k)) (S\<lparr>sp_fds := (sp_fds S)(k \<mapsto> 1)\<rparr>)"
| releasedir: "sp_fds S k = Some 1 \<Longrightarrow>
    spec_step S (Releasedir fi k) (Status 0) (S\<lparr>sp_fds := (sp_fds S)(k := None)\<rparr>)"
| read_bytes: "sp_fds S k = Some n \<Longrightarrow> sp_files S n = Some (l, F) \<Longrightarrow> m = min sz (l - off) \<Longrightarrow>
    spec_step S (Read fi k off sz buf) (Data (int m) (Some (take m (drop off F) @ drop m buf))) S"
| write_bytes: "sp_fds S k = Some n \<Longrightarrow> sp_files S n = Some (l, F) \<Longrightarrow>
    spec_step S (Write fi k off sz buf) (Status (int sz))
      (S\<lparr>sp_files := (sp_files S)(n \<mapsto> (max l (off + sz), take off F @ take sz buf @ drop (off + sz) F))\<rparr>)"

inductive_cases spec_unlinkE: "spec_step S (Unlink nm) r S'"
inductive_cases spec_releaseE: "spec_step S (Release fi k) r S'"

subsection \<open>The abstraction\<close>

definition file_of :: "fs_abs \<Rightarrow> u64 \<Rightarrow> (nat \<times> bytes) option" where
  "file_of A n = (if used A n \<and> n \<noteq> 1 then Some (unat (isize (a_inode A n)), file_bytes A n) else None)"

definition fd_of :: "pool \<Rightarrow> nat \<Rightarrow> u64 option" where
  "fd_of p k = (if in_use p k then (case slot_cell (get_slot p k) of Inumber n \<Rightarrow> Some n | Next x \<Rightarrow> None) else None)"

definition spec_of :: "filesystem \<Rightarrow> pool \<Rightarrow> spec" where
  "spec_of f p = \<lparr>sp_names = names (abs_fs f), sp_files = file_of (abs_fs f), sp_fds = fd_of p\<rparr>"

lemma spec_of_sel [simp]:
  "sp_names (spec_of f p) = names (abs_fs f)" "sp_files (spec_of f p) = file_of (abs_fs f)" "sp_fds (spec_of f p) = fd_of p"
  by (simp_all add: spec_of_def)

lemma not_used_0 [simp]: "\<not> used A 0"
  by (simp add: used_def valid_ino_def)

lemma file_bytes_cong: "fblock A' (a_inode A' n) = fblock A (a_inode A n) \<Longrightarrow> file_bytes A' n = file_bytes A n"
  by (simp add: file_bytes_def)

lemma same_file_of: "same_file A A' m \<Longrightarrow> used A m \<Longrightarrow> file_of A' m = file_of A m"
proof -
  assume s: "same_file A A' m" "used A m"
  then have "file_bytes A' m = file_bytes A m" by (intro file_bytes_cong) (unfold same_file_def, blast)
  then show ?thesis using s by (simp add: same_file_def file_of_def)
qed

lemma only_changes_files: "only_changes A A' n \<Longrightarrow> file_of A' = (file_of A)(n := file_of A' n)"
proof (rule ext)
  fix m assume oc: "only_changes A A' n"
  show "file_of A' m = ((file_of A)(n := file_of A' n)) m"
  proof (cases "m = n \<or> m = 1")
    case True
    then show ?thesis by (auto simp: file_of_def)
  next
    case False
    then show ?thesis
      using oc same_file_of [of A A' m] by (cases "used A m") (auto simp: only_changes_def others_same_def file_of_def)
  qed
qed

lemma only_changes_none:
  assumes "only_changes A A' n" "n = 0 \<or> n = 1"
  shows "file_of A' = file_of A"
  using only_changes_files [OF assms(1)] assms(2) by (auto simp: file_of_def fun_eq_iff)

lemma fd_added_fds:
  assumes "fd_added p p' k n"
  shows "fd_of p' = (fd_of p)(k \<mapsto> n)" "fd_of p k = None"
  using assms by (auto simp: fd_added_def fd_of_def fun_eq_iff)

lemma fd_closed_fds:
  assumes "pool_ok p" "in_use p k"
  shows "fd_of (sfs_filedescriptor_free p k) = (fd_of p)(k := None)"
  using fd_close_ok [OF assms] by (auto simp: fd_of_def fun_eq_iff)

lemma fd_of_Some: "fd_of p k = Some n \<longleftrightarrow> in_use p k \<and> slot_cell (get_slot p k) = Inumber n"
  by (auto simp: fd_of_def split: cell.splits)

lemma ran_fd_of: "n \<in> ran (fd_of p) \<longleftrightarrow> fds_on p n \<noteq> {}"
  by (auto simp: ran_def fds_on_def fd_of_Some)

lemma concat_replicates: "concat (replicate n (replicate m x)) = replicate (n * m) x"
  by (induction n) (simp_all add: replicate_add)

lemma new_inode_bytes: "new_inode env m A n (a_inode A' n) \<Longrightarrow> used A' n \<Longrightarrow> n \<noteq> 1 \<Longrightarrow> file_of A' n = Some empty_file"
proof -
  assume n: "new_inode env m A n (a_inode A' n)" "used A' n" "n \<noteq> 1"
  have "fblock A' (a_inode A' n) k = zero_block" for k
  proof -
    have "fptr A' (a_inode A' n) k = 0" using n(1) by (auto simp: new_inode_def fptr_def)
    then show ?thesis by (simp add: fblock_def)
  qed
  then have "fblock A' (a_inode A' n) = (\<lambda>k. zero_block)" by (rule ext)
  then have "file_bytes A' n = concat (map (\<lambda>k. zero_block) [0..<76])" by (simp add: file_bytes_def)
  also have "\<dots> = replicate MAX_FILE 0" by (simp only: map_replicate_const length_upt zero_block_def concat_replicates) simp
  finally show ?thesis using n by (auto simp: file_of_def new_inode_def)
qed

subsection \<open>Every request refines the specification\<close>

text \<open>No file has the empty name, which only a damaged directory could hold.\<close>

definition good :: "sfs_state \<Rightarrow> filesystem \<Rightarrow> pool \<Rightarrow> bool" where
  "good s f p \<longleftrightarrow> sys_ok s f p \<and> names (abs_fs f) [] = None"

lemma file_present:
  assumes "sys_ok s f p"
  shows "names (abs_fs f) nm = Some n \<Longrightarrow> \<exists>c. file_of (abs_fs f) n = Some c \<and> describes (Some (sfs_fs_inode_to_stat (a_inode (abs_fs f) n))) n c"
    "fd_of p k = Some n \<Longrightarrow> n \<noteq> 1 \<Longrightarrow> file_of (abs_fs f) n = Some (unat (isize (a_inode (abs_fs f) n)), file_bytes (abs_fs f) n)"
    "names (abs_fs f) nm = Some n \<Longrightarrow> n \<noteq> 1"
proof -
  note sd = sys_okD [OF assms]
  show "names (abs_fs f) nm = Some n \<Longrightarrow> n \<noteq> 1" using names_used [OF sd(8)] by blast
  show "names (abs_fs f) nm = Some n \<Longrightarrow> \<exists>c. file_of (abs_fs f) n = Some c \<and> describes (Some (sfs_fs_inode_to_stat (a_inode (abs_fs f) n))) n c"
    using names_used [OF sd(8), of nm n] sd(9) by (auto simp: file_of_def describes_def sfs_fs_inode_to_stat_def files_ok_def)
  show "fd_of p k = Some n \<Longrightarrow> n \<noteq> 1 \<Longrightarrow> file_of (abs_fs f) n = Some (unat (isize (a_inode (abs_fs f) n)), file_bytes (abs_fs f) n)"
    using sd(7) by (auto simp: fd_of_Some file_of_def links_ok_def)
qed

lemma open_on_file_slot:
  assumes "sys_ok s f p" "open_on_file p k"
  obtains n where "in_use p k" "slot_cell (get_slot p k) = Inumber n" "n \<noteq> 1" "fd_of p k = Some n" "sfs_fd_inumber p k = n"
proof -
  note k = assms(2) [unfolded open_on_file_def]
  obtain n where n: "slot_cell (get_slot p k) = Inumber n" using sys_okD(7) [OF assms(1)] k by (auto simp: links_ok_def)
  show ?thesis using that [of n] k n by (auto simp: fd_of_Some sfs_fd_inumber_def)
qed

text \<open>What is to be shown of a request.\<close>

definition served :: "sfs_env \<Rightarrow> request \<Rightarrow> sfs_state \<Rightarrow> filesystem \<Rightarrow> pool \<Rightarrow> bool" where
  "served env req s f p \<longleftrightarrow> (\<exists>r s' f' p'. serve env req s = Some (r, s') \<and> good s' f' p' \<and>
     spec_step (spec_of f p) req r (spec_of f' p'))"

lemma servedI:
  assumes "serve env req s = Some (r, s')" "sys_ok s' f' p'" "names (abs_fs f') [] = None"
    and "spec_step (spec_of f p) req r S'" "S' = spec_of f' p'"
  shows "served env req s f p"
  using assms unfolding served_def good_def by blast

lemma served_getattr:
  assumes g: "good s f p" and env: "env_full env" and nm: "proper_name nm" and n: "names (abs_fs f) nm = None"
  shows "served env (Getattr nm) s f p"
proof -
  have so: "sys_ok s f p" "names (abs_fs f) [] = None" using g by (simp_all add: good_def)
  note sd = sys_okD [OF so(1)]
  have e: "env_ok env" using env by (simp add: env_full_def)
  obtain s' f' where 1: "sfs_getattr env (SLASH # nm) s = Some ((- ENOENT, None), s')"
    "ready s' f'" "st_pool s' = st_pool s" "names (abs_fs f') = names (abs_fs f)" "only_changes (abs_fs f) (abs_fs f') 0"
    using getattr_ok(1) [OF sd(1) e nm n] by blast
  have u: "\<And>m. used (abs_fs f') m \<Longrightarrow> used (abs_fs f) m" "others_same (abs_fs f) (abs_fs f') 0"
    using 1(5) by (auto simp: only_changes_def dest: spec [of _ 0])
  have u1: "used (abs_fs f') 1" using 1(2) mountedD(7) by (simp add: ready_def)
  have "links_ok (abs_fs f') p"
  proof (rule links_ok_frame [OF sd(7) u(2)])
    show "\<exists>m. slot_cell (get_slot p k) = Inumber m \<and> used (abs_fs f') m" if "in_use p k" for k
    proof -
      from that sd(7) obtain m where m: "slot_cell (get_slot p k) = Inumber m" "used (abs_fs f) m" by (auto simp: links_ok_def)
      then have "used (abs_fs f') m" using u(2) u1 by (cases "m = 1 \<or> m = 0") (auto simp: others_same_def same_file_def)
      then show ?thesis using m(1) by blast
    qed
  qed (use u(1) 1(4) in auto)
  then have so': "sys_ok s' f' p" using 1(2,3) sd(5,6) by (simp add: sys_ok_def)
  have S: "spec_of f' p = spec_of f p" using 1(4) only_changes_none [OF 1(5)] by (simp add: spec_of_def)
  show ?thesis using 1(1,4) so(2) S n
    by (intro servedI [where f' = f' and p' = p, OF _ so' _ spec_step.getattr_absent]) simp_all
qed

lemma served_open:
  assumes g: "good s f p" and env: "env_full env" and nm: "proper_name nm" and p: "free_fds p \<noteq> {}"
  shows "served env (Open nm fi) s f p"
    "names (abs_fs f) nm \<noteq> None \<Longrightarrow> served env (Create nm m fi) s f p"
proof -
  have so: "sys_ok s f p" "names (abs_fs f) [] = None" using g by (simp_all add: good_def)
  have e: "env_full env" "env_ok env" using env by (simp_all add: env_full_def)
  have "served env (Open nm fi) s f p \<and> (names (abs_fs f) nm \<noteq> None \<longrightarrow> served env (Create nm m fi) s f p)"
  proof (cases "names (abs_fs f) nm")
    case None
    obtain s' f' where 1: "sfs_open env (SLASH # nm) fi s = Some ((- ENOENT, fi), s')" "sys_ok s' f' p"
      "names (abs_fs f') = names (abs_fs f)" "only_changes (abs_fs f) (abs_fs f') 1"
      using sfs_open_absent [OF so(1) e(2) nm None] by blast
    have S: "spec_of f' p = spec_of f p" using 1(3) only_changes_none [OF 1(4)] by (simp add: spec_of_def)
    show ?thesis using 1(1,3) so(2) S None
      by (intro conjI impI servedI [where f' = f' and p' = p, OF _ 1(2) _ spec_step.open_absent]) simp_all
  next
    case (Some n)
    obtain k s' f' p' where 1: "sfs_open env (SLASH # nm) fi s = Some ((0, handle fi k), s')" "sys_ok s' f' p'"
      "fd_added p p' k n" "names (abs_fs f') = names (abs_fs f)" "only_changes (abs_fs f) (abs_fs f') n"
      "isize (a_inode (abs_fs f') n) = isize (a_inode (abs_fs f) n)"
      "fblock (abs_fs f') (a_inode (abs_fs f') n) = fblock (abs_fs f) (a_inode (abs_fs f) n)"
      using sfs_open_present [OF so(1) e(1) nm Some p, of fi] by blast
    have u: "used (abs_fs f) n" "used (abs_fs f') n"
      using names_used [OF sys_okD(8) [OF so(1)] Some] names_used [OF sys_okD(8) [OF 1(2)], of nm n] 1(4) Some by simp_all
    have "file_of (abs_fs f') n = file_of (abs_fs f) n" using u 1(6) file_bytes_cong [OF 1(7)] by (simp add: file_of_def)
    then have "file_of (abs_fs f') = file_of (abs_fs f)" using only_changes_files [OF 1(5)] by simp
    then have S: "(spec_of f p)\<lparr>sp_fds := (sp_fds (spec_of f p))(k \<mapsto> n)\<rparr> = spec_of f' p'"
      using 1(4) fd_added_fds [OF 1(3)] by (simp add: spec_of_def)
    have k: "sp_fds (spec_of f p) k = None" using fd_added_fds [OF 1(3)] by simp
    have "served env (Open nm fi) s f p"
      using 1(1,4) so(2) k Some
      by (intro servedI [where f' = f' and p' = p', OF _ 1(2) _ spec_step.open_present S]) simp_all
    moreover have "served env (Create nm m fi) s f p"
    proof (cases "fi_flags fi AND O_EXCL = 0")
      case True
      then have "sfs_create env (SLASH # nm) m fi s = Some ((0, handle fi k), s')"
        using sfs_create_present [OF so(1) e(1) nm Some p] 1(1) by simp
      then show ?thesis
        using 1(4) so(2) k Some True
        by (intro servedI [where f' = f' and p' = p', OF _ 1(2) _ spec_step.create_opens S]) simp_all
    next
      case False
      obtain s2 f2 where 2: "sfs_create env (SLASH # nm) m fi s = Some ((- EEXIST, fi), s2)" "sys_ok s2 f2 p"
        "names (abs_fs f2) = names (abs_fs f)" "only_changes (abs_fs f) (abs_fs f2) 1"
        using sfs_create_exclusive [OF so(1) e(2) nm Some False] by blast
      have "spec_of f2 p = spec_of f p" using 2(3) only_changes_none [OF 2(4)] by (simp add: spec_of_def)
      then show ?thesis using 2(1,3) so(2) Some False
        by (intro servedI [where f' = f2 and p' = p, OF _ 2(2) _ spec_step.create_refused [of _ nm n]]) simp_all
    qed
    ultimately show ?thesis by simp
  qed
  then show "served env (Open nm fi) s f p" "names (abs_fs f) nm \<noteq> None \<Longrightarrow> served env (Create nm m fi) s f p"
    by simp_all
qed

lemma served_create:
  assumes g: "good s f p" and env: "env_full env" and a: "admissible f p (Create nm m fi)"
  shows "served env (Create nm m fi) s f p"
proof (cases "names (abs_fs f) nm")
  case (Some n)
  then show ?thesis using served_open(2) [OF g env, of nm m fi] a by simp
next
  case None
  have so: "sys_ok s f p" "names (abs_fs f) [] = None" using g by (simp_all add: good_def)
  have e: "env_full env" using env by simp
  have nm: "proper_name nm" "free_fds p \<noteq> {}" "free_inodes (abs_fs f) \<noteq> {}"
    "writable (abs_fs f) (root (abs_fs f)) (vacant_from (abs_fs f) (root (abs_fs f)) 0)" using a None by simp_all
  obtain n k s' f' p' where 1: "sfs_create env (SLASH # nm) m fi s = Some ((0, handle fi k), s')" "sys_ok s' f' p'"
    "n \<in> free_inodes (abs_fs f)" "names (abs_fs f') = (names (abs_fs f))(nm \<mapsto> n)"
    "new_inode env m (abs_fs f) n (a_inode (abs_fs f') n)" "only_changes (abs_fs f) (abs_fs f') n" "fd_added p p' k n"
    using sfs_create_new [OF so(1) e nm(1) None nm(2-4), of m fi] by blast
  have n: "used (abs_fs f') n" "n \<noteq> 1" using names_used [OF sys_okD(8) [OF 1(2)], of nm n] 1(4) by simp_all
  have f: "file_of (abs_fs f) n = None" using 1(3) by (simp add: file_of_def used_def)
  have "file_of (abs_fs f') = (file_of (abs_fs f))(n \<mapsto> empty_file)"
    using only_changes_files [OF 1(6)] new_inode_bytes [OF 1(5) n] by simp
  then have S: "(spec_of f p)\<lparr>sp_names := (sp_names (spec_of f p))(nm \<mapsto> n),
      sp_files := (sp_files (spec_of f p))(n \<mapsto> empty_file), sp_fds := (sp_fds (spec_of f p))(k \<mapsto> n)\<rparr> = spec_of f' p'"
    using 1(4) fd_added_fds [OF 1(7)] by (simp add: spec_of_def)
  have "names (abs_fs f') [] = None" using 1(4) so(2) nm(1) by (auto simp: proper_name_def)
  then show ?thesis
    using 1(1) None n(2) f fd_added_fds(2) [OF 1(7)]
    by (intro servedI [where f' = f' and p' = p', OF _ 1(2) _ spec_step.create_fresh S]) simp_all
qed

lemma served_unlink:
  assumes g: "good s f p" and env: "env_full env" and nm: "proper_name nm"
  shows "served env (Unlink nm) s f p"
proof -
  have so: "sys_ok s f p" "names (abs_fs f) [] = None" using g by (simp_all add: good_def)
  have e: "env_ok env" using env by (simp add: env_full_def)
  show ?thesis
  proof (cases "names (abs_fs f) nm")
    case None
    obtain s' f' where 1: "sfs_unlink env (SLASH # nm) s = Some (- ENOENT, s')" "sys_ok s' f' p"
      "names (abs_fs f') = names (abs_fs f)" "only_changes (abs_fs f) (abs_fs f') 1"
      using sfs_unlink_absent [OF so(1) e nm None] by blast
    have "spec_of f' p = spec_of f p" using 1(3) only_changes_none [OF 1(4)] by (simp add: spec_of_def)
    then show ?thesis using 1(1,3) so(2) None
      by (intro servedI [where f' = f' and p' = p, OF _ 1(2) _ spec_step.unlink_absent]) simp_all
  next
    case (Some n)
    obtain s' f' where 1: "sfs_unlink env (SLASH # nm) s = Some (0, s')" "sys_ok s' f' p"
      "names (abs_fs f') = (names (abs_fs f))(nm := None)" "only_changes (abs_fs f) (abs_fs f') n"
      "if fds_on p n = {} then n \<in> free_inodes (abs_fs f')
       else used (abs_fs f') n \<and> fblock (abs_fs f') (a_inode (abs_fs f') n) = fblock (abs_fs f) (a_inode (abs_fs f) n) \<and>
         isize (a_inode (abs_fs f') n) = isize (a_inode (abs_fs f) n)"
      using sfs_unlink_present [OF so(1) e nm Some] by blast
    have u: "used (abs_fs f) n" using names_used [OF sys_okD(8) [OF so(1)] Some] by simp
    have "file_of (abs_fs f') = (if n \<in> ran (fd_of p) then file_of (abs_fs f) else (file_of (abs_fs f))(n := None))"
    proof (cases "fds_on p n = {}")
      case True
      then have "file_of (abs_fs f') n = None" using 1(5) by (simp add: file_of_def used_def)
      then show ?thesis using only_changes_files [OF 1(4)] True by (simp add: ran_fd_of)
    next
      case False
      then have "file_of (abs_fs f') n = file_of (abs_fs f) n" using 1(5) u file_bytes_cong [of "abs_fs f'" n "abs_fs f"] by (simp add: file_of_def)
      then show ?thesis using only_changes_files [OF 1(4)] False by (simp add: ran_fd_of)
    qed
    then have S: "(spec_of f p)\<lparr>sp_names := (sp_names (spec_of f p))(nm := None),
        sp_files := if n \<in> ran (sp_fds (spec_of f p)) then sp_files (spec_of f p) else (sp_files (spec_of f p))(n := None)\<rparr> = spec_of f' p"
      using 1(3) by (simp add: spec_of_def)
    show ?thesis using 1(1,3) so(2) Some
      by (intro servedI [where f' = f' and p' = p, OF _ 1(2) _ spec_step.unlink_present S]) simp_all
  qed
qed

lemma served_release:
  assumes g: "good s f p" and k: "open_on_file p k"
  shows "served env (Release fi k) s f p"
proof -
  have so: "sys_ok s f p" "names (abs_fs f) [] = None" using g by (simp_all add: good_def)
  note sd = sys_okD [OF so(1)]
  obtain n where n: "in_use p k" "slot_cell (get_slot p k) = Inumber n" "n \<noteq> 1" "fd_of p k = Some n"
    by (rule open_on_file_slot [OF so(1) k])
  let ?p' = "sfs_filedescriptor_free p k"
  obtain s' f' where 1: "sfs_release (handle fi k) s = Some (0, s')" "sys_ok s' f' ?p'"
    "names (abs_fs f') = names (abs_fs f)" "only_changes (abs_fs f) (abs_fs f') n"
    "if n \<notin> ran (names (abs_fs f)) \<and> fds_on p n = {k} then n \<in> free_inodes (abs_fs f')
     else used (abs_fs f') n \<and> fblock (abs_fs f') (a_inode (abs_fs f') n) = fblock (abs_fs f) (a_inode (abs_fs f) n) \<and>
       isize (a_inode (abs_fs f') n) = isize (a_inode (abs_fs f) n)"
    using sfs_release_open [OF so(1) n(1-3), of fi] by blast
  have u: "used (abs_fs f) n" using n(1,2) sd(7) by (auto simp: links_ok_def)
  have "fds_on ?p' n = fds_on p n - {k}" using fds_on_close [OF n(1) fd_close_ok(2,3) [OF sd(6) n(1)] n(2)] by simp
  moreover have "k \<in> fds_on p n" using n(1,2) by (simp add: fds_on_def)
  ultimately have last: "n \<in> ran (fd_of ?p') \<longleftrightarrow> fds_on p n \<noteq> {k}" unfolding ran_fd_of by auto
  have "file_of (abs_fs f') =
      (if n \<in> ran (names (abs_fs f)) \<or> n \<in> ran (fd_of ?p') then file_of (abs_fs f) else (file_of (abs_fs f))(n := None))"
  proof (cases "n \<notin> ran (names (abs_fs f)) \<and> fds_on p n = {k}")
    case True
    then have "file_of (abs_fs f') n = None" using 1(5) by (simp add: file_of_def used_def)
    then show ?thesis using only_changes_files [OF 1(4)] True last by simp
  next
    case False
    then have "file_of (abs_fs f') n = file_of (abs_fs f) n" using 1(5) u file_bytes_cong [of "abs_fs f'" n "abs_fs f"] by (simp add: file_of_def)
    then show ?thesis using only_changes_files [OF 1(4)] False last by auto
  qed
  then have S: "(spec_of f p)\<lparr>sp_fds := (sp_fds (spec_of f p))(k := None),
      sp_files := if n \<in> ran (sp_names (spec_of f p)) \<or> n \<in> ran ((sp_fds (spec_of f p))(k := None)) then sp_files (spec_of f p)
        else (sp_files (spec_of f p))(n := None)\<rparr> = spec_of f' ?p'"
    using 1(3) fd_closed_fds [OF sd(6) n(1)] by (simp add: spec_of_def)
  show ?thesis using 1(1,3) so(2) n(3,4)
    by (intro servedI [where f' = f' and p' = ?p', OF _ 1(2) _ spec_step.release S]) simp_all
qed

lemma served_readdir:
  assumes g: "good s f p" and env: "env_full env"
  shows "served env Readdir s f p"
proof -
  have so: "sys_ok s f p" "names (abs_fs f) [] = None" using g by (simp_all add: good_def)
  have e: "env_ok env" using env by (simp add: env_full_def)
  let ?es = "listing (abs_fs f) 0"
  obtain s' f' where 1: "sfs_readdir env collect [SLASH] [] s =
      Some ((0, ([DOT], None) # ([DOT, DOT], None) # ?es), s')" "sys_ok s' f' p"
    "names (abs_fs f') = names (abs_fs f)" "only_changes (abs_fs f) (abs_fs f') 1"
    using sfs_readdir_root [OF so(1) e, of collect "[]"] unfolding fill_collect append_Nil by blast
  note l = listing_names [OF sys_okD(8) [OF so(1)]]
  have "\<forall>(nm, st)\<in>set ?es. \<exists>n c. names (abs_fs f) nm = Some n \<and> file_of (abs_fs f) n = Some c \<and> describes st n c"
    using l(3) file_present(1) [OF so(1)] by blast
  moreover have "spec_of f' p = spec_of f p" using 1(3) only_changes_none [OF 1(4)] by (simp add: spec_of_def)
  ultimately show ?thesis using 1(1,3) so(2) l(1,2)
    by (intro servedI [where f' = f' and p' = p, OF _ 1(2) _ spec_step.readdir]) simp_all
qed

lemma root_changes_none:
  "only_changes A A' 1 \<Longrightarrow> file_of A' = file_of A"
  by (simp add: only_changes_none)

lemma served_opendir:
  assumes g: "good s f p" and env: "env_full env" and p: "free_fds p \<noteq> {}"
  shows "served env (Opendir fi) s f p"
proof -
  have so: "sys_ok s f p" "names (abs_fs f) [] = None" using g by (simp_all add: good_def)
  have e: "env_full env" using env by simp
  obtain k s' f' p' where 1: "sfs_opendir env [SLASH] fi s = Some ((0, handle fi k), s')" "sys_ok s' f' p'"
    "names (abs_fs f') = names (abs_fs f)" "only_changes (abs_fs f) (abs_fs f') 1" "fd_added p p' k 1"
    using sfs_opendir_root [OF so(1) e so(2) p, of fi] by blast
  have "(spec_of f p)\<lparr>sp_fds := (sp_fds (spec_of f p))(k \<mapsto> 1)\<rparr> = spec_of f' p'"
    using 1(3) root_changes_none [OF 1(4)] fd_added_fds [OF 1(5)] by (simp add: spec_of_def)
  then show ?thesis using 1(1,3) so(2) fd_added_fds(2) [OF 1(5)]
    by (intro servedI [where f' = f' and p' = p', OF _ 1(2) _ spec_step.opendir]) simp_all
qed

lemma served_releasedir:
  assumes g: "good s f p" and k: "in_use p k" "slot_cell (get_slot p k) = Inumber 1"
  shows "served env (Releasedir fi k) s f p"
proof -
  have so: "sys_ok s f p" "names (abs_fs f) [] = None" using g by (simp_all add: good_def)
  let ?p' = "sfs_filedescriptor_free p k"
  obtain s' f' where 1: "sfs_releasedir (handle fi k) s = Some (0, s')" "sys_ok s' f' ?p'"
    "names (abs_fs f') = names (abs_fs f)" "only_changes (abs_fs f) (abs_fs f') 1"
    using sfs_releasedir_root [OF so(1) k, of fi] by blast
  have "(spec_of f p)\<lparr>sp_fds := (sp_fds (spec_of f p))(k := None)\<rparr> = spec_of f' ?p'"
    using 1(3) root_changes_none [OF 1(4)] fd_closed_fds [OF sys_okD(6) [OF so(1)] k(1)] by (simp add: spec_of_def)
  then show ?thesis using 1(1,3) so(2) k
    by (intro servedI [where f' = f' and p' = ?p', OF _ 1(2) _ spec_step.releasedir]) (simp_all add: fd_of_Some)
qed

lemma read_transferred:
  assumes g: "good s f p" and k: "in_use p k" "slot_cell (get_slot p k) = Inumber n" "n \<noteq> 1" and t: "transfer_ok off sz buf"
  obtains s' f' where
    "serve env (Read fi k off sz buf) s = Some (Data (int sz) (Some (take sz (drop off (file_bytes (abs_fs f) n)) @ drop sz buf)), s')"
    "good s' f' p" "spec_of f' p = spec_of f p"
proof -
  have so: "sys_ok s f p" "names (abs_fs f) [] = None" using g by (simp_all add: good_def)
  have fk: "fd_of p k = Some n" using k by (simp add: fd_of_Some)
  have sz: "1 \<le> sz" "off + sz \<le> MAX_FILE" "sz \<le> length buf" "regular off sz" using t by (simp_all add: transfer_ok_def)
  let ?F = "file_bytes (abs_fs f) n"
  obtain s' f' where 1: "sfs_read buf (of_nat sz) (int off) (handle fi k) s = Some ((int sz, Some (take sz (drop off ?F) @ drop sz buf)), s')"
    "sys_ok s' f' p" "names (abs_fs f') = names (abs_fs f)" "only_changes (abs_fs f) (abs_fs f') n"
    "isize (a_inode (abs_fs f') n) = isize (a_inode (abs_fs f) n)" "file_bytes (abs_fs f') n = ?F"
    using sfs_read_regular [OF so(1) k sz, of fi] by blast
  note c = file_present(2) [OF so(1) fk k(3)] file_present(2) [OF 1(2) fk k(3)]
  have "file_of (abs_fs f') n = file_of (abs_fs f) n" using c 1(5,6) by simp
  then have "file_of (abs_fs f') = file_of (abs_fs f)" using only_changes_files [OF 1(4)] by simp
  then have "spec_of f' p = spec_of f p" using 1(3) by (simp add: spec_of_def)
  then show ?thesis using that [of s' f'] 1(1-3) so(2) by (simp add: good_def)
qed

lemma served_read:
  assumes g: "good s f p" and k: "open_on_file p k" and t: "transfer_ok off sz buf"
    and l: "off + sz \<le> unat (isize (a_inode (abs_fs f) (sfs_fd_inumber p k)))"
  shows "served env (Read fi k off sz buf) s f p"
proof -
  have so: "sys_ok s f p" using g by (simp add: good_def)
  obtain n where n: "in_use p k" "slot_cell (get_slot p k) = Inumber n" "n \<noteq> 1" "fd_of p k = Some n" "sfs_fd_inumber p k = n"
    by (rule open_on_file_slot [OF so k])
  obtain s' f' where 1: "serve env (Read fi k off sz buf) s =
      Some (Data (int sz) (Some (take sz (drop off (file_bytes (abs_fs f) n)) @ drop sz buf)), s')" "good s' f' p" "spec_of f' p = spec_of f p"
    by (rule read_transferred [OF g n(1-3) t])
  have "sz = min sz (unat (isize (a_inode (abs_fs f) n)) - off)" using l n(5) by simp
  from spec_step.read_bytes [of "spec_of f p", OF _ _ this] show ?thesis
    using 1 n(4) file_present(2) [OF so n(4,3)] unfolding served_def by fastforce
qed

lemma served_write:
  assumes g: "good s f p" and k: "open_on_file p k" and t: "transfer_ok off sz buf"
    and r: "room_for (abs_fs f) (sfs_fd_inumber p k) off sz"
  shows "served env (Write fi k off sz buf) s f p"
proof -
  have so: "sys_ok s f p" "names (abs_fs f) [] = None" using g by (simp_all add: good_def)
  obtain n where n: "in_use p k" "slot_cell (get_slot p k) = Inumber n" "n \<noteq> 1" "fd_of p k = Some n" "sfs_fd_inumber p k = n"
    by (rule open_on_file_slot [OF so(1) k])
  have sz: "1 \<le> sz" "off + sz \<le> MAX_FILE" "sz \<le> length buf" "regular off sz" using t by (simp_all add: transfer_ok_def)
  let ?F = "file_bytes (abs_fs f) n" and ?l = "unat (isize (a_inode (abs_fs f) n))"
  let ?c = "(max ?l (off + sz), take off ?F @ take sz buf @ drop (off + sz) ?F)"
  obtain s' f' where 1: "sfs_write env buf (of_nat sz) (int off) (handle fi k) s = Some (int sz, s')"
    "sys_ok s' f' p" "names (abs_fs f') = names (abs_fs f)" "only_changes (abs_fs f) (abs_fs f') n"
    "unat (isize (a_inode (abs_fs f') n)) = max ?l (off + sz)" "file_bytes (abs_fs f') n = take off ?F @ take sz buf @ drop (off + sz) ?F"
    using sfs_write_regular [OF so(1) n(1-3) sz r [unfolded n(5)], of env fi] by blast
  note c = file_present(2) [OF so(1) n(4,3)] file_present(2) [OF 1(2) n(4,3)]
  have "file_of (abs_fs f') = (file_of (abs_fs f))(n \<mapsto> ?c)"
    using only_changes_files [OF 1(4)] c(2) 1(5,6) by simp
  then have S: "(spec_of f p)\<lparr>sp_files := (sp_files (spec_of f p))(n \<mapsto> ?c)\<rparr> = spec_of f' p"
    using 1(3) by (simp add: spec_of_def)
  show ?thesis using 1(1,3) so(2) n(4) c(1)
    by (intro servedI [where f' = f' and p' = p, OF _ 1(2) _ spec_step.write_bytes S]) simp_all
qed

lemma serve_refines:
  assumes g: "good s f p" and env: "env_full env" and a: "admissible f p req"
  shows "served env req s f p"
proof (cases req)
  case (Create nm m fi)
  then show ?thesis using served_create [OF g env] a by simp
qed (use a served_getattr [OF g env] served_open(1) [OF g env] served_unlink [OF g env] served_release [OF g] served_readdir [OF g env]
    served_opendir [OF g env] served_releasedir [OF g] served_read [OF g] served_write [OF g] in simp_all)

subsection \<open>Runs\<close>

text \<open>A run of admitted requests, in any order and each in an environment of its own, with the replies given.\<close>

definition serve_step :: "sfs_state \<Rightarrow> request \<times> reply \<Rightarrow> sfs_state \<Rightarrow> bool" where
  "serve_step s l s' \<longleftrightarrow> (\<exists>env f p. env_full env \<and> st_fs s = Some f \<and> st_pool s = Some p \<and> admissible f p (fst l) \<and>
     serve env (fst l) s = Some (snd l, s'))"

definition spec_label :: "spec \<Rightarrow> request \<times> reply \<Rightarrow> spec \<Rightarrow> bool" where
  "spec_label S l S' \<longleftrightarrow> spec_step S (fst l) (snd l) S'"

abbreviation run :: "sfs_state \<Rightarrow> (request \<times> reply) list \<Rightarrow> sfs_state \<Rightarrow> bool" where
  "run \<equiv> trace serve_step"

abbreviation spec_run :: "spec \<Rightarrow> (request \<times> reply) list \<Rightarrow> spec \<Rightarrow> bool" where
  "spec_run \<equiv> trace spec_label"

definition represents :: "sfs_state \<Rightarrow> spec \<Rightarrow> bool" where
  "represents s S \<longleftrightarrow> (\<exists>f p. good s f p \<and> S = spec_of f p)"

lemma good_state: "good s f p \<Longrightarrow> st_fs s = Some f \<and> st_pool s = Some p"
  using sys_okD(3,5) [of s f p] by (simp add: good_def)

interpretation service: forward_simulation serve_step spec_label represents
proof
  fix s S l s' assume "represents s S" "serve_step s l s'"
  then obtain env f p where 1: "good s f p" "S = spec_of f p" "env_full env" "admissible f p (fst l)"
    "serve env (fst l) s = Some (snd l, s')"
    using good_state by (fastforce simp: represents_def serve_step_def)
  from serve_refines [OF 1(1,3,4)] 1(5) obtain f' p' where
    "good s' f' p'" "spec_step (spec_of f p) (fst l) (snd l) (spec_of f' p')"
    by (auto simp: served_def)
  then show "\<exists>S'. spec_label S l S' \<and> represents s' S'" using 1(2) by (auto simp: spec_label_def represents_def)
qed

lemma run_refines:
  assumes "run s0 tr s" "good s0 f0 p0"
  shows "\<exists>f p. good s f p \<and> spec_run (spec_of f0 p0) tr (spec_of f p)"
proof -
  have "represents s0 (spec_of f0 p0)" using assms(2) by (auto simp: represents_def)
  from service.trace_simulate [OF assms(1) this] show ?thesis by (auto simp: represents_def)
qed

lemma run_snoc: "run s0 tr s \<Longrightarrow> env_full env \<Longrightarrow> st_fs s = Some f \<Longrightarrow> st_pool s = Some p \<Longrightarrow> admissible f p req \<Longrightarrow>
    serve env req s = Some (r, s') \<Longrightarrow> run s0 (tr @ [(req, r)]) s'"
  by (rule trace_snoc) (auto simp: serve_step_def)

text \<open>No request of a run fails to be answered.\<close>

lemma run_progress:
  assumes "run s0 tr s" "good s0 f0 p0" "st_fs s = Some f" "st_pool s = Some p" "env_full env" "admissible f p req"
  shows "\<exists>r s'. serve env req s = Some (r, s') \<and> run s0 (tr @ [(req, r)]) s'"
proof -
  obtain f1 p1 where 1: "good s f1 p1" using run_refines [OF assms(1,2)] by blast
  then have "f1 = f" "p1 = p" using assms(3,4) good_state [of s f1 p1] by simp_all
  with 1 have "served env req s f p" using serve_refines assms(5,6) by blast
  then show ?thesis using run_snoc [OF assms(1,5,3,4,6)] by (auto simp: served_def)
qed

text \<open>What holds of the volume after every run.\<close>

lemma good_volume:
  assumes "good s f p"
  shows "\<not> st_locked s" "used (abs_fs f) m \<Longrightarrow> used (abs_fs f) n \<Longrightarrow> m \<noteq> n \<Longrightarrow> owns (abs_fs f) m \<inter> owns (abs_fs f) n = {}"
    "used (abs_fs f) n \<Longrightarrow> owns (abs_fs f) n \<inter> free_blocks (abs_fs f) = {}"
    "used (abs_fs f) n \<Longrightarrow> n \<noteq> 1 \<Longrightarrow> unat (links (a_inode (abs_fs f) n)) =
       (if n \<in> ran (names (abs_fs f)) then 1 else 0) + card {k. in_use p k \<and> slot_cell (get_slot p k) = Inumber n}"
proof -
  have so: "sys_ok s f p" using assms by (simp add: good_def)
  note sd = sys_okD [OF so]
  show "\<not> st_locked s" by (rule sd(2))
  show "used (abs_fs f) m \<Longrightarrow> used (abs_fs f) n \<Longrightarrow> m \<noteq> n \<Longrightarrow> owns (abs_fs f) m \<inter> owns (abs_fs f) n = {}"
    using sd(9) unfolding files_ok_def by blast
  show "used (abs_fs f) n \<Longrightarrow> owns (abs_fs f) n \<inter> free_blocks (abs_fs f) = {}"
    using sd(9) by (auto simp: files_ok_def inode_ok_def owns_def)
  show "used (abs_fs f) n \<Longrightarrow> n \<noteq> 1 \<Longrightarrow> unat (links (a_inode (abs_fs f) n)) =
       (if n \<in> ran (names (abs_fs f)) then 1 else 0) + card {k. in_use p k \<and> slot_cell (get_slot p k) = Inumber n}"
    using sd(7) by (simp add: links_ok_def link_count_def fds_on_def)
qed

text \<open>A file that is open when its name is removed keeps its contents until its last descriptor is released.\<close>

lemma unlinked_file_life:
  assumes g: "good s f p" and n: "names (abs_fs f) nm = Some n" and k: "in_use p k" "slot_cell (get_slot p k) = Inumber n"
    and nm: "proper_name nm" and env: "env_full env" and t: "transfer_ok off sz buf"
  shows "\<exists>s1 s2 s3 f3 p3. serve env (Unlink nm) s = Some (Status 0, s1) \<and>
    serve env (Read fi k off sz buf) s1 = Some (Data (int sz) (Some (take sz (drop off (file_bytes (abs_fs f) n)) @ drop sz buf)), s2) \<and>
    serve env (Release fi k) s2 = Some (Status 0, s3) \<and> good s3 f3 p3 \<and>
    (used (abs_fs f3) n \<longleftrightarrow> fds_on p n \<noteq> {k})"
proof -
  have so: "sys_ok s f p" using g by (simp add: good_def)
  have fk: "fd_of p k = Some n" using k by (simp add: fd_of_Some)
  have n1: "n \<noteq> 1" by (rule file_present(3) [OF so n])
  have F: "file_of (abs_fs f) n = Some (unat (isize (a_inode (abs_fs f) n)), file_bytes (abs_fs f) n)"
    by (rule file_present(2) [OF so fk n1])
  obtain r1 s1 f1 p1 where 1: "serve env (Unlink nm) s = Some (r1, s1)" "good s1 f1 p1" "spec_step (spec_of f p) (Unlink nm) r1 (spec_of f1 p1)"
    using served_unlink [OF g env nm] unfolding served_def by blast
  have S1: "r1 = Status 0" "names (abs_fs f1) = (names (abs_fs f))(nm := None)" "file_of (abs_fs f1) = file_of (abs_fs f)" "fd_of p1 = fd_of p"
    using 1(3) n fk by (auto elim!: spec_unlinkE simp: spec_of_def intro: ranI)
  have k1: "in_use p1 k" "slot_cell (get_slot p1 k) = Inumber n" using S1(4) fk fd_of_Some [of p1 k n] by simp_all
  obtain s2 f2 where 2: "serve env (Read fi k off sz buf) s1 =
      Some (Data (int sz) (Some (take sz (drop off (file_bytes (abs_fs f1) n)) @ drop sz buf)), s2)" "good s2 f2 p1" "spec_of f2 p1 = spec_of f1 p1"
    by (rule read_transferred [OF 1(2) k1 n1 t])
  have "file_of (abs_fs f1) n = Some (unat (isize (a_inode (abs_fs f1) n)), file_bytes (abs_fs f1) n)"
    using file_present(2) [of s1 f1 p1 k n] 1(2) S1(4) fk n1 by (simp add: good_def)
  then have S2: "file_bytes (abs_fs f1) n = file_bytes (abs_fs f) n" using F S1(3) by simp
  have e2: "names (abs_fs f2) = names (abs_fs f1)" "file_of (abs_fs f2) = file_of (abs_fs f)" "fd_of p1 = fd_of p"
    using 2(3) S1(3,4) by (simp_all add: spec_of_def)
  have o2: "open_on_file p1 k" using k1 n1 by (simp add: open_on_file_def)
  obtain r3 s3 f3 p3 where 3: "serve env (Release fi k) s2 = Some (r3, s3)" "good s3 f3 p3"
    "spec_step (spec_of f2 p1) (Release fi k) r3 (spec_of f3 p3)"
    using served_release [where env = env and fi = fi, OF 2(2) o2] unfolding served_def by blast
  have "n \<notin> ran (names (abs_fs f2))" unfolding e2(1) S1(2) ran_unlink [OF sys_okD(8) [OF so] n] by simp
  then have S3: "r3 = Status 0" "file_of (abs_fs f3) n = (if n \<in> ran ((fd_of p)(k := None)) then file_of (abs_fs f) n else None)"
    using 3(3) fk e2(2,3) by (auto elim!: spec_releaseE simp: spec_of_def)
  have "n \<in> ran ((fd_of p)(k := None)) \<longleftrightarrow> fds_on p n \<noteq> {k}"
    using k by (auto simp: ran_def fd_of_Some fds_on_def)
  then have "used (abs_fs f3) n \<longleftrightarrow> fds_on p n \<noteq> {k}"
    using S3(2) F n1 by (auto simp: file_of_def split: if_splits)
  then show ?thesis using 1(1) 2(1) [unfolded S2] 3(1,2) S1(1) S3(1) by blast
qed

end
