(* ===== verification/Fresh_Volume.thy ===== *)
theory Fresh_Volume
  imports Format_Ok File_System
begin

text \<open>
  A disk of zeros that \<^verbatim>\<open>format_fs\<close> has formatted is a file system with an empty root directory that
  satisfies the invariant, so that every run after the first mount refines the specification.
\<close>

subsection \<open>The lists of a formatted volume\<close>

lemma inode_chain_upt:
  "a \<le> b \<Longrightarrow> \<forall>k. a \<le> k \<and> k < b \<longrightarrow> isize (m (of_nat k)) = of_nat (k + 1) \<Longrightarrow> inode_chain m (of_nat a) (map of_nat [a..<b]) (of_nat b)"
proof (induction "b - a" arbitrary: a)
  case 0
  then show ?case by simp
next
  case (Suc n)
  then have ab: "a < b" by simp
  then have "inode_chain m (of_nat (Suc a)) (map of_nat [Suc a..<b]) (of_nat b)" using Suc by (intro Suc.hyps(1)) auto
  moreover have "isize (m (of_nat a)) = of_nat (Suc a)" using Suc.prems(2) ab by simp
  ultimately show ?case using ab by (simp add: upt_conv_Cons del: upt_Suc)
qed

lemma index_chain_upt:
  assumes "1 \<le> a" "a \<le> b" "b < 2 ^ 64"
    and "\<And>k. a \<le> k \<Longrightarrow> k < b \<Longrightarrow> get_u64 0 (m (of_nat k)) = (if k < b - 1 then of_nat (k + 1) else 0)"
  shows "index_chain m (if a < b then of_nat a else 0) (map of_nat [a..<b])"
  using assms
proof (induction "b - a" arbitrary: a)
  case 0
  then show ?case by simp
next
  case (Suc n)
  then have ab: "a < b" by simp
  have "index_chain m (if Suc a < b then of_nat (Suc a) else 0) (map of_nat [Suc a..<b])"
    using Suc ab by (intro Suc.hyps(1)) auto
  moreover have "get_u64 0 (m (of_nat a)) = (if Suc a < b then of_nat (Suc a) else 0)" using Suc.prems(4) [of a] ab by auto
  moreover have "(of_nat a :: u64) \<noteq> 0" using of_nat_u64_eq [of a 0] Suc.prems(1,3) ab by simp
  ultimately show ?case using ab by (simp add: upt_conv_Cons del: upt_Suc of_nat_Suc)
qed

lemma concat_upt_chunks: "concat (map (\<lambda>j. [x + k * j..<x + k * j + k]) [0..<q]) = [x..<x + k * q]"
proof (induction q)
  case 0
  then show ?case by simp
next
  case (Suc q)
  then show ?case using upt_add_eq_append [of x "x + k * q" k] by (simp add: add.assoc add.commute [of k])
qed

lemma distinct_of_nat_upt: "b \<le> 2 ^ 64 \<Longrightarrow> distinct (map (of_nat :: nat \<Rightarrow> u64) [a..<b])"
  unfolding distinct_map by (auto intro!: inj_onI simp: of_nat_u64_eq)

subsection \<open>The volume\<close>

definition zero_disk :: "os \<Rightarrow> bool" where
  "zero_disk d \<longleftrightarrow> (\<forall>b. file_blocks d b = zero_block) \<and> no_faults d \<and> 3 \<le> file_size d div 512 \<and>
     file_size d div 512 \<le> 2 ^ 34 \<and> format_size_ok (file_size d div 512)"

definition mount_of :: "os \<Rightarrow> sfs_fs_superblock \<Rightarrow> inode_cache \<Rightarrow> filesystem" where
  "mount_of d sb raw = \<lparr>disk = d, superblock = sb, inode_cache = raw\<lparr>cache_block := 0\<rparr>\<rparr>"

lemma format_superblock_signature: "signature (format_superblock n t) = SFS_FILE_TYPE_SIGNATURE"
  by (simp add: format_superblock_def Let_def)

lemma fresh_sizes:
  assumes z: "zero_disk d" and f: "formatted d usr grp sb d'" and n: "n = file_size d div 512"
  shows "3 \<le> n" "n \<le> 2 ^ 34" "unat (inode_table_blocks sb) = fmt_itb n" "unat (blocks sb) = n"
    "free_blocks_head sb = of_nat (fmt_head n)" "free_inode_head sb = 2" "fmt_itb n < 2 ^ 31" "length (signature sb) = 16"
    "signature sb = SFS_FILE_TYPE_SIGNATURE"
proof -
  show n3: "3 \<le> n" and n34: "n \<le> 2 ^ 34" using z n by (simp_all add: zero_disk_def)
  obtain t where sb: "sb = format_superblock (of_nat n) t" using f n by (auto simp: formatted_def Let_def)
  have "n \<le> 2 ^ 54" using n34 by simp
  note w = format_words [OF n3 this, of t, folded sb] and b = fmt_bounds [OF n3]
  have "fmt_itb n \<le> n" using b by linarith
  then show "unat (inode_table_blocks sb) = fmt_itb n" using w(2) n34 by (simp add: unat_of_nat_u64)
  show "unat (blocks sb) = n" using w(3) n34 by (simp add: unat_of_nat_u64)
  show "free_blocks_head sb = of_nat (fmt_head n)" "free_inode_head sb = 2" using w by simp_all
  show "fmt_itb n < 2 ^ 31" using b(7) n34 by simp
  show "signature sb = SFS_FILE_TYPE_SIGNATURE" by (simp add: sb format_superblock_signature)
  then show "length (signature sb) = 16" by simp
qed

lemma fresh_fs_ok:
  assumes z: "zero_disk d" and f: "formatted d usr grp sb d'" and raw: "length (data raw) = BLOCK_SIZE"
  shows "fs_ok (mount_of d' sb raw)"
proof -
  define n where "n = file_size d div 512"
  note s = fresh_sizes [OF z f n_def]
  have dk: "disk_ok d' n" "file_size d' = file_size d" "file_blocks d' 0 = put_bytes 0 (encode_superblock sb) zero_block"
    using f by (simp_all add: formatted_def Let_def n_def)
  have "fmt_itb n < n" "1 \<le> fmt_itb n" using fmt_bounds [OF s(1)] by linarith+
  then have "geometry sb (file_size d')"
    unfolding geometry_def using s dk(1) by (simp add: disk_ok_def)
  moreover have "cached (mount_of d' sb raw) = 0" by (simp add: mount_of_def)
  ultimately show ?thesis
    using dk raw s(8) by (simp add: fs_ok_def mount_of_def disk_ok_def cache_ok_def)
qed

lemma fresh_valid:
  assumes z: "zero_disk d" and f: "formatted d usr grp sb d'" and n: "n = file_size d div 512"
  shows "valid_ino sb m \<longleftrightarrow> (\<exists>k. m = of_nat k \<and> 1 \<le> k \<and> k \<le> 3 * fmt_itb n)"
    "valid_block sb b \<longleftrightarrow> (\<exists>k. b = of_nat k \<and> fmt_itb n < k \<and> k < n)"
proof -
  note s = fresh_sizes [OF z f n]
  have u: "unat (of_nat k :: u64) = k" if "k \<le> 2 ^ 34" for k using that by (intro unat_of_nat_u64) simp
  show "valid_ino sb m \<longleftrightarrow> (\<exists>k. m = of_nat k \<and> 1 \<le> k \<and> k \<le> 3 * fmt_itb n)"
  proof
    show "valid_ino sb m \<Longrightarrow> \<exists>k. m = of_nat k \<and> 1 \<le> k \<and> k \<le> 3 * fmt_itb n"
      using s(3) by (intro exI [of _ "unat m"]) (simp add: valid_ino_def)
    show "\<exists>k. m = of_nat k \<and> 1 \<le> k \<and> k \<le> 3 * fmt_itb n \<Longrightarrow> valid_ino sb m"
      using s(3,7) u by (auto simp: valid_ino_def)
  qed
  show "valid_block sb b \<longleftrightarrow> (\<exists>k. b = of_nat k \<and> fmt_itb n < k \<and> k < n)"
  proof
    show "valid_block sb b \<Longrightarrow> \<exists>k. b = of_nat k \<and> fmt_itb n < k \<and> k < n"
      using s(3,4) by (intro exI [of _ "unat b"]) (simp add: valid_block_def)
    show "\<exists>k. b = of_nat k \<and> fmt_itb n < k \<and> k < n \<Longrightarrow> valid_block sb b"
      using s(2-4) u by (auto simp: valid_block_def)
  qed
qed

lemma fresh_inodes:
  assumes z: "zero_disk d" and f: "formatted d usr grp sb d'" and n: "n = file_size d div 512"
  obtains t where "\<And>k. 1 \<le> k \<Longrightarrow> k \<le> 3 * fmt_itb n \<Longrightarrow> a_inode (abs_fs (mount_of d' sb raw)) (of_nat k) = table_inode usr grp t k"
proof -
  note s = fresh_sizes [OF z f n]
  obtain t where t: "\<And>k. 1 \<le> k \<Longrightarrow> k \<le> fmt_itb n \<Longrightarrow> table_block usr grp t k (file_blocks d' k)"
    using f n by (auto simp: formatted_def Let_def)
  have "a_inode (abs_fs (mount_of d' sb raw)) (of_nat k) = table_inode usr grp t k" if k: "1 \<le> k" "k \<le> 3 * fmt_itb n" for k
  proof -
    have u: "unat (of_nat k :: u64) = k" using k s(7) by (intro unat_of_nat_u64) simp
    have v: "valid_ino sb (of_nat k)" using k s(3) u by (simp add: valid_ino_def)
    let ?b = "(k - 1) div 3 + 1" and ?j = "(k - 1) mod 3"
    have b: "1 \<le> ?b" "?b \<le> fmt_itb n" using k by (simp, subst Suc_eq_plus1 [symmetric], intro Suc_leI, simp add: div_less_iff_less_mult)
    have e: "3 * (?b - 1) + ?j + 1 = k" using k(1) mult_div_mod_eq [of 3 "k - 1"] by simp
    have "cached (mount_of d' sb raw) = 0" by (simp add: mount_of_def)
    then have "inode_block (mount_of d' sb raw) ?b = file_blocks d' ?b" using b(1) by (simp add: inode_block_def mount_of_def)
    moreover have "get_inode ?j (file_blocks d' ?b) = table_inode usr grp t k"
      using t [OF b] e by (simp add: table_block_def del: One_nat_def)
    ultimately show ?thesis
      using v u by (simp add: abs_fs_def mount_of_def ino_block_def ino_pos_def)
  qed
  then show ?thesis using that by blast
qed

lemma fresh_inodes_rep:
  assumes z: "zero_disk d" and f: "formatted d usr grp sb d'" and n: "n = file_size d div 512"
  shows "inodes_rep (abs_fs (mount_of d' sb raw)) (map of_nat [2..<3 * fmt_itb n + 1]) (of_nat (3 * fmt_itb n + 1))"
proof -
  note s = fresh_sizes [OF z f n] and v = fresh_valid [OF z f n]
  let ?A = "abs_fs (mount_of d' sb raw)" and ?m = "3 * fmt_itb n"
  obtain t where t: "\<And>k. 1 \<le> k \<Longrightarrow> k \<le> ?m \<Longrightarrow> a_inode ?A (of_nat k) = table_inode usr grp t k"
    by (rule fresh_inodes [OF z f n, of raw]) (rule that, blast)
  have sup: "a_super ?A = sb" by (simp add: mount_of_def)
  have m: "1 \<le> fmt_itb n" "?m + 1 < 2 ^ 64" using fmt_bounds(1) [OF s(1)] s(7) by simp_all
  have "inode_chain (a_inode ?A) (of_nat 2) (map of_nat [2..<?m + 1]) (of_nat (?m + 1))"
    using m t by (intro inode_chain_upt) (auto simp: table_inode_def)
  moreover have "distinct (map of_nat [2..<?m + 1] :: u64 list)" using m(2) by (intro distinct_of_nat_upt) simp
  moreover have "valid_ino sb x \<and> inumber (a_inode ?A x) = x" if "x \<in> set (map of_nat [2..<?m + 1])" for x
  proof -
    from that obtain k where k: "x = of_nat k" "2 \<le> k" "k \<le> ?m" by auto
    then show ?thesis using v(1) [of x] t [of k] by (auto simp: table_inode_def empty_inode_def)
  qed
  moreover have "\<not> valid_ino sb (of_nat (?m + 1))"
  proof
    assume "valid_ino sb (of_nat (?m + 1))"
    then obtain k where k: "(of_nat (?m + 1) :: u64) = of_nat k" "k \<le> ?m" using v(1) by blast
    then have "?m + 1 = k" using of_nat_u64_eq [of "?m + 1" k] m(2) by (simp del: of_nat_add of_nat_Suc)
    then show False using k(2) by simp
  qed
  ultimately show ?thesis unfolding inodes_rep_def sup s(6) by simp
qed

lemma fresh_index_block:
  fixes raw :: inode_cache
  assumes z: "zero_disk d" and f: "formatted d usr grp sb d'" and n: "n = file_size d div 512"
    and k: "fmt_head n \<le> k" "k < fmt_first n"
  defines "q \<equiv> fmt_listed n div 63" and "m \<equiv> a_block (abs_fs (mount_of d' sb raw))"
  shows "get_u64 0 (m (of_nat k)) = (if k < fmt_first n - 1 then of_nat (k + 1) else 0)"
    "k < fmt_head n + q \<Longrightarrow> entries (m (of_nat k)) = map of_nat [fmt_first n + 63 * (k - fmt_head n)..<fmt_first n + 63 * (k - fmt_head n) + 63]"
    "\<not> k < fmt_head n + q \<Longrightarrow> entries (m (of_nat k)) = []"
proof -
  note s = fresh_sizes [OF z f n] and v = fresh_valid [OF z f n]
  note b = fmt_bounds [OF s(1)] and i = fmt_index [OF s(1), folded q_def]
  have ok: "format_size_ok n" using z n by (simp add: zero_disk_def)
  have kn: "k < n" "fmt_itb n < k" using k b by linarith+
  then have u: "unat (of_nat k :: u64) = k" using s(2) by (intro unat_of_nat_u64) simp
  have "valid_block sb (of_nat k)" using kn v(2) by blast
  then have mk: "m (of_nat k) = file_blocks d' k" using u by (simp add: m_def abs_fs_def mount_of_def)
  have "fmt_first n + 63 * q \<le> n" using i(1) by linarith
  have N: "fmt_first n < 2 ^ 64" using b(6) s(2) by simp
  note f' = f [unfolded formatted_def Let_def, folded n, folded q_def]
  have full: "get_u64 0 (m (of_nat k)) = (if k < fmt_first n - 1 then of_nat (k + 1) else 0) \<and>
      entries (m (of_nat k)) = map of_nat [fmt_first n + 63 * (k - fmt_head n)..<fmt_first n + 63 * (k - fmt_head n) + 63]"
    if c: "k < fmt_head n + q"
  proof -
    let ?j = "k - fmt_head n" and ?x = "fmt_first n + 63 * (k - fmt_head n)"
    have j: "?j < q" "fmt_head n + ?j = k" using c k by simp_all
    have ib: "index_block (of_nat (fmt_first n)) ?x k (file_blocks d' k)" using f' j by metis
    have "(of_nat (fmt_first n) - 1 :: u64) = of_nat (fmt_first n - 1)" using k by (simp add: of_nat_diff)
    moreover have "unat (of_nat (fmt_first n - 1) :: u64) = fmt_first n - 1" using N by (intro unat_of_nat_u64) simp
    ultimately have "index_link (of_nat (fmt_first n)) k = (if k < fmt_first n - 1 then of_nat (k + 1) else 0)"
      using u by (simp add: index_link_def word_less_nat_alt add.commute)
    moreover have "entries (file_blocks d' k) = map of_nat [?x..<?x + 63]"
    proof -
      have "(of_nat y :: u64) \<noteq> 0" if "y \<in> set [?x..<?x + 63]" for y
      proof -
        have "63 * ?j + 63 \<le> 63 * q" using j(1) by simp
        then have "y < n" "0 < y" using that \<open>fmt_first n + 63 * q \<le> n\<close> k by auto
        then show ?thesis using of_nat_u64_eq [of y 0] s(2) by simp
      qed
      then have "filter (\<lambda>b. b \<noteq> 0) (map of_nat [?x..<?x + 63] :: u64 list) = map of_nat [?x..<?x + 63]"
        by (intro filter_True) auto
      then show ?thesis using ib by (simp add: entries_def index_block_def)
    qed
    ultimately show ?thesis using ib unfolding mk by (simp add: index_block_def)
  qed
  have part: "get_u64 0 (m (of_nat k)) = (if k < fmt_first n - 1 then of_nat (k + 1) else 0) \<and> entries (m (of_nat k)) = []"
    if c: "\<not> k < fmt_head n + q"
  proof -
    have "file_blocks d' k = file_blocks d k" using f' kn c by metis
    then have zb: "file_blocks d' k = zero_block" using z by (simp add: zero_disk_def)
    have "entries zero_block = []" by (simp add: entries_def filter_empty_conv)
    moreover have "\<not> k < fmt_first n - 1" using i(4) [OF ok] c k(2) by (auto split: if_splits)
    ultimately show ?thesis unfolding mk zb by simp
  qed
  show "get_u64 0 (m (of_nat k)) = (if k < fmt_first n - 1 then of_nat (k + 1) else 0)" using full part by blast
  show "k < fmt_head n + q \<Longrightarrow> entries (m (of_nat k)) = map of_nat [fmt_first n + 63 * (k - fmt_head n)..<fmt_first n + 63 * (k - fmt_head n) + 63]"
    using full by blast
  show "\<not> k < fmt_head n + q \<Longrightarrow> entries (m (of_nat k)) = []" using part by blast
qed

lemma fresh_free_rep:
  fixes raw :: inode_cache
  assumes z: "zero_disk d" and f: "formatted d usr grp sb d'" and n: "n = file_size d div 512"
  defines "q \<equiv> fmt_listed n div 63" and "A \<equiv> abs_fs (mount_of d' sb raw)"
  shows "free_rep A (map of_nat [fmt_head n..<fmt_first n])"
    "free_list (a_block A) (map of_nat [fmt_head n..<fmt_first n]) = map of_nat [fmt_head n..<fmt_first n + 63 * q]"
proof -
  note s = fresh_sizes [OF z f n] and v = fresh_valid [OF z f n]
  note b = fmt_bounds [OF s(1)] and i = fmt_index [OF s(1), folded q_def]
  note ib = fresh_index_block [OF z f n, folded q_def, of _ raw, folded A_def]
  have ok: "format_size_ok n" using z n by (simp add: zero_disk_def)
  have sup: "a_super A = sb" by (simp add: A_def mount_of_def)
  let ?ns = "map of_nat [fmt_head n..<fmt_first n] :: u64 list"
  have N: "fmt_first n < 2 ^ 64" using b(6) s(2) by simp
  have hf: "fmt_head n < fmt_first n" using i(4) [OF ok] by (simp split: if_splits)
  have e: "fmt_first n + 63 * q \<le> n" using i(1) by linarith
  have hq: "fmt_head n + q \<le> fmt_first n" using i(3) by linarith
  have "index_chain (a_block A) (if fmt_head n < fmt_first n then of_nat (fmt_head n) else 0) ?ns"
    by (rule index_chain_upt) (use b(5) N ib(1) in \<open>auto simp: fmt_head_def\<close>)
  then have chain: "index_chain (a_block A) (free_blocks_head (a_super A)) ?ns" using hf s(5) sup by simp
  have split: "[fmt_head n..<fmt_first n] = [fmt_head n..<fmt_head n + q] @ [fmt_head n + q..<fmt_first n]"
    using upt_add_eq_append [of "fmt_head n" "fmt_head n + q" "fmt_first n - (fmt_head n + q)"] hq by simp
  have e1: "map (\<lambda>k. entries (a_block A (of_nat k))) [fmt_head n..<fmt_head n + q] =
      map (\<lambda>j. map of_nat [fmt_first n + 63 * j..<fmt_first n + 63 * j + 63]) [0..<q]"
    by (intro nth_equalityI) (use ib(2) hq in \<open>simp_all del: of_nat_add\<close>)
  have e2: "map (\<lambda>k. entries (a_block A (of_nat k))) [fmt_head n + q..<fmt_first n] = map (\<lambda>k. []) [fmt_head n + q..<fmt_first n]"
    using ib(3) by (intro map_cong) auto
  have "concat (map (\<lambda>x. entries (a_block A x)) ?ns) = concat (map (\<lambda>k. entries (a_block A (of_nat k))) [fmt_head n..<fmt_first n])"
    by (simp add: comp_def)
  also have "\<dots> = concat (map (\<lambda>j. map of_nat [fmt_first n + 63 * j..<fmt_first n + 63 * j + 63]) [0..<q])"
    unfolding split map_append concat_append e1 e2 by simp
  also have "\<dots> = map of_nat [fmt_first n..<fmt_first n + 63 * q]"
    unfolding concat_upt_chunks [symmetric] map_concat by (simp add: comp_def)
  finally have "free_list (a_block A) ?ns = ?ns @ map of_nat [fmt_first n..<fmt_first n + 63 * q]" by (simp add: free_list_def)
  also have "\<dots> = map of_nat [fmt_head n..<fmt_first n + 63 * q]"
    using upt_add_eq_append [OF b(5), of "63 * q"] by simp
  finally show fl: "free_list (a_block A) ?ns = map of_nat [fmt_head n..<fmt_first n + 63 * q]" .
  have "distinct (map of_nat [fmt_head n..<fmt_first n + 63 * q] :: u64 list)"
    using e s(2) by (intro distinct_of_nat_upt) simp
  moreover have "valid_block sb x" if "x \<in> set (map of_nat [fmt_head n..<fmt_first n + 63 * q])" for x
  proof -
    from that obtain k where k: "x = of_nat k" "fmt_head n \<le> k" "k < fmt_first n + 63 * q" by auto
    then have "fmt_itb n < k" "k < n" using b(3) e by linarith+
    then show ?thesis using v(2) k(1) by blast
  qed
  ultimately show "free_rep A ?ns" using chain unfolding free_rep_def fl sup by blast
qed

subsection \<open>The invariant\<close>

lemma zero_inode:
  assumes "block_pointers i = replicate 14 0"
  shows "iptrs A i = []" "inode_ok A i"
proof -
  have "fptr A i k = 0" for k using assms by (auto simp: fptr_def)
  then show p: "iptrs A i = []" using assms by (simp add: iptrs_def filter_empty_conv)
  show "inode_ok A i" unfolding inode_ok_def p using assms by (simp add: wf_inode_def)
qed

lemma fresh_mounted:
  assumes z: "zero_disk d" and f: "formatted d usr grp sb d'" and raw: "length (data raw) = BLOCK_SIZE"
    and n: "n = file_size d div 512"
  defines "A \<equiv> abs_fs (mount_of d' sb raw)"
  shows "mounted (mount_of d' sb raw)" "names A nm = None" "used A m \<longleftrightarrow> m = 1"
    "free_inodes A = of_nat ` {2..3 * fmt_itb n}"
    "free_blocks A = of_nat ` {fmt_head n..<fmt_first n + 63 * (fmt_listed n div 63)}"
    "root A = table_inode usr grp (access_time (root A)) 1"
proof -
  note s = fresh_sizes [OF z f n] and v = fresh_valid [OF z f n]
  note ir = fresh_inodes_rep [OF z f n, of raw, folded A_def] and fr = fresh_free_rep [OF z f n, of raw, folded A_def]
  have fs: "fs_ok (mount_of d' sb raw)" by (rule fresh_fs_ok [OF z f raw])
  have sup: "a_super A = sb" by (simp add: A_def mount_of_def)
  have al: "inode_alloc_ok (mount_of d' sb raw)"
    using fs ir fr(1) unfolding inode_alloc_ok_def alloc_ok_def A_def by blast
  have "set [2..<3 * fmt_itb n + 1] = {2..3 * fmt_itb n}" by auto
  then show fi: "free_inodes A = of_nat ` {2..3 * fmt_itb n}"
    unfolding free_inodes_rep [OF ir] set_map by (simp only:)
  show "free_blocks A = of_nat ` {fmt_head n..<fmt_first n + 63 * (fmt_listed n div 63)}"
    unfolding free_blocks_rep [OF fr(1)] fr(2) by simp
  have one: "1 \<le> 3 * fmt_itb n" "3 * fmt_itb n < 2 ^ 64" using fmt_bounds(1) [OF s(1)] s(7) by simp_all
  have u: "used A x \<longleftrightarrow> x = 1" for x
  proof
    assume "used A x"
    then obtain k where k: "x = of_nat k" "1 \<le> k" "k \<le> 3 * fmt_itb n" "x \<notin> of_nat ` {2..3 * fmt_itb n}"
      unfolding used_def sup fi v(1) by blast
    then have "k \<notin> {2..3 * fmt_itb n}" by blast
    then have "k = 1" using k(2,3) by auto
    then show "x = 1" using k(1) by simp
  next
    assume x: "x = 1"
    have "valid_ino sb 1" unfolding v(1) using one(1) by (intro exI [of _ 1]) simp
    moreover have "(1 :: u64) \<noteq> of_nat k" if "k \<in> {2..3 * fmt_itb n}" for k
      using of_nat_u64_eq [of 1 k] that one(2) by auto
    ultimately show "used A x" unfolding used_def sup fi x by blast
  qed
  then show "used A m \<longleftrightarrow> m = 1" .
  obtain t where t: "\<And>k. 1 \<le> k \<Longrightarrow> k \<le> 3 * fmt_itb n \<Longrightarrow> a_inode A (of_nat k) = table_inode usr grp t k"
    by (rule fresh_inodes [OF z f n, of raw, folded A_def]) (rule that, blast)
  have r: "root A = table_inode usr grp t 1" using t [of 1] one(1) by simp
  then show "root A = table_inode usr grp (access_time (root A)) 1" by (simp add: table_inode_def)
  have ri: "inumber (root A) = 1" "mode (root A) = ROOT_MODE" "isize (root A) = 0" "block_pointers (root A) = replicate 14 0"
    unfolding r by (simp_all add: table_inode_def empty_inode_def)
  note zi = zero_inode [OF ri(4)]
  have files: "files_ok A" using zi(2) ri(1) by (simp add: files_ok_def u)
  have "valid_ino sb 1" using u [of 1] by (simp add: used_def sup)
  then have dir: "dir_ok A (root A)" using zi(2) ri by (simp add: dir_ok_def dsize_def sup)
  have live: "\<not> live A k" for k using ri(3) by (simp add: live_def dsize_def)
  have "root_ok A" using u dir live by (simp add: root_ok_def)
  then show "mounted (mount_of d' sb raw)" using al files by (simp add: mounted_def A_def)
  show "names A nm = None" by (simp add: names_None live)
qed

text \<open>The first mount.\<close>

definition empty_spec :: spec where
  "empty_spec = \<lparr>sp_names = (\<lambda>nm. None), sp_files = (\<lambda>n. None), sp_fds = (\<lambda>k. None)\<rparr>"

lemma sfs_init_fresh:
  assumes s0: "\<not> st_locked s0" and z: "zero_disk (st_disk s0)"
    and raw: "length (data raw) = BLOCK_SIZE" and t: "asctime_ok 0"
  shows "\<exists>s f p. sfs_init True (Some slab) addr (Some raw) asctime_ok True usr grp s0 = Some (False, s) \<and>
    good s f p \<and> spec_of f p = empty_spec \<and>
    free_inodes (abs_fs f) = of_nat ` {2..3 * fmt_itb (file_size (st_disk s0) div 512)} \<and>
    (\<exists>now. root (abs_fs f) = table_inode usr grp now 1)"
proof -
  let ?d = "st_disk s0" and ?d1 = "advance (st_disk s0)"
  have w: "wf_os ?d" "no_faults ?d" "file_blocks ?d 0 = zero_block" using z by (simp_all add: zero_disk_def wf_os_def)
  have sz: "3 \<le> file_size ?d div 512" "file_size ?d div 512 \<le> 2 ^ 54" "format_size_ok (file_size ?d div 512)"
    using z by (simp_all add: zero_disk_def)
  have z1: "zero_disk ?d1" using z by (simp add: zero_disk_def)
  have "in_file ?d 0" using sz(1) by (simp add: in_file_def)
  then have rd: "block_read ?d 0 zero_block = (512, zero_block, ?d1)" using w by (simp add: block_read_ok)
  have "hd (signature (decode_superblock zero_block)) = 0" "hd SFS_FILE_TYPE_SIGNATURE = 83"
    by (simp_all add: decode_superblock_def zero_block_def get_bytes_def SFS_FILE_TYPE_SIGNATURE_def)
  then have sig: "signature (decode_superblock zero_block) \<noteq> SFS_FILE_TYPE_SIGNATURE" by auto
  have ct: "create_time (decode_superblock zero_block) = 0" by (simp add: decode_superblock_def)
  have wz: "wf_os ?d1" "no_faults ?d1" "3 \<le> file_size ?d1 div 512" "file_size ?d1 div 512 \<le> 2 ^ 54" "format_size_ok (file_size ?d1 div 512)"
    using w sz by simp_all
  obtain sb d' where f: "format_fs ?d1 True usr grp = Some (Some sb, d')" "formatted ?d1 usr grp sb d'"
    using format_fs_ok(1) [OF wz] by blast
  let ?f = "mount_of d' sb raw" and ?p = "\<lparr>slabs = [thread_slots 0 slab], freelist = Some 0, slot_addr = addr\<rparr>"
  have pi: "sfs_filedescriptor_pool_init True (Some slab) addr = Some ?p" by (simp add: sfs_filedescriptor_pool_init_def)
  have od: "sfs_fs_open_disk ?d True (Some raw) asctime_ok True usr grp = Some (Some ?f, d')"
    using sig t f(1) by (simp add: sfs_fs_open_disk_def rd ct mount_of_def)
  let ?s = "s0\<lparr>st_locked := False, st_pool := Some ?p, st_fs := Some ?f, st_disk := d'\<rparr>"
  have init: "sfs_init True (Some slab) addr (Some raw) asctime_ok True usr grp s0 = Some (False, ?s)"
    using s0 od by (simp add: sfs_init_def critical_def pi)
  note m = fresh_mounted [OF z1 f(2) raw refl]
  have iu: "\<not> in_use ?p k" for k
  proof -
    note p = pool_init_ok [OF pi]
    show ?thesis using p pool_size_max [OF p(1)] by (simp add: in_use_def)
  qed
  have "links_ok (abs_fs ?f) ?p" by (simp add: links_ok_def m(3) iu)
  then have so: "sys_ok ?s ?f ?p" using m(1) pool_init_ok(1) [OF pi] by (simp add: sys_ok_def ready_def)
  moreover have "spec_of ?f ?p = empty_spec"
    by (simp add: spec_of_def empty_spec_def fun_eq_iff m(2,3) file_of_def fd_of_def iu)
  ultimately show ?thesis
    using init m(2,4,6) by (intro exI [of _ ?s] exI [of _ ?f] exI [of _ ?p]) (auto simp: good_def)
qed

text \<open>From the first mount on, every run refines a run of the specification from the empty file system.\<close>

lemma first_runs:
  assumes "\<not> st_locked s0" and "zero_disk (st_disk s0)" and "length (data raw) = BLOCK_SIZE" and "asctime_ok 0"
  shows "\<exists>s. sfs_init True (Some slab) addr (Some raw) asctime_ok True usr grp s0 = Some (False, s) \<and>
    (\<forall>tr s'. run s tr s' \<longrightarrow> (\<exists>f p. good s' f p \<and> spec_run empty_spec tr (spec_of f p)))"
proof -
  obtain s f p where 1: "sfs_init True (Some slab) addr (Some raw) asctime_ok True usr grp s0 = Some (False, s)" "good s f p"
    "spec_of f p = empty_spec"
    using sfs_init_fresh [where asctime_ok = asctime_ok, OF assms] by blast
  have "\<exists>f p. good s' f p \<and> spec_run empty_spec tr (spec_of f p)" if "run s tr s'" for tr s'
    using run_refines [OF that 1(2)] unfolding 1(3) .
  then show ?thesis using 1(1) by blast
qed

subsection \<open>Running out of inodes\<close>

text \<open>
  The list of free inodes of a formatted volume ends at the number after the table. When it is used up
  the block behind the table is read as inodes: an inode 0 is handed out, and \<^verbatim>\<open>sfs_create\<close> fails the
  assertion of \<^verbatim>\<open>sfs_fs_write_inode\<close>.
\<close>

lemma inodes_used_up:
  assumes ok: "fs_ok fs" and h: "free_inode_head (superblock fs) = 3 * inode_table_blocks (superblock fs) + 1"
    and z: "file_blocks (disk fs) (unat (inode_table_blocks (superblock fs)) + 1) = zero_block"
    and b: "unat (inode_table_blocks (superblock fs)) + 1 < unat (blocks (superblock fs))"
  shows "\<exists>fs'. sfs_fs_inode_allocate fs = Some (Some (empty_inode 0), fs')" "new_file env cmode fs directory nm = None"
proof -
  let ?sb = "superblock fs" and ?t = "inode_table_blocks (superblock fs)" and ?f1 = "flush fs"
  have t31: "unat ?t < 2 ^ 31" and bl: "unat (blocks ?sb) \<le> 2 ^ 54" "BLOCK_SIZE * unat (blocks ?sb) \<le> file_size (disk fs)"
    and ct: "unat (cached fs) \<le> unat ?t" "length (signature ?sb) = 16"
    using ok by (simp_all add: fs_ok_def geometry_def cache_ok_def)
  have t3: "unat (3 * ?t) = 3 * unat ?t" using t31 by (simp add: unat_word_ariths)
  then have t3p: "unat (3 * ?t + 1) = 3 * unat ?t + 1" using t31 by (subst unat_plus_no_overflow) simp_all
  have tp: "unat (?t + 1) = unat ?t + 1" using t31 by (subst unat_plus_no_overflow) simp_all
  have "unat ((3 * ?t) div 3) = unat ?t" "unat ((3 * ?t) mod 3) = 0" using t3 by (simp_all add: unat_div unat_mod)
  then have "(3 * ?t) div 3 = ?t" "(3 * ?t) mod 3 = 0" by (simp_all only: word_unat_eq_iff unat_0)
  then have dv: "(3 * ?t + 1 - 1) div 3 + 1 = ?t + 1" "(3 * ?t + 1 - 1) mod 3 = 0" by simp_all
  have h0: "3 * ?t + 1 \<noteq> (0 :: u64)" using t3p by (metis Suc_eq_plus1 nat.distinct(1) unat_0)
  have nc: "cached fs \<noteq> ?t + 1" using ct(1) tp by auto
  let ?c = "(inode_cache fs)\<lparr>cache_block := ucast (?t + 1), dirty := False\<rparr>"
  let ?f2 = "?f1\<lparr>inode_cache := ?c\<rparr>" and ?f3 = "?f1\<lparr>disk := advance (disk ?f1), inode_cache := ?c\<lparr>data := zero_block\<rparr>\<rparr>"
  have inf: "in_file (disk ?f1) (?t + 1)" using b bl t31 unfolding in_file_def tp by simp
  have "file_blocks (disk ?f1) (unat (?t + 1)) = zero_block" using flush_data [OF ok, of "unat ?t + 1"] z unfolding tp by simp
  then have "block_read (disk ?f1) (?t + 1) (data (inode_cache fs)) = (512, zero_block, advance (disk ?f1))"
    using inf ok by (simp add: block_read_ok fs_okD)
  then have fill: "cache_fill ?f2 (?t + 1) = (0, ?f3)" by (simp add: cache_fill_def)
  have rd: "sfs_fs_read_inode fs (3 * ?t + 1) = Some (Some (empty_inode 0), ?f3)"
    unfolding sfs_fs_read_inode_def Let_def dv using h0 nc cache_write_back_ok [OF ok] fill by (simp add: decode_zeros)
  let ?sb' = "?sb\<lparr>free_inode_head := 0\<rparr>"
  have len: "length (put_bytes 0 (encode_superblock ?sb') zero_block) = BLOCK_SIZE"
    using ct(2) by (simp add: length_put_bytes length_encode_superblock)
  have in0: "in_file (advance (disk ?f1)) 0" using b bl by (simp add: in_file_def)
  obtain d where ws: "write_superblock (advance (disk ?f1)) ?sb' = (0, d)"
    using block_write_ok [OF _ _ in0 len] ok by (simp add: write_superblock_def)
  let ?fs' = "?f3\<lparr>superblock := ?sb', disk := d\<rparr>"
  have al: "sfs_fs_inode_allocate fs = Some (Some (empty_inode 0), ?fs')"
    using h h0 rd ws by (simp add: sfs_fs_inode_allocate_def empty_inode_def)
  then show "\<exists>fs'. sfs_fs_inode_allocate fs = Some (Some (empty_inode 0), fs')" by blast
  show "new_file env cmode fs directory nm = None"
    by (simp add: new_file_def al Let_def split_def) (simp add: sfs_fs_write_inode_def empty_inode_def)
qed

lemma create_used_up:
  assumes r: "ready s f" and env: "env_ok env" and nm: "proper_name nm" and n: "names (abs_fs f) nm = None"
    and h: "free_inode_head (superblock f) = 3 * inode_table_blocks (superblock f) + 1"
    and b: "valid_block (superblock f) (inode_table_blocks (superblock f) + 1)"
    and z: "a_block (abs_fs f) (inode_table_blocks (superblock f) + 1) = zero_block"
  shows "\<exists>f'. sfs_fs_inode_allocate f = Some (Some (empty_inode 0), f')" "sfs_create env (SLASH # nm) cmode fi s = None"
proof -
  have sd: "\<not> st_locked s" "mounted f" using r by (simp_all add: ready_def)
  let ?t = "inode_table_blocks (superblock f)"
  have "unat ?t < 2 ^ 31" using fs_okD(3) [OF mountedD(3) [OF sd(2)]] by (simp add: geometry_def)
  then have tp: "unat (?t + 1) = unat ?t + 1" by (subst unat_plus_no_overflow) simp_all
  have used_up: "(\<exists>g'. sfs_fs_inode_allocate g = Some (Some (empty_inode 0), g')) \<and> new_file env cmode g d nm = None"
    if g: "mounted g" "superblock g = superblock f" "a_block (abs_fs g) = a_block (abs_fs f)" for g d
  proof -
    have "file_blocks (disk g) (unat ?t + 1) = zero_block"
      using a_block_abs [of g "?t + 1"] b z g(2,3) tp by simp
    then show ?thesis
      using inodes_used_up [OF mountedD(3) [OF g(1)]] g(2) h b tp by (simp add: valid_block_def)
  qed
  show "\<exists>f'. sfs_fs_inode_allocate f = Some (Some (empty_inode 0), f')" using used_up [OF sd(2)] by simp
  obtain r it f1 where 1: "open_root env (SLASH # nm) (s\<lparr>st_locked := True\<rparr>) =
       Some (Inr (nm, root (abs_fs f)), s\<lparr>st_locked := True, st_fs := Some (after_read f 1)\<rparr>)"
    "scan_dir env (after_read f 1) (root (abs_fs f)) nm = Some (Some (r, it), f1)"
    "mounted f1" "superblock f1 = superblock f" "touched (abs_fs f) (root (abs_fs f)) (abs_fs f1) (root (abs_fs f1))" "r = None"
    by (rule lookup_names [OF r env nm, where n = 1]) (use n in blast)
  have "new_file env cmode f1 (it_inode it) nm = None" using used_up [OF 1(3,4)] touched_same(8) [OF 1(5)] by blast
  then show "sfs_create env (SLASH # nm) cmode fi s = None"
    using 1(1,2,6) sd(1) by (simp add: sfs_create_def critical_def)
qed

end
