(* ===== verification/Example_Runs.thy ===== *)
theory Example_Runs
  imports Example_Volume Fresh_Volume
begin

text \<open>
  The example volume in use: the system with the file \<^verbatim>\<open>a\<close> open, and a disk of zeros to be formatted.
\<close>

lemma ex_good: "good ex_state ex_fs ex_pool"
  using ex_sys_ok by (simp add: good_def ex_names) (simp add: ex_name_def)

lemma ex_opened:
  obtains k s f p where "sfs_open ex_env (SLASH # ex_name) ex_fi ex_state = Some ((0, handle ex_fi k), s)" "good s f p"
    "in_use p k" "slot_cell (get_slot p k) = Inumber 2" "names (abs_fs f) = names ex_abs"
    "block_pointers (a_inode (abs_fs f) 2) = block_pointers ex_file" "isize (a_inode (abs_fs f) 2) = 512"
    "file_bytes (abs_fs f) 2 = file_bytes ex_abs 2" "fds_on p 2 = {k}"
    "free_blocks (abs_fs f) = {3, 6, 7}"
proof -
  have "names ex_abs ex_name = Some 2" "free_fds ex_pool \<noteq> {}" by (simp_all add: ex_names ex_pool_ok)
  from sfs_open_present [OF ex_sys_ok ex_env_ok(2) ex_name_proper this, of ex_fi]
  obtain k s f p where 1: "sfs_open ex_env (SLASH # ex_name) ex_fi ex_state = Some ((0, handle ex_fi k), s)" "sys_ok s f p"
    "fd_added ex_pool p k 2" "names (abs_fs f) = names ex_abs" "isize (a_inode (abs_fs f) 2) = isize (a_inode ex_abs 2)"
    "block_pointers (a_inode (abs_fs f) 2) = block_pointers (a_inode ex_abs 2)"
    "fblock (abs_fs f) (a_inode (abs_fs f) 2) = fblock ex_abs (a_inode ex_abs 2)" "free_blocks (abs_fs f) = free_blocks ex_abs"
    by blast
  have "fds_on p 2 = {k}" using 1(3) ex_pool_ok(3) by (auto simp: fd_added_def fds_on_def)
  moreover have "good s f p" using 1(2,4) ex_good by (simp add: good_def)
  ultimately show ?thesis
    using that [OF 1(1)] 1(3-6,8) file_bytes_cong [OF 1(7)] by (auto simp: fd_added_def ex_a_inode ex_ptrs ex_free_blocks)
qed

text \<open>The file has one block, so a request for it needs no space, and one for \<open>m\<close> blocks needs \<open>m - 1\<close>.\<close>

lemma ex_room:
  assumes "block_pointers (a_inode A 2) = block_pointers ex_file"
  shows "holes A (a_inode A 2) 0 m = {1..<m}"
  using ex_fptr(1) [of "a_inode A 2" 5 A] assms by (auto simp: holes_def ex_ptrs)

lemma ex_bytes: "take 512 (file_bytes ex_abs 2) = ex_data"
proof -
  have "used ex_abs 2" by (simp add: ex_used)
  from file_bytes_slices(1) [OF ex_mounted this, of 1] show ?thesis by (simp add: ex_a_inode ex_fblock)
qed

lemma ex_file_bytes: "file_bytes ex_abs 2 = replicate 512 7 @ replicate 38400 0"
proof -
  have m: "used ex_abs 2" by (simp add: ex_used)
  have b: "fblock ex_abs (a_inode ex_abs 2) k = (if k = 0 then ex_data else zero_block)" if "k < 76" for k
    using ex_fptr(1) [of ex_file 5 ex_abs k] ex_fblock by (auto simp: fblock_def ex_ptrs ex_a_inode)
  have "map (fblock ex_abs (a_inode ex_abs 2)) [0..<76] = ex_data # map (\<lambda>k. zero_block) [1..<76]"
    using b by (simp add: upt_conv_Cons map_eq_conv)
  then have "file_bytes ex_abs 2 = ex_data @ concat (map (\<lambda>k. zero_block) [1..<76])" by (simp add: file_bytes_def)
  also have "concat (map (\<lambda>k. zero_block) [1..<76]) = replicate 38400 0"
    by (simp only: map_replicate_const length_upt zero_block_def concat_replicates) simp
  finally show ?thesis by (simp add: ex_data_def)
qed

subsection \<open>A disk to format\<close>

definition zero_os :: os where
  "zero_os = \<lparr>file_blocks = (\<lambda>b. zero_block), file_size = 65536, io_plan = (\<lambda>n. Io_Full), io_done = 0, clock = of_nat, clock_reads = 0\<rparr>"

definition zero_state :: sfs_state where
  "zero_state = \<lparr>st_locked = False, st_disk = zero_os, st_pool = None, st_fs = None\<rparr>"

definition raw_cache :: inode_cache where
  "raw_cache = \<lparr>dirty = True, cache_block = 7, data = ex_data\<rparr>"

lemma zero_os_ok: "zero_disk zero_os" "file_size zero_os = 65536"
proof -
  have "fmt_free 128 = 119" by (simp add: fmt_free_def fmt_head_def fmt_itb_def)
  then have "format_size_ok 128" by (simp add: format_size_ok_def)
  then show "zero_disk zero_os" "file_size zero_os = 65536" by (simp_all add: zero_disk_def zero_os_def no_faults_def)
qed

lemma raw_cache_ok: "dirty raw_cache" "length (data raw_cache) = BLOCK_SIZE"
  by (simp_all add: raw_cache_def ex_data_def)

end
