(* ===== verification/Remount.thy ===== *)
theory Remount
  imports File_System
begin

text \<open>
  Unmounting and mounting the whole service, \<^verbatim>\<open>sfs_destroy\<close> and \<^verbatim>\<open>sfs_init\<close> of a new process on the disk
  that remains: every name and every file is there again.
\<close>

unbundle bit_operations_syntax

text \<open>Every descriptor in use is on the root directory, which has no count of its own to keep.\<close>

definition quiet :: "pool \<Rightarrow> bool" where
  "quiet p \<longleftrightarrow> (\<forall>k. in_use p k \<longrightarrow> slot_cell (get_slot p k) = Inumber 1)"

lemma new_pool:
  assumes "sfs_filedescriptor_pool_init True (Some slab) addr = Some p2"
  shows "pool_ok p2" "\<not> in_use p2 k" "fds_on p2 n = {}" "fd_of p2 = Map.empty"
proof -
  note i = pool_init_ok [OF assms]
  show "pool_ok p2" by (rule i(1))
  show u: "\<not> in_use p2 k" for k using i(2) pool_size_max [OF i(1)] by (auto simp: in_use_def)
  show "fds_on p2 n = {}" "fd_of p2 = Map.empty" using u by (auto simp: fds_on_def fd_of_def fun_eq_iff)
qed

lemma quiet_links:
  assumes "links_ok A p" and "\<And>n. fds_on p2 n = {}" and "\<And>k. \<not> in_use p2 k"
  shows "links_ok A p2 \<longleftrightarrow> quiet p"
proof
  assume l: "links_ok A p2"
  show "quiet p"
    unfolding quiet_def
  proof (intro allI impI)
    fix k assume k: "in_use p k"
    then obtain n where n: "slot_cell (get_slot p k) = Inumber n" "used A n" using assms(1) by (auto simp: links_ok_def)
    have "n = 1"
    proof (rule ccontr)
      assume "n \<noteq> 1"
      then have "link_count A p n = link_count A p2 n" using l assms(1) n(2) by (auto simp: links_ok_def)
      then have "card (fds_on p n) = 0" using assms(2) by (simp add: link_count_def)
      then have "fds_on p n = {}" by simp
      then show False using k n(1) by (auto simp: fds_on_def)
    qed
    then show "slot_cell (get_slot p k) = Inumber 1" using n(1) by simp
  qed
next
  assume q: "quiet p"
  have "link_count A p2 n = link_count A p n" if "n \<noteq> 1" for n
  proof -
    have "fds_on p n = {}" using q that by (auto simp: fds_on_def quiet_def)
    then show ?thesis using assms(2) by (simp add: link_count_def)
  qed
  then show "links_ok A p2" using assms(1,3) by (auto simp: links_ok_def)
qed

lemma sfs_destroy_ok:
  assumes "good s f p"
  shows "\<exists>s1. sfs_destroy s = Some ((), s1) \<and> st_disk s1 = closed f \<and> \<not> st_locked s1"
proof -
  have so: "sys_ok s f p" using assms by (simp add: good_def)
  note sd = sys_okD [OF so]
  have "slabs p \<noteq> []" using sd(6) by (simp add: pool_ok_def)
  then have "\<exists>fr p'. sfs_filedescriptor_pool_deinit p = Some (fr, p')"
    by (simp add: sfs_filedescriptor_pool_deinit_def split: prod.split)
  then show ?thesis
    using sd(2,3,5) sfs_fs_close_ok [OF mountedD(3) [OF sd(4)]]
    by (auto simp: sfs_destroy_def critical_def)
qed

lemma remount_keeps:
  assumes g: "good s f p" and raw: "length (data raw) = BLOCK_SIZE"
    and t: "asctime_ok (create_time (superblock f))"
  shows "\<exists>s1 s2 f2 p2. sfs_destroy s = Some ((), s1) \<and>
    sfs_init True (Some slab) addr (Some raw) asctime_ok fok usr grp s1 = Some (False, s2) \<and>
    st_fs s2 = Some f2 \<and> st_pool s2 = Some p2 \<and> spec_of f2 p2 = (spec_of f p)\<lparr>sp_fds := Map.empty\<rparr> \<and>
    mounted f2 \<and> (good s2 f2 p2 \<longleftrightarrow> quiet p)"
proof -
  have so: "sys_ok s f p" "names (abs_fs f) [] = None" using g by (simp_all add: good_def)
  note sd = sys_okD [OF so(1)]
  obtain s1 where 1: "sfs_destroy s = Some ((), s1)" "st_disk s1 = closed f" "\<not> st_locked s1" using sfs_destroy_ok [OF g] by blast
  obtain f2 where 2: "sfs_fs_open_disk (closed f) True (Some raw) asctime_ok fok usr grp = Some (Some f2, disk f2)" "fs_ok f2" "abs_fs f2 = abs_fs f"
    using open_closed [where mf = True and asctime_ok = asctime_ok, OF mountedD(3) [OF sd(4)] raw t] by blast
  obtain p2 where 3: "sfs_filedescriptor_pool_init True (Some slab) addr = Some p2" by (simp add: sfs_filedescriptor_pool_init_def)
  note p = new_pool [OF 3]
  let ?s2 = "s1\<lparr>st_locked := False, st_pool := Some p2, st_fs := Some f2, st_disk := disk f2\<rparr>"
  have init: "sfs_init True (Some slab) addr (Some raw) asctime_ok fok usr grp s1 = Some (False, ?s2)"
    using 1(2,3) 2(1) 3 by (simp add: sfs_init_def critical_def)
  have m2: "mounted f2" by (rule mounted_abs [OF sd(4) 2(2,3)])
  have "good ?s2 f2 p2 \<longleftrightarrow> quiet p"
    using quiet_links [OF sd(7) p(3,2)] m2 p(1) 2(3) so(2) by (simp add: good_def sys_ok_def ready_def)
  then show ?thesis using 1(1) init m2 p(4) 2(3)
    by (intro exI [of _ s1] exI [of _ ?s2] exI [of _ f2] exI [of _ p2]) (simp add: spec_of_def)
qed

subsection \<open>Runs across mounts\<close>

text \<open>
  Requests, and restarts of the process when every file is closed; the memory of the new process is
  whatever the allocators give it.
\<close>

datatype event = Request request reply | Restart

definition restarted :: "sfs_state \<Rightarrow> sfs_state \<Rightarrow> bool" where
  "restarted s s' \<longleftrightarrow> (\<exists>f p s1 slab addr raw asctime_ok fok usr grp.
     st_fs s = Some f \<and> st_pool s = Some p \<and> quiet p \<and> length (data raw) = BLOCK_SIZE \<and>
     asctime_ok (create_time (superblock f)) \<and> sfs_destroy s = Some ((), s1) \<and>
     sfs_init True (Some slab) addr (Some raw) asctime_ok fok usr grp s1 = Some (False, s'))"

fun life_step :: "sfs_state \<Rightarrow> event \<Rightarrow> sfs_state \<Rightarrow> bool" where
  "life_step s (Request req r) s' \<longleftrightarrow> serve_step s (req, r) s'"
| "life_step s Restart s' \<longleftrightarrow> restarted s s'"

fun spec_life :: "spec \<Rightarrow> event \<Rightarrow> spec \<Rightarrow> bool" where
  "spec_life S (Request req r) S' \<longleftrightarrow> spec_step S req r S'"
| "spec_life S Restart S' \<longleftrightarrow> S' = S\<lparr>sp_fds := Map.empty\<rparr>"

lemma restarted_represents:
  assumes "represents s S" "restarted s s'"
  shows "represents s' (S\<lparr>sp_fds := Map.empty\<rparr>)"
proof -
  obtain f p where g: "good s f p" "S = spec_of f p" using assms(1) by (auto simp: represents_def)
  obtain s1 slab addr raw asctime_ok fok usr grp where r: "quiet p" "length (data raw) = BLOCK_SIZE"
    "asctime_ok (create_time (superblock f))" "sfs_destroy s = Some ((), s1)"
    "sfs_init True (Some slab) addr (Some raw) asctime_ok fok usr grp s1 = Some (False, s')"
    using assms(2) good_state [OF g(1)] by (auto simp: restarted_def)
  from remount_keeps [where asctime_ok = asctime_ok, OF g(1) r(2,3), of slab addr fok usr grp] r(1,4,5) obtain f2 p2 where
    "spec_of f2 p2 = (spec_of f p)\<lparr>sp_fds := Map.empty\<rparr>" "good s' f2 p2"
    by auto
  then show ?thesis using g(2) unfolding represents_def by metis
qed

interpretation lifetime: forward_simulation life_step spec_life represents
proof
  fix s S e s' assume R: "represents s S" and st: "life_step s e s'"
  show "\<exists>S'. spec_life S e S' \<and> represents s' S'"
  proof (cases e)
    case (Request req r)
    then show ?thesis using service.simulate [OF R, of "(req, r)" s'] st by (auto simp: spec_label_def)
  next
    case Restart
    then show ?thesis using restarted_represents [OF R] st by auto
  qed
qed

lemma life_refines:
  assumes "trace life_step s0 es s" "good s0 f0 p0"
  shows "\<exists>f p. good s f p \<and> trace spec_life (spec_of f0 p0) es (spec_of f p)"
proof -
  have "represents s0 (spec_of f0 p0)" using assms(2) by (auto simp: represents_def)
  from lifetime.trace_simulate [OF assms(1) this] show ?thesis by (auto simp: represents_def)
qed

end
