(* ===== verification/Faults.thy ===== *)
theory Faults
  imports Sfs_Io
begin

text \<open>
  The storage under any behaviour of the disk: whatever the transfers do and whatever the blocks hold,
  every operation that returns keeps the shape of the mounted file system, and one that reports
  success has seen no transfer fail.
\<close>

unbundle bit_operations_syntax

named_theorems faults \<open>what an operation that returns has done, for an arbitrary postcondition\<close>

subsection \<open>Partial correctness\<close>

definition post :: "'a option \<Rightarrow> ('a \<Rightarrow> bool) \<Rightarrow> bool" where
  "post m Q \<longleftrightarrow> (\<forall>x. m = Some x \<longrightarrow> Q x)"

lemma post_simps [simp]:
  "post None Q" "post (Some x) Q \<longleftrightarrow> Q x"
  "post (Option.bind m k) Q \<longleftrightarrow> post m (\<lambda>x. post (k x) Q)"
  by (auto simp: post_def bind_eq_Some_conv)

lemma postD: "post m Q \<Longrightarrow> m = Some x \<Longrightarrow> Q x"
  by (simp add: post_def)

lemma postI: "(\<And>x. m = Some x \<Longrightarrow> Q x) \<Longrightarrow> post m Q"
  by (simp add: post_def)

lemma post_mono: "post m P \<Longrightarrow> (\<And>x. P x \<Longrightarrow> Q x) \<Longrightarrow> post m Q"
  by (simp add: post_def)

subsection \<open>What has happened since a state\<close>

definition full_transfer :: "io_outcome \<Rightarrow> bool" where
  "full_transfer x \<longleftrightarrow> (case x of Io_Full \<Rightarrow> True | Io_Short k \<Rightarrow> BLOCK_SIZE \<le> k | Io_Error \<Rightarrow> False)"

text \<open>The transfers between two states of the disk; \<open>b\<close> says that all of them were full.\<close>

definition went :: "bool \<Rightarrow> os \<Rightarrow> os \<Rightarrow> bool" where
  "went b d0 d \<longleftrightarrow> wf_os d \<and> io_plan d = io_plan d0 \<and> io_done d0 \<le> io_done d \<and>
     (b \<longrightarrow> (\<forall>k. io_done d0 \<le> k \<and> k < io_done d \<longrightarrow> full_transfer (io_plan d0 k)))"

definition shape :: "filesystem \<Rightarrow> bool" where
  "shape f \<longleftrightarrow> wf_os (disk f) \<and> length (data (inode_cache f)) = BLOCK_SIZE \<and> length (signature (superblock f)) = 16"

definition since :: "bool \<Rightarrow> filesystem \<Rightarrow> filesystem \<Rightarrow> bool" where
  "since b f0 f \<longleftrightarrow> shape f \<and> same_geometry (superblock f0) (superblock f) \<and> went b (disk f0) (disk f)"

lemma since_start: "shape f \<Longrightarrow> since True f f"
  by (auto simp: since_def went_def shape_def)

lemma went_weaken: "went b d0 d \<Longrightarrow> (c \<longrightarrow> b) \<Longrightarrow> went c d0 d"
  by (auto simp: went_def)

lemma since_weaken: "since b f0 f \<Longrightarrow> (c \<longrightarrow> b) \<Longrightarrow> since c f0 f"
  by (auto simp: since_def elim: went_weaken)

lemma since_False: "since b f0 f \<Longrightarrow> since False f0 f"
  by (rule since_weaken) simp_all

lemma went_advance: "went b d0 d \<Longrightarrow> went (b \<and> full_transfer (io_plan d (io_done d))) d0 (advance d)"
  unfolding went_def by (auto simp: advance_def wf_os_def less_Suc_eq)

lemma transfer_full: "transfer d n = 512 \<Longrightarrow> n \<le> 512 \<Longrightarrow> full_transfer (io_plan d (io_done d))"
  by (auto simp: transfer_def full_transfer_def min_def split: io_outcome.splits if_splits)

lemma transfer_max: "transfer d n \<le> int n"
  by (auto simp: transfer_def min_def split: io_outcome.splits)

subsection \<open>Transfers\<close>

lemma block_read_went:
  assumes "block_read d b buf = (r, out, d')" "length buf = BLOCK_SIZE" "went c d0 d"
  shows "length out = BLOCK_SIZE" "went (c \<and> r = 512) d0 d'"
proof -
  have w: "wf_os d" using assms(3) by (simp add: went_def)
  obtain x where x: "x = r" "d' = advance d" "x = 512 \<longrightarrow> full_transfer (io_plan d (io_done d))"
    "x \<le> 512" "out = (if x \<le> 0 then zero_block else take (nat x) (file_blocks d (unat (b * 512) div BLOCK_SIZE)) @ drop (nat x) buf)"
  proof -
    let ?n = "min BLOCK_SIZE (file_size d - unat (b * 512))"
    have "transfer d ?n \<le> 512" using transfer_max [of d ?n] by simp
    then show ?thesis using that [of r] assms(1) transfer_full [of d ?n]
      by (auto simp: block_read_def pread_def Let_def split: if_splits)
  qed
  show "length out = BLOCK_SIZE" using x(4,5) assms(2) w by simp
  show "went (c \<and> r = 512) d0 d'" using went_advance [OF assms(3)] x(1,2,3) by (auto elim: went_weaken)
qed

lemma block_write_went:
  assumes "block_write d b v = (r, d')" "length v = BLOCK_SIZE" "went c d0 d"
  shows "went (c \<and> r = 512) d0 d'"
proof -
  have wd: "wf_os d" using assms(3) by (simp add: went_def)
  let ?o = "unat (b * 512)" and ?r = "if sint (b * 512) < 0 then -1 else transfer d 512"
  let ?d1 = "if ?r \<le> 0 then d else d\<lparr>file_blocks := (zero_gap d ?o)
      (?o div 512 := take (nat ?r) v @ drop (nat ?r) (file_blocks d (?o div 512))), file_size := max (file_size d) (?o + nat ?r)\<rparr>"
  have e: "r = ?r" "d' = advance ?d1" using assms(1) by (auto simp: block_write_def pwrite_def Let_def)
  have "wf_os ?d1" using assms(2) wd transfer_max [of d 512] length_zero_gap [OF wd, of ?o] by (auto simp: wf_os_def min_def)
  then have "went c d0 ?d1" "io_plan ?d1 = io_plan d" "io_done ?d1 = io_done d" using assms(3) by (simp_all add: went_def)
  then have "went (c \<and> full_transfer (io_plan d (io_done d))) d0 d'" unfolding e(2) using went_advance [of c d0 ?d1] by metis
  moreover have "r = 512 \<Longrightarrow> full_transfer (io_plan d (io_done d))" using e(1) transfer_full [of d 512] by (simp split: if_splits)
  ultimately show ?thesis by (auto elim: went_weaken)
qed

text \<open>The same for the disk of a file system, with what comes after.\<close>

lemma since_disk: "since b f0 f \<Longrightarrow> went c (disk f0) d \<Longrightarrow> since c f0 (f\<lparr>disk := d\<rparr>)"
  by (simp add: since_def shape_def went_def)

lemma post_block_read [faults]:
  assumes "since b f0 f" and "since b f0 f \<Longrightarrow> length buf = BLOCK_SIZE"
    and "\<And>r out d. length out = BLOCK_SIZE \<Longrightarrow> since (b \<and> r = 512) f0 (f\<lparr>disk := d\<rparr>) \<Longrightarrow> post (k r out d) Q"
  shows "post (case block_read (disk f) n buf of (r, out, d) \<Rightarrow> k r out d) Q"
proof -
  obtain r out d where e: "block_read (disk f) n buf = (r, out, d)" by (cases "block_read (disk f) n buf")
  have "went b (disk f0) (disk f)" using assms(1) by (simp add: since_def)
  from block_read_went [OF e assms(2) [OF assms(1)] this] assms(3) [of out r d] since_disk [OF assms(1)] show ?thesis by (simp add: e)
qed

lemma post_block_write [faults]:
  assumes "since b f0 f" and "since b f0 f \<Longrightarrow> length v = BLOCK_SIZE"
    and "\<And>r d. since (b \<and> r = 512) f0 (f\<lparr>disk := d\<rparr>) \<Longrightarrow> post (k r d) Q"
  shows "post (case block_write (disk f) n v of (r, d) \<Rightarrow> k r d) Q"
proof -
  obtain r d where e: "block_write (disk f) n v = (r, d)" by (cases "block_write (disk f) n v")
  have "went b (disk f0) (disk f)" using assms(1) by (simp add: since_def)
  from block_write_went [OF e assms(2) [OF assms(1)] this] assms(3) [of r d] since_disk [OF assms(1)] show ?thesis by (simp add: e)
qed

lemma post_time [faults]:
  assumes "since b f0 f" and "\<And>t d. since b f0 (f\<lparr>disk := d\<rparr>) \<Longrightarrow> post (k t d) Q"
  shows "post (case time (disk f) of (t, d) \<Rightarrow> k t d) Q"
proof -
  obtain t d where e: "time (disk f) = (t, d)" by (cases "time (disk f)")
  have "went b (disk f0) d" using assms(1) e by (auto simp: since_def went_def time_def wf_os_def)
  from assms(2) [OF since_disk [OF assms(1) this]] show ?thesis by (simp add: e)
qed

lemma since_super:
  "since b f0 (f\<lparr>disk := d\<rparr>) \<Longrightarrow> same_geometry (superblock f) sb \<Longrightarrow> since b f0 (f\<lparr>superblock := sb, disk := d\<rparr>)"
  by (auto simp: since_def shape_def same_geometry_def)

lemma post_write_superblock [faults]:
  assumes "since b f0 f" and "same_geometry (superblock f) sb"
    and "\<And>r d. since (b \<and> r = 0) f0 (f\<lparr>superblock := sb, disk := d\<rparr>) \<Longrightarrow> post (k r d) Q"
  shows "post (case write_superblock (disk f) sb of (r, d) \<Rightarrow> k r d) Q"
proof -
  obtain r d where e: "block_write (disk f) 0 (put_bytes 0 (encode_superblock sb) zero_block) = (r, d)" by (meson surj_pair)
  have w: "went b (disk f0) (disk f)" using assms(1) by (simp add: since_def)
  have "length (put_bytes 0 (encode_superblock sb) zero_block) = BLOCK_SIZE"
    using assms(1,2) by (simp add: length_put_bytes length_encode_superblock since_def shape_def same_geometry_def [of "superblock f"])
  note bw = block_write_went [OF e this w]
  from since_super [OF since_disk [OF assms(1) bw] assms(2)] assms(3) [of "if r \<noteq> 512 then -1 else 0" d] show ?thesis
    by (auto simp: write_superblock_def Let_def e)
qed

lemmas [faults] =
  post_block_read [of _ _ "f\<lparr>disk := e\<rparr>" for f e, simplified]
  post_block_write [of _ _ "f\<lparr>disk := e\<rparr>" for f e, simplified]
  post_time [of _ _ "f\<lparr>disk := e\<rparr>" for f e, simplified]
  post_write_superblock [of _ _ "f\<lparr>disk := e\<rparr>" for f e, simplified]

subsection \<open>Inodes\<close>

lemma since_cache:
  "since b f0 f \<Longrightarrow> length bs = BLOCK_SIZE \<Longrightarrow> since b f0 (f\<lparr>inode_cache := (inode_cache f)\<lparr>data := bs\<rparr>\<rparr>)"
  "since b f0 f \<Longrightarrow> since b f0 (f\<lparr>inode_cache := (inode_cache f)\<lparr>cache_block := n\<rparr>\<rparr>)"
  "since b f0 f \<Longrightarrow> since b f0 (f\<lparr>inode_cache := (inode_cache f)\<lparr>cache_block := n, dirty := x\<rparr>\<rparr>)"
  "since b f0 f \<Longrightarrow> length bs = BLOCK_SIZE \<Longrightarrow> since b f0 (f\<lparr>inode_cache := (inode_cache f)\<lparr>dirty := x, data := bs\<rparr>\<rparr>)"
  by (simp_all add: since_def shape_def)

lemma since_data: "since b f0 f \<Longrightarrow> length (data (inode_cache f)) = BLOCK_SIZE"
  by (simp add: since_def shape_def)

lemma case_case_prod:
  "(case (case x of (a, b) \<Rightarrow> f a b) of (c, d) \<Rightarrow> g c d) = (case x of (a, b) \<Rightarrow> case f a b of (c, d) \<Rightarrow> g c d)"
  "(case (case y of None \<Rightarrow> u | Some z \<Rightarrow> v z) of (c, d) \<Rightarrow> g c d) =
     (case y of None \<Rightarrow> (case u of (c, d) \<Rightarrow> g c d) | Some z \<Rightarrow> case v z of (c, d) \<Rightarrow> g c d)"
  "(case (if p then u else u') of (c, d) \<Rightarrow> g c d) = (if p then case u of (c, d) \<Rightarrow> g c d else case u' of (c, d) \<Rightarrow> g c d)"
  by (simp_all split: prod.split option.split)

lemmas distrib_Some = prod.case_distrib [of Some] option.case_distrib [of Some] if_distrib [of Some]

lemma post_pair: "(\<And>r f'. P r f' \<Longrightarrow> post (k r f') Q) \<Longrightarrow> post (Some x) (\<lambda>(r, f'). P r f') \<Longrightarrow> post (case x of (r, f') \<Rightarrow> k r f') Q"
  by (cases x) simp

lemma post_write_back [faults]:
  assumes "since b f0 f" and "\<And>r f'. since (b \<and> r = 0) f0 f' \<Longrightarrow> post (k r f') Q"
  shows "post (case cache_write_back f of (r, f') \<Rightarrow> k r f') Q"
proof (rule post_pair [OF assms(2)])
  show "post (Some (cache_write_back f)) (\<lambda>(r, f'). since (b \<and> r = 0) f0 f')"
    unfolding cache_write_back_def Let_def distrib_Some using assms(1)
    by (auto elim!: faults elim: since_weaken simp: since_data)
qed assumption

lemma post_fill [faults]:
  assumes "since b f0 f" and "\<And>r f'. since (b \<and> r = 0) f0 f' \<Longrightarrow> post (k r f') Q"
  shows "post (case cache_fill f n of (r, f') \<Rightarrow> k r f') Q"
proof (rule post_pair [OF assms(2)])
  show "post (Some (cache_fill f n)) (\<lambda>(r, f'). since (b \<and> r = 0) f0 f')"
    unfolding cache_fill_def Let_def distrib_Some using assms(1)
    by (auto elim!: faults simp: since_data) (auto simp: since_def shape_def elim: went_weaken)
qed assumption

lemmas [faults] = post_fill [OF since_cache(2)] post_fill [OF since_cache(3)]

lemma post_read_inode [faults]:
  assumes "since b f0 f"
    and "\<And>f'. since False f0 f' \<Longrightarrow> Q (None, f')" "\<And>i f'. wf_inode i \<Longrightarrow> since b f0 f' \<Longrightarrow> Q (Some i, f')"
  shows "post (sfs_fs_read_inode f n) Q"
  unfolding sfs_fs_read_inode_def Let_def case_case_prod using assms
  by (auto elim!: faults elim: since_cache since_False)

lemma since_put:
  assumes "since b f0 f" "wf_inode i"
  shows "since b f0 (f\<lparr>inode_cache := (inode_cache f)\<lparr>dirty := x, data := put_inode (unat (n mod 3 :: u64)) i (data (inode_cache f))\<rparr>\<rparr>)"
  by (rule since_cache(4) [OF assms(1)]) (use assms(2) since_data [OF assms(1)] in \<open>simp add: unat_mod\<close>)

lemma post_write_inode [faults]:
  assumes "since b f0 f" and "wf_inode i"
    and "\<And>r f'. since (b \<and> r = 0) f0 f' \<Longrightarrow> Q (r, f')"
  shows "post (sfs_fs_write_inode f i) Q"
proof -
  have Q: "Q (0, f')" if "since b f0 f'" for f' using assms(3) [of 0 f'] that by simp
  show ?thesis
    unfolding sfs_fs_write_inode_def Let_def case_case_prod using assms
    by (auto elim!: faults elim: since_cache since_False intro!: Q since_put)
qed

subsection \<open>Allocators\<close>

lemma post_allocate_block [faults]:
  assumes "since b f0 f" and "\<And>r f'. since (b \<and> r \<noteq> None) f0 f' \<Longrightarrow> post (k r f') Q"
  shows "post (case sfs_fs_allocate_block f of (r, f') \<Rightarrow> k r f') Q"
proof (rule post_pair [OF assms(2)])
  show "post (Some (sfs_fs_allocate_block f)) (\<lambda>(r, f'). since (b \<and> r \<noteq> None) f0 f')"
    unfolding sfs_fs_allocate_block_def Let_def distrib_Some using assms(1)
    by (auto elim!: faults elim: since_False simp: same_geometry_def dest!: find_upt_Some split: option.splits)
qed assumption

lemma free_block_walk_since:
  assumes "free_block_walk f n node prev tmp = Some x" "since b f0 f" "length tmp = BLOCK_SIZE"
  shows "(\<lambda>(r, f'). since (b \<and> r = 0) f0 f') x"
  using assms
proof (induction f n node prev tmp x arbitrary: b rule: free_block_walk.raw_induct [rotated, consumes 1])
  case (1 walk f n node prev tmp x)
  have IH: "post (walk f n node prev tmp) (\<lambda>(r, f'). since (b \<and> r = 0) f0 f')" if "since b f0 f" "length tmp = BLOCK_SIZE"
    for b f n node prev tmp
    using 1(1) that by (intro postI) blast
  show ?case
    by (rule postD [OF _ 1(2)])
      (use 1(3,4) in \<open>auto simp: Let_def elim!: faults IH elim: since_False dest!: find_upt_Some split: option.splits\<close>)
qed

lemma post_free_block [faults]:
  assumes "since b f0 f" and "\<And>r f'. since (b \<and> r = 0) f0 f' \<Longrightarrow> Q (r, f')"
  shows "post (sfs_fs_free_block f n) Q"
proof (rule post_mono [where P = "\<lambda>(r, f'). since (b \<and> r = 0) f0 f'"])
  show "post (sfs_fs_free_block f n) (\<lambda>(r, f'). since (b \<and> r = 0) f0 f')"
  proof (cases "free_blocks_head (superblock f) = 0")
    case True
    then show ?thesis unfolding sfs_fs_free_block_def Let_def using assms(1)
      by (auto elim!: faults elim: since_False simp: same_geometry_def)
  next
    case False
    then show ?thesis unfolding sfs_fs_free_block_def
      using free_block_walk_since [OF _ assms(1)] by (auto intro: postI)
  qed
qed (use assms(2) in auto)

lemma post_inode_allocate [faults]:
  assumes "since b f0 f"
    and "\<And>f'. since False f0 f' \<Longrightarrow> Q (None, f')" "\<And>i f'. wf_inode i \<Longrightarrow> since b f0 f' \<Longrightarrow> Q (Some i, f')"
  shows "post (sfs_fs_inode_allocate f) Q"
  unfolding sfs_fs_inode_allocate_def Let_def using assms assms(2) [OF since_False [OF assms(1)]]
  by (auto elim!: faults intro: since_False)

lemma post_free_pointers [faults]:
  assumes "since b f0 f" and "\<And>r f'. since (b \<and> r = 0) f0 f' \<Longrightarrow> Q (r, f')"
  shows "post (free_pointers f ps) Q"
  using assms
proof (induction ps arbitrary: b f)
  case Nil
  then show ?case by (auto elim: since_weaken)
next
  case (Cons p ps)
  then show ?case by (auto elim!: faults Cons.IH elim: since_weaken)
qed

lemma post_inode_deallocate [faults]:
  assumes "since b f0 f" and "wf_inode i" and "\<And>r f'. since (b \<and> r = 0) f0 f' \<Longrightarrow> Q (r, f')"
  shows "post (sfs_fs_inode_deallocate f i) Q"
  unfolding sfs_fs_inode_deallocate_def Let_def using assms
  by (auto elim!: faults elim: since_weaken simp: same_geometry_def)

subsection \<open>Blocks of files\<close>

lemma post_read_from_indirect [faults]:
  assumes "since b f0 f" "n < 64" and "\<And>r f'. since (b \<and> r \<noteq> None) f0 f' \<Longrightarrow> post (k r f') Q"
  shows "post (case read_from_indirect f p n c of (r, f') \<Rightarrow> k r f') Q"
proof (rule post_pair [OF assms(3)])
  show "post (Some (read_from_indirect f p n c)) (\<lambda>(r, f'). since (b \<and> r \<noteq> None) f0 f')"
    unfolding read_from_indirect_def Let_def distrib_Some using assms(1,2)
    by (auto elim!: faults intro: since_False split: option.splits)
qed assumption

lemma indirect_index: "i < 76 \<Longrightarrow> unat (i :: u64) - 12 < 64"
  using unat_less_76 [of i] by linarith

lemma post_block_of_file [faults]:
  assumes "since b f0 f"
    and "\<And>r f'. since (b \<and> r \<noteq> None) f0 f' \<Longrightarrow> (\<And>bs. r = Some bs \<Longrightarrow> length bs = BLOCK_SIZE) \<Longrightarrow> post (k r f') Q"
  shows "post (case sfs_fs_inode_block_read f i n of (r, f') \<Rightarrow> k r f') Q"
proof (rule post_pair [where P = "\<lambda>r f'. since (b \<and> r \<noteq> None) f0 f' \<and> (\<forall>bs. r = Some bs \<longrightarrow> length bs = BLOCK_SIZE)"])
  show "post (Some (sfs_fs_inode_block_read f i n)) (\<lambda>(r, f'). since (b \<and> r \<noteq> None) f0 f' \<and> (\<forall>bs. r = Some bs \<longrightarrow> length bs = BLOCK_SIZE))"
    unfolding block_read_unfold Let_def distrib_Some case_case_prod using assms(1)
    by (auto elim!: faults dest: indirect_index split: option.splits) (blast intro: since_False)+
qed (use assms(2) in blast)

lemma post_block_to_read [faults]:
  assumes "since b f0 f" and "\<And>r f'. since (b \<and> r \<noteq> None) f0 f' \<Longrightarrow> post (k r f') Q"
  shows "post (case block_to_read f i n of (r, f') \<Rightarrow> k r f') Q"
proof (rule post_pair [OF assms(2)])
  show "post (Some (block_to_read f i n)) (\<lambda>(r, f'). since (b \<and> r \<noteq> None) f0 f')"
    unfolding block_to_read_def Let_def distrib_Some case_case_prod using assms(1)
    by (auto elim!: faults dest: indirect_index split: option.splits) (blast intro: since_False)+
qed assumption

lemma post_fill_block [faults]:
  assumes "since b f0 f"
    and "\<And>r f'. since (b \<and> r \<noteq> None) f0 f' \<Longrightarrow> (\<And>bs. r = Some bs \<Longrightarrow> length bs = BLOCK_SIZE) \<Longrightarrow> post (k r f') Q"
  shows "post (case fill_block f n of (r, f') \<Rightarrow> k r f') Q"
proof (rule post_pair [where P = "\<lambda>r f'. since (b \<and> r \<noteq> None) f0 f' \<and> (\<forall>bs. r = Some bs \<longrightarrow> length bs = BLOCK_SIZE)"])
  show "post (Some (fill_block f n)) (\<lambda>(r, f'). since (b \<and> r \<noteq> None) f0 f' \<and> (\<forall>bs. r = Some bs \<longrightarrow> length bs = BLOCK_SIZE))"
    unfolding fill_block_def Let_def distrib_Some case_case_prod using assms(1)
    by (auto elim!: faults split: option.splits intro: since_False)
qed (use assms(2) in blast)

lemma wf_pointer: "wf_inode i \<Longrightarrow> wf_inode (i\<lparr>block_pointers := (block_pointers i)[n := p]\<rparr>)"
  by (simp add: wf_inode_def)

lemma post_direct_target [faults]:
  assumes "since b f0 f" "wf_inode i" and "\<And>r i' f'. wf_inode i' \<Longrightarrow> since (b \<and> r \<noteq> None) f0 f' \<Longrightarrow> Q (r, i', f')"
  shows "post (direct_target f i n) Q"
  unfolding direct_target_def Let_def using assms
  by (auto elim!: faults intro: since_False simp: wf_pointer split: option.splits)

lemma post_make_indirect [faults]:
  assumes "since b f0 f" "wf_inode i" and "\<And>r i' f'. wf_inode i' \<Longrightarrow> since (b \<and> r = 0) f0 f' \<Longrightarrow> Q (r, i', f')"
  shows "post (make_indirect f i) Q"
  unfolding make_indirect_def Let_def using assms
  by (auto elim!: faults intro: since_False simp: wf_inode_def split: option.splits)

lemma post_indirect_target [faults]:
  assumes "since b f0 f" "wf_inode i" "n < 76"
    and "\<And>r i' f'. wf_inode i' \<Longrightarrow> since (b \<and> r \<noteq> None) f0 f' \<Longrightarrow> Q (r, i', f')"
  shows "post (indirect_target f i n) Q"
  unfolding indirect_target_def Let_def using assms
  by (auto elim!: faults intro: since_False split: option.splits)

lemma post_write_block [faults]:
  assumes "since b f0 f" "wf_inode i" "length v = BLOCK_SIZE"
    and "\<And>r i' f'. wf_inode i' \<Longrightarrow> since (b \<and> r = 0) f0 f' \<Longrightarrow> Q (r, i', f')"
  shows "post (sfs_fs_inode_block_write f i n v) Q"
proof (rule post_mono [where P = "\<lambda>(r, i', f'). wf_inode i' \<and> since (b \<and> r = 0) f0 f'"])
  show "post (sfs_fs_inode_block_write f i n v) (\<lambda>(r, i', f'). wf_inode i' \<and> since (b \<and> r = 0) f0 f')"
    unfolding block_write_unfold Let_def using assms(1-3)
    by (auto simp: unat_less_76 elim!: faults split: option.splits) (blast intro: since_False)+
qed (use assms(4) in auto)

lemma post_block_to_write [faults]:
  assumes "since b f0 f" "wf_inode i" and "\<And>r i' f'. wf_inode i' \<Longrightarrow> since (b \<and> r \<noteq> None) f0 f' \<Longrightarrow> Q (r, i', f')"
  shows "post (block_to_write f i n) Q"
proof (rule post_mono [where P = "\<lambda>(r, i', f'). wf_inode i' \<and> since (b \<and> r \<noteq> None) f0 f'"])
  show "post (block_to_write f i n) (\<lambda>(r, i', f'). wf_inode i' \<and> since (b \<and> r \<noteq> None) f0 f')"
    unfolding block_to_write_def Let_def using assms(1,2)
    by (auto simp: unat_less_76 elim!: faults split: option.splits) (blast intro: since_False)+
qed (use assms(3) in auto)

lemma post_put_out_block [faults]:
  assumes "since b f0 f" "length v = BLOCK_SIZE" and "\<And>r f'. since (b \<and> r = 0) f0 f' \<Longrightarrow> post (k r f') Q"
  shows "post (case put_out_block f n v of (r, f') \<Rightarrow> k r f') Q"
proof (rule post_pair [OF assms(3)])
  show "post (Some (put_out_block f n v)) (\<lambda>(r, f'). since (b \<and> r = 0) f0 f')"
    unfolding put_out_block_def Let_def distrib_Some using assms(1,2) by (auto elim!: faults intro: since_False)
qed assumption

lemma post_remove_block [faults]:
  assumes "since b f0 f" and "\<And>r f'. since (b \<and> r = 0) f0 f' \<Longrightarrow> Q (r, f')"
  shows "post (sfs_fs_inode_block_remove f i n) Q"
proof (rule post_mono [where P = "\<lambda>(r, f'). since (b \<and> r = 0) f0 f'"])
  show "post (sfs_fs_inode_block_remove f i n) (\<lambda>(r, f'). since (b \<and> r = 0) f0 f')"
    unfolding sfs_fs_inode_block_remove_def Let_def using assms(1) by (auto elim!: faults intro: since_False)
qed (use assms(2) in auto)

subsection \<open>Directories\<close>

text \<open>A block has been loaded once the iterator is inside it.\<close>

definition iterating :: "dir_iterator \<Rightarrow> bool" where
  "iterating it \<longleftrightarrow> wf_inode (it_inode it) \<and> (it_entry it \<noteq> 0 \<longrightarrow> length (cached_block it) = BLOCK_SIZE)"

lemma post_iter_load [faults]:
  assumes "since b f0 f" "iterating it"
    and "\<And>r it' f'. iterating it' \<Longrightarrow> (r \<Longrightarrow> length (cached_block it') = BLOCK_SIZE) \<Longrightarrow> since (b \<and> r) f0 f' \<Longrightarrow> Q (r, it', f')"
  shows "post (iter_load f it) Q"
  unfolding iter_load_def Let_def using assms
  by (auto elim!: faults intro: since_False simp: iterating_def wf_inode_def split: option.splits)

lemma post_iternext [faults]:
  assumes "since b f0 f" "iterating it"
    and "\<And>r it' f'. iterating it' \<Longrightarrow> (r \<noteq> None \<Longrightarrow> length (cached_block it') = BLOCK_SIZE) \<Longrightarrow>
      (\<And>j i. r = Some (j, i) \<Longrightarrow> j = 0 \<and> (\<forall>k. i = Some k \<longrightarrow> wf_inode k)) \<Longrightarrow>
      since (b \<and> r \<noteq> None) f0 f' \<Longrightarrow> Q (r, it', f')"
  shows "post (sfs_dir_iternext f it w) Q"
  using assms
proof (induction f it w arbitrary: b rule: sfs_dir_iternext.induct)
  case (1 f it w)
  have stop: "Q (None, it', f')" if "iterating it'" "since c f0 f'" for it' c f'
    using 1(4) [of it' None f'] that since_False by auto
  show ?case
  proof (cases "isize (it_inode it) \<le> it_iblock it * 512")
    case True
    then show ?thesis using stop 1(2,3) by (subst sfs_dir_iternext.simps) auto
  next
    case False
    show ?thesis
    proof (cases "iter_load f it")
      case None
      then show ?thesis using False by (subst sfs_dir_iternext.simps) simp
    next
      case (Some x)
      obtain ok it' f' where x: "x = (ok, it', f')" by (cases x)
      have l: "iterating it' \<and> (ok \<longrightarrow> length (cached_block it') = BLOCK_SIZE) \<and> since (b \<and> ok) f0 f'"
        using postD [OF post_iter_load [OF 1(2,3)] Some,
          of "\<lambda>(r, it', f'). iterating it' \<and> (r \<longrightarrow> length (cached_block it') = BLOCK_SIZE) \<and> since (b \<and> r) f0 f'"] x by simp
      let ?j = "List.find (\<lambda>j. de_inumber (get_entry j (cached_block it')) \<noteq> 0) [it_entry it..<ENTRIES_PER_BLOCK]"
      show ?thesis
      proof (cases ok)
        case no: False
        then show ?thesis using False Some x stop l by (subst sfs_dir_iternext.simps) auto
      next
        case ok: True
        show ?thesis
        proof (cases ?j)
          case None
          have "iterating (it'\<lparr>it_iblock := it_iblock it' + 1, it_entry := 0\<rparr>)" using l by (simp add: iterating_def)
          with 1(1) [OF False \<open>iter_load f it = Some x\<close> x [symmetric] refl _ None, of b] ok x l None 1(4) False
            \<open>iter_load f it = Some x\<close> show ?thesis
            by (subst sfs_dir_iternext.simps) simp
        next
          case (Some j)
          have "iterating (it'\<lparr>it_entry := j + 1\<rparr>)" using l ok by (simp add: iterating_def)
          moreover have "j = 0" using find_upt_Some [OF Some] by simp
          ultimately have found: "Q (Some (j, i), it'\<lparr>it_entry := j + 1\<rparr>, f2)"
            if "since b f0 f2" "\<forall>k. i = Some k \<longrightarrow> wf_inode k" for i f2
            using l ok 1(4) [of "it'\<lparr>it_entry := j + 1\<rparr>" "Some (j, i)" f2] that by simp
          from Some l ok x False \<open>iter_load f it = Some x\<close> stop found [of _ None] found [of _ "Some k" for k]
          show ?thesis by (subst sfs_dir_iternext.simps) (auto elim!: faults)
        qed
      qed
    qed
  qed
qed

lemma post_drop_link [faults]:
  assumes "since b f0 f" and "wf_inode i" and "\<And>r f'. since (b \<and> r = 0) f0 f' \<Longrightarrow> Q (r, f')"
  shows "post (drop_link f i) Q"
  unfolding drop_link_def using assms by (auto elim!: faults)

lemma post_iter_unlink [faults]:
  assumes "since b f0 f" and "iterating it" "length (cached_block it) = BLOCK_SIZE"
    and "\<And>r it' f'. since (b \<and> r = 0) f0 f' \<Longrightarrow> Q (r, it', f')"
  shows "post (sfs_dir_iter_unlink f it 0) Q"
proof (rule post_mono [where P = "\<lambda>(r, it', f'). since (b \<and> r = 0) f0 f'"])
  show "post (sfs_dir_iter_unlink f it 0) (\<lambda>(r, it', f'). since (b \<and> r = 0) f0 f')"
    unfolding sfs_dir_iter_unlink_def Let_def using assms(1-3)
    by (auto simp: iterating_def elim!: faults)
qed (use assms(4) in auto)

lemma post_link_at [faults]:
  assumes "since b f0 f" and "wf_inode d" "wf_inode i" "length t = BLOCK_SIZE"
    and "\<And>r d' i' f'. since (b \<and> r = 0) f0 f' \<Longrightarrow> Q (r, d', i', f')"
  shows "post (link_at f d nm i n t 0) Q"
proof (rule post_mono [where P = "\<lambda>(r, d', i', f'). since (b \<and> r = 0) f0 f'"])
  show "post (link_at f d nm i n t 0) (\<lambda>(r, d', i', f'). since (b \<and> r = 0) f0 f')"
    unfolding link_at_def Let_def using assms(1-4)
    by (auto elim!: faults)
qed (use assms(5) in auto)

lemma post_link_append [faults]:
  assumes "since b f0 f" and "wf_inode d" "wf_inode i"
    and "\<And>r d' i' f'. since (b \<and> r = 0) f0 f' \<Longrightarrow> Q (r, d', i', f')"
  shows "post (link_append f d nm i) Q"
proof (rule post_mono [where P = "\<lambda>(r, d', i', f'). since (b \<and> r = 0) f0 f'"])
  show "post (link_append f d nm i) (\<lambda>(r, d', i', f'). since (b \<and> r = 0) f0 f')"
    unfolding link_append_def Let_def using assms(1-3)
    by (auto elim!: faults)
qed (use assms(4) in auto)

lemma post_link_scan [faults]:
  assumes "since b f0 f" and "wf_inode d" "wf_inode i"
    and "\<And>r d' i' f'. since (b \<and> r = 0) f0 f' \<Longrightarrow> Q (r, d', i', f')"
  shows "post (link_scan f d nm i is) Q"
proof (rule post_mono [where P = "\<lambda>(r, d', i', f'). since (b \<and> r = 0) f0 f'"])
  show "post (link_scan f d nm i is) (\<lambda>(r, d', i', f'). since (b \<and> r = 0) f0 f')"
    using assms(1-3)
  proof (induction "is" arbitrary: b f)
    case Nil
    then show ?case by (auto elim!: faults)
  next
    case (Cons n "is")
    then show ?case by (auto simp: find_upt_None elim!: faults dest!: find_upt_Some split: option.splits)
  qed
qed (use assms(4) in auto)

lemma post_dir_link [faults]:
  assumes "since b f0 f" and "wf_inode d" "wf_inode i"
    and "\<And>r d' i' f'. since (b \<and> r = 0) f0 f' \<Longrightarrow> Q (r, d', i', f')"
  shows "post (sfs_dir_link f d nm i) Q"
proof (rule post_mono [where P = "\<lambda>(r, d', i', f'). since (b \<and> r = 0) f0 f'"])
  show "post (sfs_dir_link f d nm i) (\<lambda>(r, d', i', f'). since (b \<and> r = 0) f0 f')"
    unfolding sfs_dir_link_def using assms(1-3) by (auto intro: since_False elim!: faults)
qed (use assms(4) in auto)

end
