(* ===== verification/Fault_Handlers.thy ===== *)
theory Fault_Handlers
  imports Faults File_System
begin

text \<open>
  The handlers under any behaviour of the disk. A request that returns keeps the shape of the mounted
  file system; one that reports success has seen no transfer fail, except where a failed read of
  the directory is taken for its end.
\<close>

unbundle bit_operations_syntax

subsection \<open>The parts the handlers share\<close>

lemma post_critical:
  assumes "\<not> st_locked s \<Longrightarrow> post (body (s\<lparr>st_locked := True\<rparr>)) (\<lambda>(r, s'). Q (r, s'\<lparr>st_locked := False\<rparr>))"
  shows "post (critical s body) Q"
  using assms by (auto simp: critical_def post_def bind_eq_Some_conv)

lemma post_sum:
  assumes "post m (\<lambda>(r, f). case r of Inl e \<Rightarrow> A e f | Inr i \<Rightarrow> B i f)"
    and "\<And>e f. A e f \<Longrightarrow> Q (Inl e, f)" "\<And>i f. B i f \<Longrightarrow> Q (Inr i, f)"
  shows "post m Q"
proof (rule post_mono [OF assms(1)], clarify)
  fix r f assume "case r of Inl e \<Rightarrow> A e f | Inr i \<Rightarrow> B i f"
  then show "Q (r, f)" using assms(2,3) by (cases r) auto
qed

text \<open>The state after a part of a handler, with \<open>b\<close> as in \<^const>\<open>since\<close>.\<close>

definition progressed :: "bool \<Rightarrow> filesystem \<Rightarrow> sfs_state \<Rightarrow> bool" where
  "progressed b f0 s \<longleftrightarrow> (\<exists>f. st_fs s = Some f \<and> since b f0 f)"

lemma progressedI: "since b f0 f \<Longrightarrow> progressed b f0 (s\<lparr>st_fs := Some f\<rparr>)"
  by (simp add: progressed_def)

lemma progressed_upd [simp]:
  "progressed b f0 (s\<lparr>st_locked := l\<rparr>) = progressed b f0 s" "progressed b f0 (s\<lparr>st_pool := p\<rparr>) = progressed b f0 s"
  "progressed b f0 (s\<lparr>st_fs := Some f\<rparr>) = since b f0 f" "progressed b f0 (s\<lparr>st_fs := Some f, st_pool := p\<rparr>) = since b f0 f"
  by (simp_all add: progressed_def)

lemma path_name_error: "path_name env path = Some (Inl e) \<Longrightarrow> e < 0"
  by (auto simp: path_name_def Let_def split: if_splits)

lemma post_open_root [faults]:
  assumes "since b f0 f" "st_fs s = Some f"
    and "\<And>e s'. progressed False f0 s' \<Longrightarrow> e < 0 \<Longrightarrow> Q (Inl e, s')"
    and "\<And>nm d f'. since b f0 f' \<Longrightarrow> wf_inode d \<Longrightarrow> Q (Inr (nm, d), s\<lparr>st_fs := Some f'\<rparr>)"
  shows "post (open_root env path s) Q"
proof (cases "path_name env path")
  case (Some p)
  have "progressed False f0 s" using assms(1,2) since_False by (auto simp: progressed_def)
  then show ?thesis unfolding open_root_def sfs_dir_root_def using assms Some
    by (cases p) (auto elim!: faults dest: path_name_error intro: progressedI)
qed (simp add: open_root_def)

definition found_by :: "bool \<Rightarrow> filesystem \<Rightarrow> nat option \<times> dir_iterator \<times> filesystem \<Rightarrow> bool" where
  "found_by b f0 = (\<lambda>(r, it, f). iterating it \<and>
     (case r of None \<Rightarrow> since False f0 f | Some j \<Rightarrow> j = 0 \<and> length (cached_block it) = BLOCK_SIZE \<and> since b f0 f))"

lemma find_name_post:
  assumes "find_name f it nm = Some x" "since b f0 f" "iterating it"
  shows "found_by b f0 x"
  using assms
proof (induction f it nm x arbitrary: b rule: find_name.raw_induct [rotated, consumes 1])
  case (1 scan f it nm x)
  have IH: "post (scan f it nm) (found_by b f0)" if "since b f0 f" "iterating it" for b f it nm
    using 1(1) that by (intro postI) blast
  have stop: "found_by b f0 (None, it, f)" if "iterating it" "since False f0 f" for it f
    using that by (simp add: found_by_def)
  have hit: "found_by b f0 (Some 0, it, f)" if "iterating it" "length (cached_block it) = BLOCK_SIZE" "since b f0 f" for it f
    using that by (simp add: found_by_def)
  show ?case
    by (rule postD [OF _ 1(2)])
      (use 1(3,4) in \<open>auto elim!: post_iternext intro!: IH stop hit split: option.splits\<close>)
qed

lemma post_scan_dir [faults]:
  assumes "since b f0 f" "wf_inode d"
    and "\<And>f'. since False f0 f' \<Longrightarrow> Q (None, f')"
    and "\<And>it f'. since False f0 f' \<Longrightarrow> iterating it \<Longrightarrow> Q (Some (None, it), f')"
    and "\<And>it f'. since b f0 f' \<Longrightarrow> iterating it \<Longrightarrow> length (cached_block it) = BLOCK_SIZE \<Longrightarrow> Q (Some (Some 0, it), f')"
  shows "post (scan_dir env f d nm) Q"
proof (rule postI)
  fix x assume x: "scan_dir env f d nm = Some x"
  show "Q x"
  proof (cases "iter_mem env 0")
    case None
    then show ?thesis using x assms(3) [OF since_False [OF assms(1)]] by (auto simp: scan_dir_def sfs_dir_iterate_def bind_eq_Some_conv split: if_splits)
  next
    case (Some raw)
    then obtain r it f' where 1: "x = (Some (r, it), f')"
      "find_name f \<lparr>it_inode = d, it_iblock = 0, it_entry = 0, cached_block = raw\<rparr> nm = Some (r, it, f')"
      using x by (auto simp: scan_dir_def sfs_dir_iterate_def bind_eq_Some_conv split: if_splits)
    from find_name_post [OF 1(2) assms(1)] assms(2) have "found_by b f0 (r, it, f')" by (simp add: iterating_def)
    then show ?thesis using 1(1) assms(4,5) by (auto simp: found_by_def split: option.splits)
  qed
qed

lemma post_open_fd:
  assumes "\<And>r p. Q (r, s\<lparr>st_pool := p\<rparr>)"
  shows "post (open_fd env n fi s) Q"
  using assms by (auto simp: open_fd_def Let_def post_def bind_eq_Some_conv split: option.splits)

lemma post_add_link [faults]:
  assumes "since b f0 f"
    and "\<And>f'. since False f0 f' \<Longrightarrow> Q (Inl (-1), f')" "\<And>i f'. wf_inode i \<Longrightarrow> since b f0 f' \<Longrightarrow> Q (Inr i, f')"
  shows "post (add_link f n) Q"
proof (rule post_sum)
  show "post (add_link f n) (\<lambda>(r, f'). case r of Inl e \<Rightarrow> e = -1 \<and> since False f0 f' | Inr i \<Rightarrow> wf_inode i \<and> since b f0 f')"
    unfolding add_link_def Let_def using assms(1) by (auto elim!: faults intro: since_False)
qed (use assms(2,3) in auto)

lemma post_new_file [faults]:
  assumes "since b f0 f" "wf_inode d"
    and "\<And>e f'. since False f0 f' \<Longrightarrow> Q (Inl e, f')" "\<And>n f'. since b f0 f' \<Longrightarrow> Q (Inr n, f')"
  shows "post (new_file env m f d nm) Q"
proof (rule post_sum)
  show "post (new_file env m f d nm) (\<lambda>(r, f'). case r of Inl e \<Rightarrow> since False f0 f' | Inr n \<Rightarrow> since b f0 f')"
    unfolding new_file_def Let_def using assms(1,2) by (auto simp: wf_inode_def elim!: faults intro: since_False)
qed (use assms(3,4) in auto)

subsection \<open>Transfers of a request\<close>

definition got :: "bool \<Rightarrow> filesystem \<Rightarrow> 'a option \<times> filesystem \<Rightarrow> bool" where
  "got b f0 = (\<lambda>(r, f). since (b \<and> r \<noteq> None) f0 f)"

definition done_with :: "bool \<Rightarrow> filesystem \<Rightarrow> int \<times> filesystem \<Rightarrow> bool" where
  "done_with b f0 = (\<lambda>(r, f). since (b \<and> r = 0) f0 f)"

lemma outcome_simps:
  "got b f0 (None, f) \<longleftrightarrow> since False f0 f" "got b f0 (Some x, f) \<longleftrightarrow> since b f0 f"
  "done_with b f0 (0, f) \<longleftrightarrow> since b f0 f" "done_with b f0 (-1, f) \<longleftrightarrow> since False f0 f"
  by (simp_all add: got_def done_with_def)

lemma post_read_loop [faults]:
  assumes "since b f0 f" and "\<And>r f'. since (b \<and> r \<noteq> None) f0 f' \<Longrightarrow> Q (r, f')"
  shows "post (read_loop f i sp buf bs) Q"
proof (rule post_mono [where P = "got b f0"])
  show "post (read_loop f i sp buf bs) (got b f0)"
    using assms(1)
  proof (induction bs arbitrary: b f buf)
    case Nil
    then show ?case by (simp add: outcome_simps)
  next
    case (Cons n bs)
    have IH: "post m (\<lambda>x. post (read_loop f i sp x bs) (got b f0))" if "since b f0 f" for b m f
      using Cons.IH [OF that] by (simp add: postI)
    obtain a c where "slice sp n = (a, c)" by fastforce
    then show ?case using Cons.prems
      by (auto simp: outcome_simps Let_def elim!: faults intro!: IH Cons.IH intro: since_False split: option.splits)
  qed
qed (use assms(2) in \<open>auto simp: got_def\<close>)

lemma post_peek: "(\<And>v. length v = n \<Longrightarrow> Q v) \<Longrightarrow> post (peek buf k n) Q"
  by (auto simp: peek_def length_get_bytes nat_add_distrib)

lemma span_len: "unat (last_block_len (request_span sz off)) \<le> 512"
  by (simp add: request_span_def Let_def unat_mod less_imp_le)

lemma slice_len: "unat (last_block_len sp) \<le> 512 \<Longrightarrow> slice sp n = (a, c) \<Longrightarrow> unat c \<le> 512"
  by (auto simp: slice_def split: if_splits)

lemma post_write_loop [faults]:
  assumes "since b f0 f" "wf_inode i" "length tmp = BLOCK_SIZE" "unat (last_block_len sp) \<le> 512"
    and "\<And>r f'. since (b \<and> r = 0) f0 f' \<Longrightarrow> Q (r, f')"
  shows "post (write_loop f i sp buf tmp bs) Q"
proof (rule post_mono [where P = "done_with b f0"])
  show "post (write_loop f i sp buf tmp bs) (done_with b f0)"
    using assms(1-3)
  proof (induction bs arbitrary: b f i tmp)
    case Nil
    then show ?case by (simp add: outcome_simps)
  next
    case (Cons n bs)
    have put_out: "post (block_to_write f i n) (\<lambda>x. post (case x of (r, i', f) \<Rightarrow>
        (case r of None \<Rightarrow> Some (-1, f)
         | Some m \<Rightarrow> do { v \<leftarrow> src; let (r, f) = put_out_block f m v in
             if r \<noteq> 0 then Some (-1, f) else write_loop f i' sp buf t bs })) (done_with b f0))"
      if "since b f0 f" "length t = BLOCK_SIZE" "post src (\<lambda>v. length v = BLOCK_SIZE)" for b f t src
      using that Cons.IH Cons.prems(2)
      by (auto elim!: post_block_to_write post_put_out_block post_mono simp: outcome_simps Let_def split: option.split intro: since_False)
    obtain a c where sl: "slice sp n = (a, c)" by fastforce
    show ?case
    proof (cases "a = 0 \<and> c \<noteq> 512")
      case True
      have put: "length (put_bytes 0 v block) = BLOCK_SIZE" if "length v = unat c" "length block = BLOCK_SIZE" for v block
        using that slice_len [OF assms(4) sl] by (simp add: length_put_bytes)
      show ?thesis using sl True Cons.prems
        by (auto simp: outcome_simps elim!: post_block_of_file intro!: post_peek put_out put intro: since_False split: option.splits)
    next
      case False
      then show ?thesis using sl Cons.prems by (auto intro!: post_peek put_out)
    qed
  qed
qed (use assms(5) in \<open>auto simp: done_with_def\<close>)

subsection \<open>Loops over a directory\<close>

definition walked :: "filesystem \<Rightarrow> ((int \<times> bool) + sfs_fs_inode) \<times> filesystem \<Rightarrow> bool" where
  "walked f0 = (\<lambda>(r, f). since False f0 f)"

lemma opendir_walk_post:
  assumes "opendir_walk env n f it tok path = Some x" "since False f0 f" "iterating it"
  shows "walked f0 x"
  using assms
proof (induction env n f it tok path x rule: opendir_walk.raw_induct [rotated, consumes 1])
  case (1 walk env n f it tok path x)
  have IH: "post (walk env n f it tok path) (walked f0)" if "since False f0 f" "iterating it" for env n f it tok path
    using 1(1) that by (intro postI) blast
  have stop: "walked f0 (r, f)" if "since False f0 f" for r f using that by (simp add: walked_def)
  have enter: "post (sfs_dir_iterate m d) (\<lambda>it. post it (\<lambda>it. post (walk env n f it tok path) (walked f0)))"
    if "wf_inode d" "since False f0 f" for env m d n f tok path
    using that by (auto simp: sfs_dir_iterate_def iterating_def intro!: IH split: option.splits)
  show ?case
    by (rule postD [OF _ 1(2)], insert 1(3,4))
      (auto elim!: post_iternext post_add_link intro!: enter stop IH split: option.splits, rule postI,
        auto elim!: post_add_link intro!: enter stop IH split: option.splits prod.splits)
qed

lemma readdir_loop_post:
  assumes "readdir_loop filler buf f it = Some x" "since False f0 f" "iterating it"
  shows "(\<lambda>(r, f). since False f0 f) x"
  using assms
proof (induction filler buf f it x rule: readdir_loop.raw_induct [rotated, consumes 1])
  case (1 loop filler buf f it x)
  have IH: "since False f0 (snd y)" if "loop filler buf f it = Some y" "since False f0 f" "iterating it" for filler buf f it y
    using 1(1) [OF that] by (simp add: case_prod_beta)
  show ?case
    by (rule postD [OF _ 1(2)])
      (use 1(3,4) in \<open>auto elim!: post_iternext split: option.splits prod.splits, auto intro!: postI dest!: IH\<close>)
qed

subsection \<open>Handlers\<close>

text \<open>After a handler: the lock is free, and \<open>b\<close> says what \<^const>\<open>since\<close> says of the transfers.\<close>

definition after :: "('r \<Rightarrow> bool) \<Rightarrow> filesystem \<Rightarrow> 'r \<times> sfs_state \<Rightarrow> bool" where
  "after ok f0 = (\<lambda>(r, s). \<not> st_locked s \<and> progressed (ok r) f0 s)"

lemma post_handle_slot: "(\<And>k p. Q (k, p)) \<Longrightarrow> post (handle_slot fi s) Q"
  by (auto simp: post_def)

lemma since_True: "since True f0 f \<Longrightarrow> since b f0 f"
  by (erule since_weaken) simp

lemma begins:
  assumes "st_fs s = Some f" "shape f"
  shows "since True f f" "progressed b f s"
  using since_start [OF assms(2)] since_True assms(1) by (auto simp: progressed_def)

lemma iterating_wf: "iterating it \<Longrightarrow> wf_inode (it_inode it)"
  by (simp add: iterating_def)

lemmas handler_simps = after_def since_True iterating_wf span_len case_case_prod

lemma sfs_getattr_post:
  assumes "st_fs s = Some f" "shape f"
  shows "post (sfs_getattr env path s) (after (\<lambda>(r, st). 0 \<le> r) f)"
  unfolding sfs_getattr_def
  using assms begins [OF assms(1,2)]
  by (auto simp: handler_simps Let_def intro!: post_critical post_handle_slot post_open_fd elim!: faults split: option.splits)

lemma sfs_create_post:
  assumes "st_fs s = Some f" "shape f"
  shows "post (sfs_create env path m fi s) (after (\<lambda>r. False) f)"
  unfolding sfs_create_def
  using assms begins [OF assms(1,2)]
  by (auto simp: handler_simps Let_def intro!: post_critical post_handle_slot post_open_fd elim!: faults split: option.splits)

lemma sfs_unlink_post:
  assumes "st_fs s = Some f" "shape f"
  shows "post (sfs_unlink env path s) (after (\<lambda>r. 0 \<le> r) f)"
  unfolding sfs_unlink_def
  using assms begins [OF assms(1,2)]
  by (auto simp: handler_simps Let_def intro!: post_critical post_handle_slot post_open_fd elim!: faults split: option.splits)

lemma sfs_open_post:
  assumes "st_fs s = Some f" "shape f"
  shows "post (sfs_open env path fi s) (after (\<lambda>(r, fi). 0 \<le> r) f)"
  unfolding sfs_open_def
  using assms begins [OF assms(1,2)]
  by (auto simp: handler_simps Let_def intro!: post_critical post_handle_slot post_open_fd elim!: faults split: option.splits)

lemma sfs_release_post:
  assumes "st_fs s = Some f" "shape f"
  shows "post (sfs_release fi s) (after (\<lambda>r. 0 \<le> r) f)"
  unfolding sfs_release_def
  using assms begins [OF assms(1,2)]
  by (auto simp: handler_simps Let_def intro!: post_critical post_handle_slot post_open_fd elim!: faults split: option.splits)

lemma sfs_releasedir_post:
  assumes "st_fs s = Some f" "shape f"
  shows "post (sfs_releasedir fi s) (after (\<lambda>r. 0 \<le> r) f)"
  unfolding sfs_releasedir_def
  using assms begins [OF assms(1,2)]
  by (auto simp: handler_simps Let_def intro!: post_critical post_handle_slot post_open_fd elim!: faults split: option.splits)

lemma sfs_read_post:
  assumes "st_fs s = Some f" "shape f"
  shows "post (sfs_read buf sz off fi s) (after (\<lambda>(r, bs). 0 \<le> r) f)"
  unfolding sfs_read_def
  using assms begins [OF assms(1,2)]
  by (auto simp: handler_simps Let_def intro!: post_critical post_handle_slot post_open_fd elim!: faults split: option.splits)

lemma sfs_write_post:
  assumes "st_fs s = Some f" "shape f" "length (stack_block env) = BLOCK_SIZE"
  shows "post (sfs_write env buf sz off fi s) (after (\<lambda>r. 0 \<le> r) f)"
  unfolding sfs_write_def
  using assms begins [OF assms(1,2)]
  by (auto simp: handler_simps Let_def intro!: post_critical post_handle_slot post_open_fd elim!: faults split: option.splits)

lemma post_iterate:
  assumes "wf_inode d" and "\<And>it. iterating it \<Longrightarrow> Q it"
  shows "post (sfs_dir_iterate m d) (\<lambda>it. post it Q)"
  using assms by (auto simp: sfs_dir_iterate_def iterating_def split: option.splits)

lemma post_readdir_loop:
  assumes "since True f0 f" "iterating it" "\<And>r f'. since False f0 f' \<Longrightarrow> Q (r, f')"
  shows "post (readdir_loop filler buf f it) Q"
  using readdir_loop_post [of filler buf f it _ f0] since_True [OF assms(1)] assms(2,3) by (auto intro!: postI)

lemma post_opendir_walk:
  assumes "since True f0 f" "iterating it" "\<And>r f'. since False f0 f' \<Longrightarrow> Q (r, f')"
  shows "post (opendir_walk env n f it tok p) Q"
  using opendir_walk_post [of env n f it tok p _ f0] since_True [OF assms(1)] assms(2,3) by (auto simp: walked_def intro!: postI)

lemma sfs_readdir_post:
  assumes "st_fs s = Some f" "shape f"
  shows "post (sfs_readdir env filler path buf s) (after (\<lambda>r. False) f)"
  unfolding sfs_readdir_def sfs_dir_root_def
  using assms begins [OF assms(1,2)]
  by (auto simp: handler_simps Let_def intro!: post_critical post_iterate post_readdir_loop elim!: faults
      split: option.splits prod.splits)

lemma sfs_opendir_post:
  assumes "st_fs s = Some f" "shape f"
  shows "post (sfs_opendir env path fi s) (\<lambda>(r, s'). progressed False f s')"
  unfolding sfs_opendir_def sfs_dir_root_def
  using assms begins [OF assms(1,2)]
  by (auto simp: since_True Let_def intro!: post_iterate post_opendir_walk post_open_fd elim!: faults
      split: option.splits prod.splits sum.splits)

end
