(* ===== verification/Fault_Mount.thy ===== *)
theory Fault_Mount
  imports Fault_Handlers
begin

text \<open>
  Mounting and formatting under any behaviour of the disk, and the service from mount to unmount.
\<close>

unbundle bit_operations_syntax

subsection \<open>Formatting\<close>

lemma format_inode_went:
  assumes "format_inode usr grp i j (t, n, d) = (t', n', d')" "length t = BLOCK_SIZE" "j < 3" "went b d0 d"
  shows "length t' = BLOCK_SIZE" "went b d0 d'"
proof -
  have "wf_inode (empty_inode m)" for m by (simp add: empty_inode_def wf_inode_def)
  then show "length t' = BLOCK_SIZE" "went b d0 d'"
    using assms by (auto simp: format_inode_def time_def went_def wf_os_def split: if_splits)
qed

lemma format_block_went:
  assumes "fold (format_inode usr grp i) js (t, n, d) = (t', n', d')" "length t = BLOCK_SIZE" "\<forall>j\<in>set js. j < 3" "went b d0 d"
  shows "length t' = BLOCK_SIZE \<and> went b d0 d'"
  using assms
proof (induction js arbitrary: t n d)
  case (Cons j js)
  obtain t1 n1 d1 where 1: "format_inode usr grp i j (t, n, d) = (t1, n1, d1)" by (cases "format_inode usr grp i j (t, n, d)")
  then show ?case using Cons.IH [of t1 n1 d1] Cons.prems format_inode_went [OF 1, of b d0] by simp
qed simp

lemma format_table_went:
  assumes "format_table usr grp is (t, n, d) = (r, t', d')" "length t = BLOCK_SIZE" "went b d0 d"
  shows "length t' = BLOCK_SIZE \<and> went (b \<and> r = 0) d0 d'"
  using assms
proof (induction "is" arbitrary: b t n d)
  case (Cons i "is")
  obtain t1 n1 d1 where 1: "fold (format_inode usr grp i) [0, 1, 2] (t, n, d) = (t1, n1, d1)"
    by (cases "fold (format_inode usr grp i) [0, 1, 2] (t, n, d)")
  have 2: "length t1 = BLOCK_SIZE" "went b d0 d1" using format_block_went [OF 1 Cons.prems(2) _ Cons.prems(3)] by auto
  obtain k d2 where 3: "block_write d1 (of_nat i) t1 = (k, d2)" by (cases "block_write d1 (of_nat i) t1")
  have 4: "went (b \<and> k = 512) d0 d2" by (rule block_write_went [OF 3 2])
  show ?case
  proof (cases "k = 512")
    case True
    then show ?thesis using Cons.IH [of t1 n1 d2 b] Cons.prems(1) 1 2 3 4 by (simp add: Let_def)
  next
    case False
    then show ?thesis using Cons.prems(1) 1 2 3 4 by (auto simp: Let_def elim: went_weaken)
  qed
qed (auto elim: went_weaken)

lemma format_index_went:
  assumes "format_index ff is cur pos t d = Some (r, cur', d')" "length t = BLOCK_SIZE" "pos \<le> 64" "went b d0 d"
  shows "went (b \<and> r = 0) d0 d'"
  using assms
proof (induction "is" arbitrary: b cur pos t d)
  case (Cons i "is")
  define c where "c = (if pos = 64 then cur + 1 else cur)"
  define q where "q = (if pos = 64 \<or> pos = 0 then 1 else pos)"
  define t1 where "t1 = (if pos = 64 \<or> pos = 0 then put_u64 0 (if c < ff - 1 then c + 1 else 0) t else t)"
  define t2 where "t2 = put_u64 q i t1"
  have q: "q < 64" using Cons.prems(3) by (simp add: q_def)
  have l: "length t2 = BLOCK_SIZE" using Cons.prems(2) q by (simp add: t2_def t1_def)
  obtain k d2 where w: "block_write d c t2 = (k, d2)" by (cases "block_write d c t2")
  have 1: "went (b \<and> k = 512) d0 d2" by (rule block_write_went [OF w l Cons.prems(4)])
  have e: "(if q + 1 = 64 then if k \<noteq> 512 then Some (-1, c, d2) else format_index ff is c (q + 1) t2 d2
      else format_index ff is c (q + 1) t2 d) = Some (r, cur', d')"
    using Cons.prems(1) w unfolding t2_def t1_def q_def c_def by (auto simp: Let_def split: if_splits)
  show ?case using e Cons.IH [of c "q + 1" t2 d2 b] Cons.IH [of c "q + 1" t2 d b] Cons.prems(4) q l 1
    by (auto elim: went_weaken split: if_splits)
qed (auto elim: went_weaken)

lemma write_superblock_went:
  assumes "write_superblock d sb = (r, d')" "length (signature sb) = 16" "went b d0 d"
  shows "went (b \<and> r = 0) d0 d'"
proof -
  obtain k d2 where w: "block_write d 0 (put_bytes 0 (encode_superblock sb) zero_block) = (k, d2)" by (meson surj_pair)
  have "length (put_bytes 0 (encode_superblock sb) zero_block) = BLOCK_SIZE"
    using assms(2) by (simp add: length_put_bytes length_encode_superblock)
  from block_write_went [OF w this assms(3)] show ?thesis
    using assms(1) w by (auto simp: write_superblock_def Let_def elim: went_weaken split: if_splits)
qed

lemma format_fs_went:
  assumes "format_fs d fok usr grp = Some (Some sb, d')" "went True d0 d"
  shows "length (signature sb) = 16 \<and> went True d0 d'"
proof -
  obtain t d1 where t: "time d = (t, d1)" by (cases "time d")
  let ?sb = "format_superblock (of_nat (file_size d div BLOCK_SIZE)) t"
  have w1: "went True d0 d1" using assms(2) t by (auto simp: time_def went_def wf_os_def)
  obtain r2 tb d2 where 2: "format_table usr grp [1..<unat (inode_table_blocks ?sb) + 1] (zero_block, 3, d1) = (r2, tb, d2)"
    by (metis prod_cases3)
  have w2: "length tb = BLOCK_SIZE \<and> went (True \<and> r2 = 0) d0 d2"
    by (rule format_table_went [OF 2 _ w1]) simp
  have sig: "length (signature ?sb) = 16" by (simp add: format_superblock_def Let_def length_signature)
  obtain r3 cur d3 where 3: "r2 = 0" "format_index (format_first_free ?sb) (map of_nat [unat (format_first_free ?sb)..<unat (blocks ?sb)])
      (free_blocks_head ?sb) 0 tb d2 = Some (r3, cur, d3)" "r3 = 0" "write_superblock d3 ?sb = (0, d')" "sb = ?sb"
    using assms(1) t 2 by (auto simp: format_fs_def Let_def bind_eq_Some_conv split: if_splits prod.splits)
  have "went (True \<and> r3 = 0) d0 d3" by (rule format_index_went [OF 3(2)]) (use w2 3(1) in simp_all)
  then show ?thesis using write_superblock_went [OF 3(4) sig, of True d0] 3(3,5) sig by simp
qed

subsection \<open>Mounting\<close>

lemma open_disk_went:
  assumes "sfs_fs_open_disk d mf mem ok fok usr grp = Some (Some f, d')" "wf_os d" "\<And>raw. mem = Some raw \<Longrightarrow> length (data raw) = BLOCK_SIZE"
  shows "shape f \<and> disk f = d' \<and> went True d d'"
proof -
  have "went True d d" using assms(2) by (auto simp: went_def)
  moreover obtain r bs d1 where 1: "block_read d 0 zero_block = (r, bs, d1)" by (metis prod_cases3)
  ultimately have w1: "went (True \<and> r = 512) d d1" using block_read_went(2) [OF 1, of True d] by simp
  show ?thesis
  proof (cases "signature (decode_superblock bs) \<noteq> SFS_FILE_TYPE_SIGNATURE")
    case True
    then obtain raw sb where 2: "mem = Some raw" "r = 512" "format_fs d1 fok usr grp = Some (Some sb, d')"
      "f = \<lparr>disk = d', superblock = sb, inode_cache = raw\<lparr>cache_block := 0\<rparr>\<rparr>"
      using assms(1) 1 by (auto simp: sfs_fs_open_disk_def bind_eq_Some_conv split: option.splits if_splits)
    then show ?thesis using format_fs_went [OF 2(3), of d] w1 assms(3) [OF 2(1)] by (auto simp: shape_def went_def)
  next
    case False
    then obtain raw where 2: "mem = Some raw" "r = 512" "d' = d1"
      "f = \<lparr>disk = d', superblock = decode_superblock bs, inode_cache = raw\<lparr>cache_block := 0\<rparr>\<rparr>"
      using assms(1) 1 by (auto simp: sfs_fs_open_disk_def bind_eq_Some_conv split: option.splits if_splits)
    then show ?thesis using w1 assms(3) [OF 2(1)] False by (auto simp: shape_def went_def length_signature)
  qed
qed

lemma sfs_init_shape:
  assumes "sfs_init mp slab addr mem ok fok usr grp s0 = Some (False, s)" "wf_os (st_disk s0)"
    "\<And>raw. mem = Some raw \<Longrightarrow> length (data raw) = BLOCK_SIZE"
  shows "\<exists>f. st_fs s = Some f \<and> shape f \<and> went True (st_disk s0) (disk f)"
proof -
  obtain f d where "sfs_fs_open_disk (st_disk s0) True mem ok fok usr grp = Some (Some f, d)" "st_fs s = Some f"
    using assms(1) by (auto simp: sfs_init_def critical_def bind_eq_Some_conv split: option.splits if_splits)
  then show ?thesis using open_disk_went [OF _ assms(2,3)] by auto
qed

subsection \<open>Requests\<close>

fun reports_success :: "reply \<Rightarrow> bool" where
  "reports_success (Status r) \<longleftrightarrow> 0 \<le> r"
| "reports_success (Attributes r st) \<longleftrightarrow> 0 \<le> r"
| "reports_success (Handle r fi) \<longleftrightarrow> 0 \<le> r"
| "reports_success (Entries r es) \<longleftrightarrow> 0 \<le> r"
| "reports_success (Data r bs) \<longleftrightarrow> 0 \<le> r"

text \<open>The requests that read the directory to its end, where a failed read looks like the end.\<close>

fun reads_to_end :: "request \<Rightarrow> bool" where
  "reads_to_end (Create nm m fi) = True"
| "reads_to_end Readdir = True"
| "reads_to_end (Opendir fi) = True"
| "reads_to_end req = False"

lemma serve_since:
  assumes sv: "serve env req s = Some (rep, s')" and s: "st_fs s = Some f" "shape f" "length (stack_block env) = BLOCK_SIZE"
  shows "progressed (reports_success rep \<and> \<not> reads_to_end req) f s'"
  using sv by (cases req)
    (auto simp: after_def dest!: postD [OF sfs_getattr_post [OF s(1,2)]] postD [OF sfs_create_post [OF s(1,2)]]
      postD [OF sfs_open_post [OF s(1,2)]] postD [OF sfs_unlink_post [OF s(1,2)]] postD [OF sfs_release_post [OF s(1,2)]]
      postD [OF sfs_readdir_post [OF s(1,2)]] postD [OF sfs_releasedir_post [OF s(1,2)]]
      postD [OF sfs_read_post [OF s(1,2)]] postD [OF sfs_write_post [OF s]] postD [OF sfs_opendir_post [OF s(1,2)]])

text \<open>Any requests in any order from a mounted volume, whatever the disk does.\<close>

definition any_request :: "sfs_state \<Rightarrow> request \<times> reply \<Rightarrow> sfs_state \<Rightarrow> bool" where
  "any_request s l s' \<longleftrightarrow> (\<exists>env. length (stack_block env) = BLOCK_SIZE \<and> serve env (fst l) s = Some (snd l, s'))"

lemma since_trans:
  assumes "since False f0 f1" "since False f1 f2"
  shows "since False f0 f2"
  using assms by (auto simp: since_def same_geometry_def went_def)

lemma any_requests_since:
  assumes "trace any_request s es s'" "st_fs s = Some f" "shape f"
  shows "\<exists>f'. st_fs s' = Some f' \<and> since False f f'"
  using assms(1)
proof (induction rule: trace.induct)
  case trace_nil
  then show ?case using begins [OF assms(2,3)] by (simp add: progressed_def)
next
  case (trace_snoc es s1 l s2)
  then obtain f1 env where 1: "st_fs s1 = Some f1" "since False f f1" "length (stack_block env) = BLOCK_SIZE"
    "serve env (fst l) s1 = Some (snd l, s2)" by (auto simp: any_request_def)
  have "shape f1" using 1(2) by (simp add: since_def)
  from serve_since [OF 1(4,1) this 1(3)] obtain f2 b where "st_fs s2 = Some f2" "since b f1 f2"
    by (auto simp: progressed_def)
  then show ?case using since_trans [OF 1(2)] since_False by blast
qed

end
