(* ===== verification/Dead_Disk.thy ===== *)
theory Dead_Disk
  imports Fault_Mount Format_Ok
begin

text \<open>
  What the code makes of a disk that fails: a directory whose block cannot be read looks empty, and an
  inode whose block cannot be read is read as zeros by the next access, from the cache.
\<close>

unbundle bit_operations_syntax

text \<open>Every transfer from now on is an error.\<close>

definition dead :: "filesystem \<Rightarrow> filesystem" where
  "dead f = f\<lparr>disk := (disk f)\<lparr>io_plan := (\<lambda>n. Io_Error)\<rparr>\<rparr>"

lemma dead_read: "\<exists>out d'. block_read (disk (dead f)) n buf = (-1, out, d')"
  by (simp add: dead_def block_read_def pread_def Let_def transfer_def)

lemma dead_iternext:
  assumes "0 < dsize d" "block_pointers d ! 0 \<noteq> 0"
  shows "\<exists>f'. sfs_dir_iternext (dead f) \<lparr>it_inode = d, it_iblock = 0, it_entry = 0, cached_block = raw\<rparr> w =
    Some (None, \<lparr>it_inode = d, it_iblock = 0, it_entry = 0, cached_block = raw\<rparr>, f')"
proof -
  obtain out d' where r: "block_read (disk (dead f)) (block_pointers d ! 0) zero_block = (-1, out, d')" using dead_read by blast
  then obtain f' where "sfs_fs_inode_block_read (dead f) d 0 = (None, f')"
    using assms(2) by (cases "in_data_area (superblock (dead f)) (block_pointers d ! 0)") (simp_all add: block_read_unfold)
  moreover have "isize d \<noteq> 0" using assms(1) by (auto simp: dsize_def)
  ultimately show ?thesis by (subst sfs_dir_iternext.simps) (simp add: iter_load_def)
qed

lemma dead_root:
  assumes "mounted f" "cached f = 1"
  shows "sfs_dir_root (dead f) = Some (Some (root (abs_fs f)), dead f)"
proof -
  note md = mountedD [OF assms(1)]
  have "sfs_fs_read_inode f 1 = Some (Some (root (abs_fs f)), after_read f 1)" by (rule sfs_fs_read_inode_ok [OF md(3,8)])
  then have "get_inode 0 (data (inode_cache f)) = root (abs_fs f)" using assms(2) by (simp add: sfs_fs_read_inode_def)
  then show ?thesis using assms(2) by (simp add: sfs_dir_root_def sfs_fs_read_inode_def dead_def cached_def)
qed

text \<open>The directory looks empty, and every name in it absent.\<close>

lemma dead_directory:
  assumes m: "mounted f" "cached f = 1" and d: "0 < dsize (root (abs_fs f))" "block_pointers (root (abs_fs f)) ! 0 \<noteq> 0"
    and s: "st_fs s = Some (dead f)" "\<not> st_locked s" and env: "env_ok env" and nm: "proper_name nm"
  shows "\<exists>s1 s2. sfs_readdir env collect [SLASH] [] s = Some ((0, [([DOT], None), ([DOT, DOT], None)]), s1) \<and>
    sfs_getattr env (SLASH # nm) s = Some ((- ENOENT, None), s2)"
proof -
  obtain raw where raw: "iter_mem env 0 = Some raw" using env by (auto simp: env_ok_def)
  let ?it = "\<lparr>it_inode = root (abs_fs f), it_iblock = 0, it_entry = 0, cached_block = raw\<rparr>"
  have md: "mode (root (abs_fs f)) AND S_IFDIR \<noteq> 0" by (rule dir_okD(5) [OF mountedD(6) [OF m(1)]])
  note r = dead_root [OF m]
  obtain f1 where i1: "sfs_dir_iternext (dead f) ?it True = Some (None, ?it, f1)" using dead_iternext [OF d] by blast
  obtain f2 where i2: "sfs_dir_iternext (dead f) ?it False = Some (None, ?it, f2)" using dead_iternext [OF d] by blast
  have "readdir_loop collect buf (dead f) ?it = Some (buf, f1)" for buf by (subst readdir_loop.simps) (simp add: i1)
  then have "\<exists>s1. sfs_readdir env collect [SLASH] [] s = Some ((0, [([DOT], None), ([DOT, DOT], None)]), s1)"
    using s r raw md by (simp add: sfs_readdir_def critical_def sfs_dir_iterate_def collect_def)
  moreover have "find_name (dead f) ?it nm = Some (None, ?it, f2)" by (subst find_name.simps) (simp add: i2)
  then have "\<exists>s2. sfs_getattr env (SLASH # nm) s = Some ((- ENOENT, None), s2)"
    using s r raw md path_name_ok [of env nm] env nm
    by (simp add: sfs_getattr_def critical_def open_root_def scan_dir_def sfs_dir_iterate_def env_ok_def proper_name_def)
  ultimately show ?thesis by blast
qed

subsection \<open>The cache after a failed read\<close>

text \<open>The cache is marked as holding the block before the read, and the failed read has cleared it.\<close>

lemma decode_zeros_at: "p < 3 \<Longrightarrow> get_inode p zero_block = empty_inode 0"
  using decode_zeros by (simp add: get_inode_def get_bytes_def zero_block_def min_def)

lemma dead_fill:
  assumes "fs_ok fs" "valid_ino (superblock fs) n" "\<not> dirty (inode_cache fs)" "cached fs \<noteq> (n - 1) div 3 + 1"
  shows "\<exists>f1. sfs_fs_read_inode (dead fs) n = Some (None, f1) \<and>
    (\<forall>d. sfs_fs_read_inode (f1\<lparr>disk := d\<rparr>) n = Some (Some (empty_inode 0), f1\<lparr>disk := d\<rparr>))"
proof -
  note w = ino_block_word [OF fs_okD(3) [OF assms(1)] assms(2)]
  let ?b = "(n - 1) div 3 + 1"
  have b: "scast (ucast ?b :: u32) = ?b" by (rule scast_ucast_int) (use w in simp)
  let ?f = "(dead fs)\<lparr>inode_cache := (inode_cache fs)\<lparr>cache_block := ucast ?b, dirty := False\<rparr>\<rparr>"
  have f: "disk ?f = disk (dead fs)" "inode_cache (dead fs) = inode_cache fs" "cached (dead fs) = cached fs"
    by (simp_all add: dead_def cached_def)
  obtain d where r: "block_read (disk (dead fs)) ?b (data (inode_cache fs)) = (-1, zero_block, d)"
    by (simp add: dead_def block_read_def pread_def Let_def transfer_def)
  let ?f1 = "?f\<lparr>disk := d, inode_cache := (inode_cache ?f)\<lparr>data := zero_block\<rparr>\<rparr>"
  have "sfs_fs_read_inode (dead fs) n = Some (None, ?f1)"
    using assms(3,4) w(3) f r by (simp add: sfs_fs_read_inode_def cache_write_back_def cache_fill_def Let_def)
  moreover have "sfs_fs_read_inode (?f1\<lparr>disk := e\<rparr>) n =
      Some (Some (empty_inode 0), ?f1\<lparr>disk := e\<rparr>)" for e
    using w(2-4) b decode_zeros_at [of "ino_pos n"] by (simp add: sfs_fs_read_inode_def cached_def)
  ultimately show ?thesis by blast
qed

end
