(* ===== verification/Path_Tokens.thy ===== *)
theory Path_Tokens
  imports Cstring
begin

text \<open>
  The list of path components of \<^verbatim>\<open>src/src/sfs.c\<close>, \<^verbatim>\<open>createTokens\<close>, \<^verbatim>\<open>printTokens\<close> and
  \<^verbatim>\<open>freeTokens\<close>, which no other function calls. A token is a string constant or eight bytes of memory,
  \<^verbatim>\<open>malloc(sizeof(strlen(currentDir)))\<close>. The allocations succeed; without memory the code follows a null
  pointer. What \<^verbatim>\<open>createTokens\<close> prints on the way is left out.
\<close>

datatype token = Literal bytes | Malloced bytes

fun token_string :: "token \<Rightarrow> bytes" where
  "token_string (Literal s) = s"
| "token_string (Malloced s) = s"

subsection \<open>Making the list\<close>

text \<open>
  A new token at the end of the list, \<^verbatim>\<open>currToken->next\<close>, with a copy of the string in \<^verbatim>\<open>currentDir\<close>:
  undefined when there is no current token, when the string does not end in the array, and when it
  does not fit into eight bytes.
\<close>

definition add_token :: "bytes \<Rightarrow> token list \<Rightarrow> token list option" where
  "add_token currentDir ts =
     (if ts = [] \<or> 0 \<notin> set currentDir \<or> 8 \<le> length (cstr currentDir) then None
      else Some (ts @ [Malloced (cstr currentDir)]))"

text \<open>The loop over the path; \<open>start\<close> is \<^verbatim>\<open>i == 0\<close>.\<close>

fun token_loop :: "bytes \<Rightarrow> bool \<Rightarrow> token list \<Rightarrow> bytes \<Rightarrow> nat \<Rightarrow> (token list \<times> bytes) option" where
  "token_loop [] start ts currentDir currDirIndex = Some (ts, currentDir)"
| "token_loop (c # path) start ts currentDir currDirIndex =
     (if start \<and> c = SLASH then token_loop path False [Literal [SLASH]] currentDir currDirIndex
      else if 256 \<le> currDirIndex then None
      else if c = SLASH
      then do {
        ts \<leftarrow> add_token (currentDir[currDirIndex := 0]) ts;
        token_loop path False ts (replicate 256 0) 0
      }
      else token_loop path False ts (currentDir[currDirIndex := c]) (currDirIndex + 1))"

text \<open>\<open>stack\<close> is what the array \<^verbatim>\<open>currentDir\<close> holds before it is written.\<close>

definition createTokens :: "bytes \<Rightarrow> bytes \<Rightarrow> token list option" where
  "createTokens stack path = do {
     (ts, currentDir) \<leftarrow> token_loop path True [] stack 0;
     add_token currentDir ts
   }"

text \<open>What is printed: a line, and each token with an arrow behind it.\<close>

definition printTokens :: "token list \<Rightarrow> bytes" where
  "printTokens ts =
     [80, 114, 105, 110, 116, 105, 110, 103, 32, 84, 111, 107, 101, 110, 115, 10] @
     concat (map (\<lambda>t. token_string t @ [32, 45, 45, 62]) ts)"

text \<open>
  \<^verbatim>\<open>prev\<close> stays at the first token: the second round uses and frees it after it has been freed. Freeing
  the string constant is undefined as well.
\<close>

fun freeTokens :: "token list \<Rightarrow> unit option" where
  "freeTokens [] = Some ()"
| "freeTokens [Malloced s] = Some ()"
| "freeTokens [Literal s] = None"
| "freeTokens (t # t' # ts) = None"

subsection \<open>What the list is\<close>

lemma cstr_array:
  assumes "0 \<notin> set s" "length s < length a"
  shows "cstr (s @ 0 # drop (Suc (length s)) a) = s" "0 \<in> set (s @ 0 # drop (Suc (length s)) a)"
proof -
  have "takeWhile (\<lambda>b. b \<noteq> 0) s = s" using assms(1) by (auto simp: takeWhile_eq_all_conv)
  then show "cstr (s @ 0 # drop (Suc (length s)) a) = s" by (simp add: cstr_def takeWhile_tail)
  show "0 \<in> set (s @ 0 # drop (Suc (length s)) a)" by simp
qed

lemma token_loop_name:
  assumes "SLASH \<notin> set c" "i + length c \<le> 256" "length cur = 256"
  shows "token_loop (c @ path) False ts cur i = token_loop path False ts (take i cur @ c @ drop (i + length c) cur) (i + length c)"
  using assms
proof (induction c arbitrary: i cur)
  case Nil
  then show ?case by simp
next
  case (Cons x c)
  have "token_loop ((x # c) @ path) False ts cur i = token_loop (c @ path) False ts (cur[i := x]) (i + 1)"
    using Cons.prems by simp
  also have "\<dots> = token_loop path False ts (take (i + 1) (cur[i := x]) @ c @ drop (i + 1 + length c) (cur[i := x])) (i + 1 + length c)"
    by (rule Cons.IH) (use Cons.prems in simp_all)
  finally show ?case using Cons.prems by (simp add: take_Suc_conv_app_nth)
qed

lemma token_loop_names:
  assumes "\<forall>c\<in>set (cs @ [l]). SLASH \<notin> set c \<and> 0 \<notin> set c \<and> length c < 8" "ts \<noteq> []" "length cur = 256" "cs = [] \<longrightarrow> cur = replicate 256 0"
  shows "\<exists>ts' cur'. token_loop (concat (map (\<lambda>c. c @ [SLASH]) cs) @ l) False ts cur 0 = Some (ts', cur') \<and>
    add_token cur' ts' = Some (ts @ map Malloced (cs @ [l]))"
  using assms
proof (induction cs arbitrary: ts cur)
  case Nil
  have l: "SLASH \<notin> set l" "0 \<notin> set l" "length l < 8" using Nil.prems(1) by simp_all
  have d: "drop (length l) (replicate 256 (0 :: u8)) = 0 # drop (Suc (length l)) (replicate 256 0)"
    using l(3) Suc_diff_le [of "length l" 255] by simp
  note ca = cstr_array [OF l(2), of "replicate 256 0"]
  have "token_loop l False ts cur 0 = Some (ts, l @ drop (length l) cur)"
    using token_loop_name [OF l(1), of 0 cur "[]" ts] l(3) Nil.prems(3) by simp
  moreover have "add_token (l @ drop (length l) cur) ts = Some (ts @ [Malloced l])"
    using Nil.prems(2,4) l(3) ca unfolding d [symmetric] by (simp add: add_token_def d)
  ultimately show ?case by simp
next
  case (Cons c cs)
  have c: "SLASH \<notin> set c" "0 \<notin> set c" "length c < 8" using Cons.prems(1) by simp_all
  let ?rest = "concat (map (\<lambda>c. c @ [SLASH]) cs) @ l"
  let ?cur = "c @ 0 # drop (Suc (length c)) cur"
  have u: "(c @ drop (length c) cur)[length c := 0] = ?cur"
    using c(3) Cons.prems(3) by (simp add: list_update_append Cons_nth_drop_Suc [symmetric])
  have "token_loop (c @ SLASH # ?rest) False ts cur 0 = token_loop (SLASH # ?rest) False ts (c @ drop (length c) cur) (length c)"
    using token_loop_name [OF c(1), of 0 cur "SLASH # ?rest" ts] c(3) Cons.prems(3) by simp
  also have "\<dots> = do { ts \<leftarrow> add_token ?cur ts; token_loop ?rest False ts (replicate 256 0) 0 }"
    using c(3) u by simp
  also have "add_token ?cur ts = Some (ts @ [Malloced c])"
    using cstr_array [OF c(2), of cur] c(3) Cons.prems(2,3) by (simp add: add_token_def)
  finally show ?case using Cons.IH [of "ts @ [Malloced c]" "replicate 256 0"] Cons.prems(1) by simp
qed

text \<open>
  A path of two or more short names is split into the slash and its names; the list cannot be
  freed.
\<close>

lemma createTokens_names:
  assumes "cs \<noteq> []" "\<forall>c\<in>set (cs @ [l]). SLASH \<notin> set c \<and> 0 \<notin> set c \<and> length c < 8" "length stack = 256"
  shows "createTokens stack (SLASH # concat (map (\<lambda>c. c @ [SLASH]) cs) @ l) = Some (Literal [SLASH] # map Malloced (cs @ [l]))"
  using token_loop_names [OF assms(2) _ assms(3), of "[Literal [SLASH]]"] assms(1) by (auto simp: createTokens_def)

text \<open>The only name of a path is followed by what the stack holds.\<close>

lemma createTokens_one:
  assumes "SLASH \<notin> set l" "length l \<le> 256" "length stack = 256"
  shows "createTokens stack (SLASH # l) = add_token (l @ drop (length l) stack) [Literal [SLASH]]"
  using token_loop_name [OF assms(1), of 0 stack "[]"] assms(2,3) by (simp add: createTokens_def)

lemma add_token_frees: "add_token cur ts = Some ts' \<Longrightarrow> freeTokens ts' = None"
  by (cases ts; cases "tl ts") (auto simp: add_token_def split: if_splits)

lemma createTokens_frees: "createTokens stack path = Some ts \<Longrightarrow> freeTokens ts = None"
  by (auto simp: createTokens_def bind_eq_Some_conv dest: add_token_frees)

end
