(* ===== verification/Process_Start.thy ===== *)
theory Process_Start
  imports Cstring
begin

text \<open>
  The start of the process, \<^verbatim>\<open>main\<close> and \<^verbatim>\<open>sfs_usage\<close> of \<^verbatim>\<open>src/src/sfs.c\<close> and \<^verbatim>\<open>log_open\<close> of \<^verbatim>\<open>src/src/log.c\<close>:
  the checks on the command line, the arguments that are handed on, and the disk file that is opened.
  The system calls are parameters, and so is \<^verbatim>\<open>fuse_main\<close>, which gets the arguments and the
  descriptor of the disk file and gives the status to return.
\<close>

record start_env =
  sfs_data_mem :: bool
  logfile_opens :: bool
  mutex_init :: int
  open_disk :: "bytes \<Rightarrow> int"
  fuse_context :: bool
  fuse_main :: "bytes list \<Rightarrow> int \<Rightarrow> int"

datatype outcome = Exited int | Served "bytes list" bytes int int

abbreviation EXIT_SUCCESS :: int where "EXIT_SUCCESS \<equiv> 0"
abbreviation EXIT_FAILURE :: int where "EXIT_FAILURE \<equiv> 1"
abbreviation DASH :: u8 where "DASH \<equiv> 45"

definition is_option :: "bytes \<Rightarrow> bool" where
  "is_option arg \<longleftrightarrow> take 1 arg = [DASH]"

definition sfs_usage :: outcome where
  "sfs_usage = Exited EXIT_SUCCESS"

definition log_open :: "start_env \<Rightarrow> outcome option" where
  "log_open env = (if logfile_opens env then None else Some (Exited EXIT_FAILURE))"

text \<open>
  The comparison of the log file, a pointer, with 0 is never true. Without the disk file the message is
  logged through the context of FUSE, which is followed as a pointer before there is one.
\<close>

definition main :: "start_env \<Rightarrow> bytes list \<Rightarrow> outcome option" where
  "main env argv =
     (let argc = length argv
      in if argc < 3 \<or> is_option (argv ! (argc - 2)) \<or> is_option (argv ! (argc - 1)) then Some sfs_usage
         else if \<not> sfs_data_mem env then Some (Exited EXIT_FAILURE)
         else let diskfile = argv ! (argc - 2);
                  argv = argv[argc - 2 := argv ! (argc - 1)];
                  argv = take (argc - 1) argv
              in case log_open env of
                   Some e \<Rightarrow> Some e
                 | None \<Rightarrow>
                     if mutex_init env \<noteq> 0 then Some (Exited EXIT_FAILURE)
                     else if open_disk env diskfile < 0
                     then (if fuse_context env then Some (Exited EXIT_FAILURE) else None)
                     else Some (Served argv diskfile (open_disk env diskfile) (fuse_main env argv (open_disk env diskfile))))"

text \<open>The disk file is the argument before the last; FUSE gets the others.\<close>

lemma main_serves:
  assumes "\<not> is_option disk" "\<not> is_option mnt" "sfs_data_mem env" "logfile_opens env" "mutex_init env = 0" "0 \<le> open_disk env disk"
  shows "main env (prog # opts @ [disk, mnt]) =
    Some (Served (prog # opts @ [mnt]) disk (open_disk env disk) (fuse_main env (prog # opts @ [mnt]) (open_disk env disk)))"
  using assms by (simp add: main_def Let_def nth_append log_open_def list_update_append)

text \<open>Whatever is wrong with the command line is answered with the status of success.\<close>

lemma main_usage:
  assumes "length argv < 3 \<or> is_option (last argv) \<or> is_option (last (butlast argv))"
  shows "main env argv = Some (Exited EXIT_SUCCESS)"
proof (cases "length argv < 3")
  case False
  then have "argv \<noteq> []" "butlast argv \<noteq> []" by (auto simp: butlast_conv_take)
  then have "last argv = argv ! (length argv - 1)" "last (butlast argv) = argv ! (length argv - 2)"
    using False by (simp_all add: last_conv_nth nth_butlast numeral_2_eq_2)
  then show ?thesis using assms False by (auto simp: main_def Let_def sfs_usage_def)
qed (simp add: main_def sfs_usage_def Let_def)

lemma main_no_disk:
  assumes "\<not> is_option disk" "\<not> is_option mnt" "sfs_data_mem env" "logfile_opens env" "mutex_init env = 0"
    "open_disk env disk < 0" "\<not> fuse_context env"
  shows "main env (prog # opts @ [disk, mnt]) = None"
  using assms by (simp add: main_def Let_def nth_append log_open_def list_update_append)

end
