(* ===== verification/Printf.thy ===== *)
theory Printf
  imports Prelude
begin

text \<open>
  The conversions of \<^verbatim>\<open>fprintf\<close> that \<^verbatim>\<open>src/src/log.c\<close> uses, as strings, and what reads them back: numbers in bases
  8, 10 and 16, signed numbers, and numbers filled up with zeros on the left.
\<close>

subsection \<open>Numbers\<close>

function digits :: "nat \<Rightarrow> nat \<Rightarrow> nat list" where
  "digits b n = (if b < 2 \<or> n < b then [n] else digits b (n div b) @ [n mod b])"
  by pat_completeness auto
termination by (relation "measure snd") auto

declare digits.simps [simp del]

definition digit_char :: "nat \<Rightarrow> char" where
  "digit_char d = char_of (if d < 10 then 48 + d else 87 + d)"

definition char_digit :: "char \<Rightarrow> nat" where
  "char_digit c = (let k = of_char c in if k < 58 then k - 48 else k - 87)"

definition number_text :: "nat \<Rightarrow> nat \<Rightarrow> string" where
  "number_text b n = map digit_char (digits b n)"

definition read_number :: "nat \<Rightarrow> string \<Rightarrow> nat" where
  "read_number b s = fold (\<lambda>c n. b * n + char_digit c) s 0"

lemma digits_less: "2 \<le> b \<Longrightarrow> d \<in> set (digits b n) \<Longrightarrow> d < b"
proof (induction b n rule: digits.induct)
  case (1 b n)
  show ?case
  proof (cases "b < 2 \<or> n < b")
    case True
    then show ?thesis using 1 by (simp add: digits.simps [of b n])
  next
    case False
    then have "d \<in> set (digits b (n div b)) \<or> d = n mod b" using "1.prems"(2) by (auto simp: digits.simps [of b n])
    then show ?thesis using "1.IH" [OF False "1.prems"(1)] "1.prems"(1) by auto
  qed
qed

lemma char_digit_char [simp]: "d < 16 \<Longrightarrow> char_digit (digit_char d) = d"
  by (auto simp: char_digit_def digit_char_def Let_def)

lemma read_number_text:
  assumes "2 \<le> b" "b \<le> 16"
  shows "read_number b (number_text b n) = n"
proof -
  have "fold (\<lambda>c n. b * n + char_digit c) (map digit_char (digits b n)) 0 = n"
    using assms
  proof (induction b n rule: digits.induct)
    case (1 b n)
    show ?case
    proof (cases "n < b")
      case True
      then show ?thesis using "1.prems" by (simp add: digits.simps [of b n])
    next
      case False
      have "n mod b < b" using "1.prems" by simp
      then have "n mod b < 16" using "1.prems" by linarith
      then show ?thesis using 1 False by (simp add: digits.simps [of b n] mult.commute)
    qed
  qed
  then show ?thesis by (simp add: read_number_def number_text_def)
qed

text \<open>\<^verbatim>\<open>%u\<close>, \<^verbatim>\<open>%lu\<close>; \<^verbatim>\<open>%o\<close>; \<^verbatim>\<open>%lx\<close>; \<^verbatim>\<open>%d\<close>; and a field width with leading zeros.\<close>

abbreviation unsigned_text :: "'a::len word \<Rightarrow> string" where
  "unsigned_text w \<equiv> number_text 10 (unat w)"

abbreviation octal_text :: "'a::len word \<Rightarrow> string" where
  "octal_text w \<equiv> number_text 8 (unat w)"

abbreviation hex_text :: "'a::len word \<Rightarrow> string" where
  "hex_text w \<equiv> number_text 16 (unat w)"

definition signed_text :: "'a::len word \<Rightarrow> string" where
  "signed_text w = (if sint w < 0 then CHR ''-'' # number_text 10 (nat (- sint w)) else number_text 10 (nat (sint w)))"

definition zero_fill :: "nat \<Rightarrow> string \<Rightarrow> string" where
  "zero_fill k s = replicate (k - length s) CHR ''0'' @ s"

definition read_signed :: "string \<Rightarrow> int" where
  "read_signed s = (if take 1 s = ''-'' then - int (read_number 10 (tl s)) else int (read_number 10 s))"

lemma read_zeros [simp]: "read_number b (replicate k CHR ''0'' @ s) = read_number b s"
  by (induction k) (simp_all add: read_number_def char_digit_def)

lemma read_zero_fill [simp]: "read_number b (zero_fill k s) = read_number b s"
  by (simp add: zero_fill_def)

lemma set_number_text: "2 \<le> b \<Longrightarrow> b \<le> 16 \<Longrightarrow> c \<in> set (number_text b n) \<Longrightarrow>
    48 \<le> (of_char c :: nat) \<and> (of_char c :: nat) \<noteq> 61"
  by (auto simp: number_text_def digit_char_def dest!: digits_less split: if_splits)

lemma read_signed_text [simp]: "read_signed (signed_text w) = sint w"
proof (cases "sint w < 0")
  case True
  then show ?thesis by (simp add: read_signed_def signed_text_def read_number_text)
next
  case False
  have "take 1 (number_text 10 n) \<noteq> ''-''" for n
  proof
    assume "take 1 (number_text 10 n) = ''-''"
    then have "CHR ''-'' \<in> set (number_text 10 n)" by (metis in_set_takeD list.set_intros(1))
    then show False using set_number_text [of 10 "CHR ''-''" n] by simp
  qed
  then show ?thesis using False by (simp add: read_signed_def signed_text_def read_number_text)
qed

subsection \<open>Lines\<close>

abbreviation NEWLINE :: char where "NEWLINE \<equiv> CHR 0x0A"

text \<open>The lines of a text of whole lines.\<close>

fun split_lines :: "string \<Rightarrow> string \<Rightarrow> string list" where
  "split_lines line [] = []"
| "split_lines line (c # s) = (if c = NEWLINE then rev line # split_lines [] s else split_lines (c # line) s)"

abbreviation lines_of :: "string \<Rightarrow> string list" where
  "lines_of s \<equiv> split_lines [] s"

lemma split_line: "NEWLINE \<notin> set l \<Longrightarrow> split_lines acc (l @ NEWLINE # s) = (rev acc @ l) # lines_of s"
  by (induction l arbitrary: acc) auto

lemma lines_of_concat:
  "\<forall>l\<in>set ls. NEWLINE \<notin> set l \<Longrightarrow> lines_of (concat (map (\<lambda>l. l @ [NEWLINE]) ls)) = ls"
  by (induction ls) (simp_all add: split_line)

end
