(* ===== verification/Logging.thy ===== *)
theory Logging
  imports Printf Sfs_Ops
begin

text \<open>
  The log, \<^verbatim>\<open>src/src/log.c\<close> and the macros of \<^verbatim>\<open>src/src/log.h\<close>. Its state is the text of the log file, which is
  found through the context of FUSE; \<open>None\<close> is an access through that context when there is none. \<^verbatim>\<open>fprintf\<close> appends;
  its result is not used by the code. A field is printed under the name the preprocessor leaves of it: those of the
  times of \<^verbatim>\<open>struct stat\<close> are macros of the C library, so they are parameters, as are the text of a pointer and the
  \<^verbatim>\<open>int\<close> that \<^verbatim>\<open>fprintf\<close> takes for a 64-bit argument under \<^verbatim>\<open>%d\<close>, which C leaves undefined. The structures of FUSE
  have the fields that \<^verbatim>\<open>log.c\<close> lists, those it does not print included.
\<close>

type_synonym log = "string option"

text \<open>\<^verbatim>\<open>LOG_CONTEXT_ARGS\<close>: file, line and function of the call.\<close>

type_synonym log_context = "string \<times> u32 \<times> string"

record fuse_context =
  ctx_fuse :: u64
  ctx_uid :: u32
  ctx_gid :: u32
  ctx_pid :: u32
  ctx_private_data :: u64
  ctx_logfile :: u64
  ctx_umask :: u32

record fuse_conn_info =
  proto_major :: u32
  proto_minor :: u32
  async_read :: u32
  max_write :: u32
  max_readahead :: u32
  capable :: u32
  want :: u32
  reserved :: "u32 list"

record logged_file_info = fuse_file_info +
  fi_fh_old :: u64
  fi_writepage :: u32
  fi_direct_io :: bool
  fi_keep_cache :: bool
  fi_flush :: bool
  fi_padding :: "29 word"
  fi_lock_owner :: u64

record logged_stat = stat +
  st_dev :: u64
  st_rdev :: u64
  st_blksize :: u64
  st_blocks :: u64

record log_names =
  pointer_text :: "u64 \<Rightarrow> string"
  atime_name :: string
  mtime_name :: string
  ctime_name :: string
  mismatched_int :: "u64 \<Rightarrow> u32"

subsection \<open>The macros\<close>

definition log_append :: "string \<Rightarrow> log \<Rightarrow> log" where
  "log_append text = map_option (\<lambda>t. t @ text)"

definition log_struct :: "string \<times> string \<Rightarrow> log \<Rightarrow> log" where
  "log_struct = (\<lambda>(field, value). log_append (''    '' @ field @ '' = '' @ value @ [NEWLINE]))"

definition log_msg_impl :: "string \<Rightarrow> log_context \<Rightarrow> log \<Rightarrow> log" where
  "log_msg_impl msg = (\<lambda>(file, line, function).
     log_append (file @ '':'' @ unsigned_text line @ '' ['' @ function @ ''] '' @ msg @ [NEWLINE]))"

abbreviation log_structs :: "(string \<times> string) list \<Rightarrow> log \<Rightarrow> log" where
  "log_structs \<equiv> fold log_struct"

abbreviation bit_text :: "bool \<Rightarrow> string" where
  "bit_text b \<equiv> number_text 10 (if b then 1 else 0)"

subsection \<open>The functions\<close>

definition log_fuse_context_impl :: "log_names \<Rightarrow> log_context \<Rightarrow> fuse_context \<Rightarrow> log \<Rightarrow> log" where
  "log_fuse_context_impl names at context log =
     log_structs
       [(''fuse'', pointer_text names (ctx_fuse context)),
        (''uid'', signed_text (ctx_uid context)),
        (''gid'', signed_text (ctx_gid context)),
        (''pid'', signed_text (ctx_pid context)),
        (''private_data'', pointer_text names (ctx_private_data context)),
        (''logfile'', pointer_text names (ctx_logfile context)),
        (''umask'', zero_fill 5 (octal_text (ctx_umask context)))]
       (log_msg_impl ''struct fuse_context:'' at log)"

definition log_conn_impl :: "log_context \<Rightarrow> fuse_conn_info \<Rightarrow> log \<Rightarrow> log" where
  "log_conn_impl at conn log =
     log_structs
       [(''proto_major'', unsigned_text (proto_major conn)),
        (''proto_minor'', unsigned_text (proto_minor conn)),
        (''async_read'', unsigned_text (async_read conn)),
        (''max_write'', unsigned_text (max_write conn)),
        (''max_readahead'', unsigned_text (max_readahead conn)),
        (''capable'', unsigned_text (capable conn)),
        (''want'', unsigned_text (want conn))]
       (log_msg_impl ''struct fuse_conn_info:'' at log)"

definition log_fi_impl :: "log_context \<Rightarrow> logged_file_info \<Rightarrow> log \<Rightarrow> log" where
  "log_fi_impl at fi log =
     log_structs
       [(''flags'', signed_text (fi_flags fi)),
        (''fh_old'', unsigned_text (fi_fh_old fi)),
        (''writepage'', signed_text (fi_writepage fi)),
        (''direct_io'', bit_text (fi_direct_io fi)),
        (''keep_cache'', bit_text (fi_keep_cache fi)),
        (''fh'', signed_text (fi_fh fi)),
        (''lock_owner'', unsigned_text (fi_lock_owner fi))]
       (log_msg_impl ''struct fuse_file_info:'' at log)"

text \<open>\<^verbatim>\<open>st_nlink\<close> has 64 bits and is printed as an \<^verbatim>\<open>int\<close>.\<close>

definition log_stat_impl :: "log_names \<Rightarrow> log_context \<Rightarrow> logged_stat \<Rightarrow> log \<Rightarrow> log" where
  "log_stat_impl names at si log =
     log_structs
       [(''st_dev'', signed_text (st_dev si)),
        (''st_ino'', signed_text (st_ino si)),
        (''st_mode'', ''0'' @ octal_text (st_mode si)),
        (''st_nlink'', signed_text (mismatched_int names (st_nlink si))),
        (''st_uid'', signed_text (st_uid si)),
        (''st_gid'', signed_text (st_gid si)),
        (''st_rdev'', signed_text (st_rdev si)),
        (''st_size'', signed_text (st_size si)),
        (''st_blksize'', signed_text (st_blksize si)),
        (''st_blocks'', signed_text (st_blocks si)),
        (atime_name names, ''0x'' @ zero_fill 8 (hex_text (st_atime si))),
        (mtime_name names, ''0x'' @ zero_fill 8 (hex_text (st_mtime si))),
        (ctime_name names, ''0x'' @ zero_fill 8 (hex_text (st_ctime si)))]
       (log_msg_impl ''struct stat:'' at log)"

definition block_pointer_line :: "sfs_fs_inode \<Rightarrow> nat \<Rightarrow> string \<times> string" where
  "block_pointer_line inode n = (''block_pointers['' @ number_text 10 n @ '']'', unsigned_text (block_pointers inode ! n))"

definition log_inode_impl :: "log_context \<Rightarrow> sfs_fs_inode \<Rightarrow> log \<Rightarrow> log" where
  "log_inode_impl at inode log =
     log_structs
       ([(''inumber'', unsigned_text (inumber inode)),
         (''mode'', octal_text (mode inode)),
         (''uid'', unsigned_text (uid inode)),
         (''gid'', unsigned_text (gid inode)),
         (''links'', unsigned_text (links inode)),
         (''access_time'', unsigned_text (access_time inode)),
         (''modified_time'', unsigned_text (modified_time inode)),
         (''change_time'', unsigned_text (change_time inode)),
         (''size'', unsigned_text (isize inode))] @
        map (block_pointer_line inode) [0..<14])
       (log_msg_impl ''si:'' at log)"

subsection \<open>Reading the log\<close>

definition line_value :: "string \<Rightarrow> string" where
  "line_value line = drop 2 (dropWhile (\<lambda>c. c \<noteq> CHR ''='') line)"

definition logged_values :: "string \<Rightarrow> string list" where
  "logged_values text = map line_value (tl (lines_of text))"

definition read_logged_inode :: "string \<Rightarrow> sfs_fs_inode" where
  "read_logged_inode text =
     (let v = logged_values text; n = \<lambda>k. read_number 10 (v ! k)
      in \<lparr>inumber = of_nat (n 0), mode = of_nat (read_number 8 (v ! 1)), uid = of_nat (n 2), gid = of_nat (n 3), links = of_nat (n 4),
           access_time = of_nat (n 5), modified_time = of_nat (n 6), change_time = of_nat (n 7), isize = of_nat (n 8),
           block_pointers = map (\<lambda>k. of_nat (n (9 + k))) [0..<14]\<rparr>)"

text \<open>The fields that are not printed are taken from another structure.\<close>

definition read_logged_conn :: "fuse_conn_info \<Rightarrow> string \<Rightarrow> fuse_conn_info" where
  "read_logged_conn conn0 text =
     (let v = logged_values text; n = \<lambda>k. of_nat (read_number 10 (v ! k))
      in \<lparr>proto_major = n 0, proto_minor = n 1, async_read = n 2, max_write = n 3, max_readahead = n 4, capable = n 5, want = n 6,
           reserved = reserved conn0\<rparr>)"

definition read_logged_fi :: "logged_file_info \<Rightarrow> string \<Rightarrow> logged_file_info" where
  "read_logged_fi fi0 text =
     (let v = logged_values text; n = \<lambda>k. of_nat (read_number 10 (v ! k)); z = \<lambda>k. read_signed (v ! k)
      in \<lparr>fi_flags = of_int (z 0), fi_fh = of_int (z 5), fi_fh_old = n 1, fi_writepage = of_int (z 2),
           fi_direct_io = (read_number 10 (v ! 3) = 1), fi_keep_cache = (read_number 10 (v ! 4) = 1),
           fi_flush = fi_flush fi0, fi_padding = fi_padding fi0, fi_lock_owner = n 6\<rparr>)"

definition field_line :: "string \<times> string \<Rightarrow> string" where
  "field_line = (\<lambda>(field, value). ''    '' @ field @ '' = '' @ value)"

definition head_line :: "string \<Rightarrow> log_context \<Rightarrow> string" where
  "head_line msg = (\<lambda>(file, line, function). file @ '':'' @ unsigned_text line @ '' ['' @ function @ ''] '' @ msg)"

definition record_text :: "string \<Rightarrow> log_context \<Rightarrow> (string \<times> string) list \<Rightarrow> string" where
  "record_text msg at fvs = concat (map (\<lambda>l. l @ [NEWLINE]) (head_line msg at # map field_line fvs))"

lemma log_structs_text:
  "log_structs fvs (Some t) = Some (t @ concat (map (\<lambda>l. l @ [NEWLINE]) (map field_line fvs)))"
  by (induction fvs arbitrary: t) (auto simp: log_struct_def log_append_def field_line_def)

lemma log_record: "log_structs fvs (log_msg_impl msg at (Some t)) = Some (t @ record_text msg at fvs)"
  by (simp add: log_msg_impl_def log_append_def log_structs_text record_text_def head_line_def split: prod.split)

text \<open>Names and values that keep to their line.\<close>

definition on_line :: "string \<times> string \<Rightarrow> bool" where
  "on_line = (\<lambda>(field, value). NEWLINE \<notin> set field \<and> CHR ''='' \<notin> set field \<and> NEWLINE \<notin> set value)"

definition context_on_line :: "log_context \<Rightarrow> bool" where
  "context_on_line = (\<lambda>(file, line, function). NEWLINE \<notin> set file \<and> NEWLINE \<notin> set function)"

lemma number_on_line [simp]: "2 \<le> b \<Longrightarrow> b \<le> 16 \<Longrightarrow> NEWLINE \<notin> set (number_text b n)"
  using set_number_text [of b NEWLINE n] by auto

lemma signed_on_line [simp]: "NEWLINE \<notin> set (signed_text w)"
  by (simp add: signed_text_def)

lemma line_value_field: "on_line fv \<Longrightarrow> line_value (field_line fv) = snd fv"
proof -
  assume "on_line fv"
  then obtain f v where fv: "fv = (f, v)" and f: "CHR ''='' \<notin> set f" by (auto simp: on_line_def)
  have "\<And>c. c \<in> set (''    '' @ f @ '' '') \<Longrightarrow> c \<noteq> CHR ''=''" using f by auto
  then have "dropWhile (\<lambda>c. c \<noteq> CHR ''='') ((''    '' @ f @ '' '') @ ''= '' @ v) = ''= '' @ v"
    by (subst dropWhile_append2) simp_all
  then show ?thesis by (simp add: line_value_def field_line_def fv)
qed

lemma logged_values_record:
  assumes "context_on_line at" "NEWLINE \<notin> set msg" "\<forall>fv\<in>set fvs. on_line fv"
  shows "logged_values (record_text msg at fvs) = map snd fvs"
proof -
  have "NEWLINE \<notin> set (head_line msg at)" using assms(1,2) by (auto simp: head_line_def context_on_line_def split: prod.splits)
  moreover have "\<forall>fv\<in>set fvs. NEWLINE \<notin> set (field_line fv)" using assms(3) by (auto simp: field_line_def on_line_def)
  ultimately have "lines_of (record_text msg at fvs) = head_line msg at # map field_line fvs"
    unfolding record_text_def by (intro lines_of_concat) auto
  then show ?thesis using assms(3) by (simp add: logged_values_def line_value_field)
qed

lemma log_conn_text:
  assumes "context_on_line at"
  shows "\<exists>text. log_conn_impl at conn (Some t) = Some (t @ text) \<and> read_logged_conn conn0 text = conn\<lparr>reserved := reserved conn0\<rparr>"
  unfolding log_conn_impl_def log_record
  by (simp add: read_logged_conn_def logged_values_record [OF assms] on_line_def read_number_text)

lemma log_fi_text:
  assumes "context_on_line at"
  shows "\<exists>text. log_fi_impl at fi (Some t) = Some (t @ text) \<and> read_logged_fi fi0 text = fi\<lparr>fi_flush := fi_flush fi0, fi_padding := fi_padding fi0\<rparr>"
  unfolding log_fi_impl_def log_record
  by (simp add: read_logged_fi_def logged_values_record [OF assms] on_line_def read_number_text)

text \<open>What can be read of the attributes of a file.\<close>

lemma log_stat_values:
  assumes "context_on_line at" "on_line (atime_name names, [])" "on_line (mtime_name names, [])" "on_line (ctime_name names, [])"
  shows "\<exists>text. log_stat_impl names at si (Some t) = Some (t @ text) \<and>
    (let v = logged_values text; z = \<lambda>k. read_signed (v ! k); x = \<lambda>k. read_number 16 (drop 2 (v ! k))
     in length v = 13 \<and> z 1 = sint (st_ino si) \<and> read_number 8 (v ! 2) = unat (st_mode si) \<and> z 3 = sint (mismatched_int names (st_nlink si)) \<and>
        z 4 = sint (st_uid si) \<and> z 5 = sint (st_gid si) \<and> z 7 = sint (st_size si) \<and>
        x 10 = unat (st_atime si) \<and> x 11 = unat (st_mtime si) \<and> x 12 = unat (st_ctime si))"
proof -
  have z: "NEWLINE \<notin> set (zero_fill 8 (hex_text w))" for w :: u64 by (simp add: zero_fill_def)
  have o: "read_number 8 (CHR ''0'' # s) = read_number 8 s" for s using read_zeros [of 8 1 s] by simp
  show ?thesis
    unfolding log_stat_impl_def log_record
    using assms(2-4) by (simp add: logged_values_record [OF assms(1)] on_line_def read_number_text z o)
qed

definition inode_lines :: "sfs_fs_inode \<Rightarrow> (string \<times> string) list" where
  "inode_lines i =
     [(''inumber'', unsigned_text (inumber i)), (''mode'', octal_text (mode i)), (''uid'', unsigned_text (uid i)),
      (''gid'', unsigned_text (gid i)), (''links'', unsigned_text (links i)), (''access_time'', unsigned_text (access_time i)),
      (''modified_time'', unsigned_text (modified_time i)), (''change_time'', unsigned_text (change_time i)),
      (''size'', unsigned_text (isize i))] @ map (block_pointer_line i) [0..<14]"

lemma inode_on_lines: "\<forall>fv\<in>set (inode_lines i). on_line fv"
  using set_number_text [of 10 "CHR ''=''"] by (fastforce simp: inode_lines_def block_pointer_line_def on_line_def)

lemma inode_line_values:
  "map snd (inode_lines i) =
     [unsigned_text (inumber i), octal_text (mode i), unsigned_text (uid i), unsigned_text (gid i), unsigned_text (links i),
      unsigned_text (access_time i), unsigned_text (modified_time i), unsigned_text (change_time i), unsigned_text (isize i)] @
     map (\<lambda>k. unsigned_text (block_pointers i ! k)) [0..<14]"
  by (simp add: inode_lines_def block_pointer_line_def)

lemma log_inode_text:
  assumes "context_on_line at" "wf_inode i"
  shows "\<exists>text. log_inode_impl at i (Some t) = Some (t @ text) \<and> read_logged_inode text = i"
proof -
  let ?text = "record_text ''si:'' at (inode_lines i)"
  have "map (\<lambda>k. of_nat (read_number 10 (map (\<lambda>k. unsigned_text (block_pointers i ! k)) [0..<14] ! k))) [0..<14] = block_pointers i"
    using assms(2) by (intro nth_equalityI) (simp_all add: read_number_text del: upt_Suc)
  moreover have "log_inode_impl at i (Some t) = Some (t @ ?text)" unfolding log_inode_impl_def log_record inode_lines_def ..
  moreover have "logged_values ?text = map snd (inode_lines i)"
    by (rule logged_values_record [OF assms(1) _ inode_on_lines]) simp
  ultimately show ?thesis by (simp add: read_logged_inode_def inode_line_values read_number_text nth_append Let_def del: upt_Suc)
qed

end
