(* ===== verification/Fd_Test.thy ===== *)
theory Fd_Test
  imports Fd_Pool Printf
begin

text \<open>
  The order in which a pool hands out its numbers, and the program \<^verbatim>\<open>src/src/filedescriptor_test.c\<close>, which rests
  on it. \<open>mem\<close> is the memory \<^verbatim>\<open>malloc\<close> gives for a new slab, the text is what the program prints. A null pointer
  that is followed, a failed assertion and \<^verbatim>\<open>abort\<close> are \<open>None\<close>.
\<close>

subsection \<open>The program\<close>

abbreviation BIG_NUMBER :: nat where "BIG_NUMBER \<equiv> 1000000"

fun test_rounds :: "(pool \<Rightarrow> slot list option) \<Rightarrow> nat \<Rightarrow> pool \<Rightarrow> (string \<times> pool) option" where
  "test_rounds mem 0 p = Some ([], p)"
| "test_rounds mem (Suc n) p =
     do { (r, p) \<leftarrow> sfs_filedescriptor_allocate p (mem p);
          k \<leftarrow> r;
          (text, q) \<leftarrow> test_rounds mem n (sfs_filedescriptor_free p k);
          Some (signed_text (of_int (slot_fd (get_slot p k)) :: u32) @ NEWLINE # text, q) }"

fun test_numbers :: "(pool \<Rightarrow> slot list option) \<Rightarrow> nat \<Rightarrow> nat \<Rightarrow> pool \<Rightarrow> (nat list \<times> pool) option" where
  "test_numbers mem i 0 p = Some ([], p)"
| "test_numbers mem i (Suc n) p =
     do { (r, p) \<leftarrow> sfs_filedescriptor_allocate p (mem p);
          k \<leftarrow> r;
          if slot_fd (get_slot p k) \<noteq> int i then None
          else do { (arr, p) \<leftarrow> test_numbers mem (Suc i) n p; Some (k # arr, p) } }"

definition test_main ::
  "bool \<Rightarrow> slot list option \<Rightarrow> (nat \<Rightarrow> u64) \<Rightarrow> (pool \<Rightarrow> slot list option) \<Rightarrow> (string \<times> slot list list \<times> pool) option" where
  "test_main malloc_pool malloc_slab addr mem =
     do { p \<leftarrow> sfs_filedescriptor_pool_init malloc_pool malloc_slab addr;
          (text, p) \<leftarrow> test_rounds mem 10 p;
          (arr, p) \<leftarrow> test_numbers mem 0 BIG_NUMBER p;
          (freed, p) \<leftarrow> sfs_filedescriptor_pool_deinit (fold (\<lambda>k p. sfs_filedescriptor_free p k) arr p);
          Some (text, freed, p) }"

subsection \<open>Numbers in order\<close>

text \<open>\<open>j\<close> descriptors are handed out, those with the least numbers, and there is no slab that was not needed.\<close>

definition in_order :: "nat \<Rightarrow> pool \<Rightarrow> bool" where
  "in_order j p \<longleftrightarrow> pool_ok p \<and> j \<le> pool_size p \<and> fds_rep p [j..<pool_size p] \<and> pool_size p < max 1 j + SLOTS_PER_SLAB"

lemma in_order_init:
  assumes "sfs_filedescriptor_pool_init mp ms addr = Some p"
  shows "in_order 0 p"
  using pool_init_ok [OF assms] by (simp add: in_order_def)

lemma in_order_allocate:
  assumes p: "in_order j p" and j: "j < MAX_FDS"
  shows "\<exists>p'. sfs_filedescriptor_allocate p (Some raw) = Some (Some j, p') \<and> in_order (Suc j) p' \<and> slot_fd (get_slot p' j) = int j"
proof -
  have ok: "pool_ok p" and N: "j \<le> pool_size p" "pool_size p < max 1 j + SLOTS_PER_SLAB" and rep: "fds_rep p [j..<pool_size p]"
    using p by (simp_all add: in_order_def)
  let ?M = "if j = pool_size p then j + SLOTS_PER_SLAB else pool_size p"
  have ks: "(if [j..<pool_size p] = [] then [pool_size p..<pool_size p + SLOTS_PER_SLAB] else [j..<pool_size p]) = j # [Suc j..<?M]"
    using N upt_conv_Cons [of j ?M] by auto
  have "[j..<pool_size p] = [] \<Longrightarrow> pool_size p < MAX_FDS" using j N by auto
  from fd_allocate_rep [OF ok rep this, of raw, unfolded ks] obtain p' where
    p': "sfs_filedescriptor_allocate p (Some raw) = Some (Some j, p')" "pool_ok p'" "fds_rep p' [Suc j..<?M]" "pool_size p' = ?M"
    using N by auto
  then have "in_order (Suc j) p'" using N by (auto simp: in_order_def)
  moreover have "slot_fd (get_slot p' j) = int j" using p'(2,4) N by (auto simp: pool_ok_def)
  ultimately show ?thesis using p'(1) by blast
qed

lemma in_order_free: "in_order (Suc 0) p \<Longrightarrow> in_order 0 (sfs_filedescriptor_free p 0)"
proof -
  assume p: "in_order (Suc 0) p"
  then have ok: "pool_ok p" and N: "0 < pool_size p" and rep: "fds_rep p [Suc 0..<pool_size p]" by (simp_all add: in_order_def)
  have "0 \<notin> free_fds p" using free_fds_rep [OF rep] N by auto
  then show ?thesis
    using fd_free_ok(1,3) [OF ok, of 0] fd_free_rep [OF ok rep N] p N
    by (simp add: in_order_def upt_conv_Cons)
qed

lemma alloc_in_order:
  assumes "in_order j p" "j + k \<le> MAX_FDS"
  shows "\<exists>p'. alloc_many fd_alloc k p = Some ([j..<j + k], p') \<and> in_order (j + k) p'"
  using assms
proof (induction k arbitrary: j p)
  case 0
  then show ?case by simp
next
  case (Suc k)
  then obtain p1 where 1: "fd_alloc p = Some (j, p1)" "in_order (Suc j) p1"
    using in_order_allocate [of j p fresh_slab] by (auto simp: fd_alloc_def)
  with Suc.IH [OF 1(2)] Suc.prems(2) obtain p2 where
    "alloc_many fd_alloc k p1 = Some ([Suc j..<Suc j + k], p2)" "in_order (Suc j + k) p2" by auto
  then show ?case using 1 by (intro exI [of _ p2]) (simp add: upt_conv_Cons)
qed

subsection \<open>The program ends well\<close>

lemma test_rounds_ok:
  assumes "in_order 0 p" "\<And>q. mem q \<noteq> None"
  shows "\<exists>q. test_rounds mem n p = Some (concat (replicate n [CHR ''0'', NEWLINE]), q) \<and> in_order 0 q"
  using assms(1)
proof (induction n arbitrary: p)
  case 0
  then show ?case by simp
next
  case (Suc n)
  obtain raw where raw: "mem p = Some raw" using assms(2) [of p] by blast
  from in_order_allocate [OF Suc.prems, of raw] obtain p1 where
    1: "sfs_filedescriptor_allocate p (Some raw) = Some (Some 0, p1)" "in_order (Suc 0) p1" "slot_fd (get_slot p1 0) = 0" by auto
  have z: "signed_text (0 :: u32) = ''0''" by code_simp
  from Suc.IH [OF in_order_free [OF 1(2)]] obtain q where
    "test_rounds mem n (sfs_filedescriptor_free p1 0) = Some (concat (replicate n [CHR ''0'', NEWLINE]), q)" "in_order 0 q" by blast
  then show ?case using raw 1 by (simp add: z)
qed

lemma test_numbers_ok:
  assumes "in_order i p" "i + n \<le> MAX_FDS" "\<And>q. mem q \<noteq> None"
  shows "\<exists>q. test_numbers mem i n p = Some ([i..<i + n], q) \<and> in_order (i + n) q"
  using assms(1,2)
proof (induction n arbitrary: i p)
  case 0
  then show ?case by simp
next
  case (Suc n)
  obtain raw where raw: "mem p = Some raw" using assms(3) [of p] by blast
  from Suc.prems in_order_allocate [of i p raw] obtain p1 where
    1: "sfs_filedescriptor_allocate p (Some raw) = Some (Some i, p1)" "in_order (Suc i) p1" "slot_fd (get_slot p1 i) = int i" by auto
  with Suc.IH [OF 1(2)] Suc.prems(2) obtain q where
    "test_numbers mem (Suc i) n p1 = Some ([Suc i..<Suc i + n], q)" "in_order (Suc i + n) q" by auto
  then show ?case using raw 1 by (intro exI [of _ q]) (simp add: upt_conv_Cons)
qed

text \<open>Freeing all that is held gives every descriptor back.\<close>

lemma fold_free_ok:
  assumes "pool_ok p" "distinct ks" "\<forall>k\<in>set ks. k < MAX_FDS \<and> k \<notin> free_fds p"
  shows "let q = fold (\<lambda>k p. sfs_filedescriptor_free p k) ks p in
    pool_ok q \<and> free_fds q = free_fds p \<union> set ks \<and> pool_size q = pool_size p"
  using assms
proof (induction ks arbitrary: p)
  case Nil
  then show ?case by simp
next
  case (Cons k ks)
  then have k: "k < MAX_FDS" "k \<notin> free_fds p" by auto
  note f = fd_free_ok(1-3) [OF Cons.prems(1) k]
  have "\<forall>j\<in>set ks. j < MAX_FDS \<and> j \<notin> free_fds (sfs_filedescriptor_free p k)"
    using Cons.prems(2,3) f(2) by auto
  from Cons.IH [OF f(1) _ this] Cons.prems(2) f(2,3) show ?case by (simp add: Let_def)
qed

text \<open>
  The test prints ten zeros, its assertions hold, and all descriptors are free again at the end; of the 245 slabs
  then in use 244 are given back.
\<close>

lemma test_main_ok:
  assumes "\<And>q. mem q \<noteq> None"
  shows "\<exists>freed p. test_main True (Some raw) addr mem = Some (concat (replicate 10 [CHR ''0'', NEWLINE]), freed, p) \<and>
    length freed = 244 \<and> length (slabs p) = 1"
proof -
  obtain p0 where p0: "sfs_filedescriptor_pool_init True (Some raw) addr = Some p0" by (simp add: sfs_filedescriptor_pool_init_def)
  obtain p1 where p1: "test_rounds mem 10 p0 = Some (concat (replicate 10 [CHR ''0'', NEWLINE]), p1)" "in_order 0 p1"
    using test_rounds_ok [where mem = mem, OF in_order_init [OF p0] assms] by blast
  obtain p2 where p2: "test_numbers mem 0 BIG_NUMBER p1 = Some ([0..<BIG_NUMBER], p2)" "in_order BIG_NUMBER p2"
    using test_numbers_ok [where mem = mem, OF p1(2) _ assms, of BIG_NUMBER] by auto
  let ?p3 = "fold (\<lambda>k p. sfs_filedescriptor_free p k) [0..<BIG_NUMBER] p2"
  have rep: "fds_rep p2 [BIG_NUMBER..<pool_size p2]" and N: "BIG_NUMBER \<le> pool_size p2" "pool_size p2 < BIG_NUMBER + SLOTS_PER_SLAB"
    and ok: "pool_ok p2"
    using p2(2) by (simp_all add: in_order_def)
  have "\<forall>k\<in>set [0..<BIG_NUMBER]. k < MAX_FDS \<and> k \<notin> free_fds p2" using free_fds_rep [OF rep] N by auto
  from fold_free_ok [OF ok distinct_upt this] have "pool_size ?p3 = pool_size p2" by (simp add: Let_def)
  then have len: "length (slabs ?p3) = 245" using N by (simp add: pool_size_def)
  then have ne: "slabs ?p3 \<noteq> []" by auto
  let ?p4 = "?p3\<lparr>slabs := [last (slabs ?p3)]\<rparr>"
  have "sfs_filedescriptor_pool_deinit ?p3 = Some (butlast (slabs ?p3), ?p4)"
    using ne by (simp add: sfs_filedescriptor_pool_deinit_def deinit_walk_result del: upt_Suc)
  then have "test_main True (Some raw) addr mem =
      Some (concat (replicate 10 [CHR ''0'', NEWLINE]), butlast (slabs ?p3), ?p4)"
    unfolding test_main_def p0 p1(1) p2(1) bind.bind_lunit prod.case by (simp only: bind.bind_lunit prod.case)
  then show ?thesis using len by (intro exI [of _ "butlast (slabs ?p3)"] exI [of _ ?p4]) simp
qed

end
