(* ===== verification/Spec2Isabelle.thy ===== *)
theory Spec2Isabelle
  imports Example_Runs Remount Dead_Disk Path_Tokens Process_Start Logging Fd_Test
begin

text \<open>
  A user-space file system in one disk file, served through FUSE: blocks of 512 bytes, one directory,
  files of up to 76 blocks. The disk holds a superblock (block 0), a table of inodes (from block 1), and
  a data area whose free blocks are listed in index blocks. In memory there are a write-back cache of
  one block of the inode table, a pool of file descriptors, and one mutex around every operation.
  The parts call each other downwards: the handlers of \<^verbatim>\<open>src/src/sfs.c\<close> use the directory of
  \<^verbatim>\<open>src/src/dir.c\<close> and the descriptors of \<^verbatim>\<open>src/src/filedescriptor.c\<close>; the directory is a file of
  \<^verbatim>\<open>src/src/fs.c\<close>; files are made of inodes and blocks; all of it rests on \<^verbatim>\<open>src/src/block.c\<close>.

  \<^bold>\<open>Conventions.\<close> A C function that may stop the process or behave in an undefined way is a function
  into \<open>option\<close>, where \<open>None\<close> is a failed assertion, an access outside an object, a deadlock, or a loop
  that does not end. Error codes are numbers as in the code; a null result is an inner \<open>None\<close>.
  Integers have the width of the source (\<open>u32\<close>, \<open>u64\<close>, wrapping), \<^verbatim>\<open>int\<close> and \<^verbatim>\<open>off_t\<close> are \<open>int\<close>
  with the conversions written out. Memory and disk blocks are byte lists, structures are stored
  little-endian. What comes from outside is a parameter: the record \<open>os\<close> is the disk file with a clock
  and a plan of what each transfer does (all, short, error), \<open>sfs_env\<close> holds what the memory allocators,
  the stack and the calling process contribute; \<^verbatim>\<open>filler\<close> is a function on a buffer of its own. Nothing is assumed of the
  contents of memory that \<^verbatim>\<open>malloc\<close> returns or \<^verbatim>\<open>free\<close> has taken back, whose length alone is known: the inode cache of a volume
  just mounted may be marked dirty (C7), and what \<^verbatim>\<open>sfs_getattr\<close> reads in freed memory is an arbitrary function (C17).

  \<^bold>\<open>Theories, in the order they build on each other.\<close>
  \<^item> \<open>Prelude\<close>, \<open>Bytes\<close>, \<open>Cstring\<close>: types, lemma collections, memory as bytes, and the functions of
    \<^verbatim>\<open><string.h>\<close> and \<^verbatim>\<open><libgen.h>\<close> that the sources apply to names and paths.
  \<^item> \<open>Block\<close>: \<open>block_read\<close>, \<open>block_write\<close> (\<^verbatim>\<open>block.c\<close>) under every outcome of a transfer.
  \<^item> \<open>Layout\<close>: superblock, inode and directory entry (\<^verbatim>\<open>fs.h\<close>, \<^verbatim>\<open>dir.h\<close>) and their encodings; round trips.
  \<^item> \<open>Allocator\<close>: the contract of an allocator as the locales \<open>resource_allocator\<close> and
    \<open>exhaustible_allocator\<close>; what a client may conclude from it is proved there once. It is
    interpreted three times: \<open>blocks_alloc\<close>, \<open>inodes_alloc\<close>, \<open>fds_alloc\<close>.
  \<^item> \<open>Keyed_Store\<close>: the contract of a store of values under keys as the locale \<open>keyed_store\<close>, and what any sequence of
    accesses to one gives. Its interpretations are \<open>disk_blocks\<close> (the block layer), \<open>block_inodes\<close> and \<open>index_slots\<close>
    (what is in a block) and \<open>inode_table\<close> (the table behind its cache).
  \<^item> \<open>Inode_Store\<close>: \<^verbatim>\<open>struct filesystem\<close>, the inode cache, \<open>sfs_fs_read_inode\<close>, \<open>sfs_fs_write_inode\<close>,
    \<open>sfs_fs_close\<close>. \<open>abs_fs\<close> maps a mounted system to superblock, inodes and blocks without the cache;
    the operations are proved to act on this abstraction.
  \<^item> \<open>Block_Alloc\<close>, \<open>Inode_Alloc\<close>: the free lists on disk as sets, \<open>free_blocks\<close> and \<open>free_inodes\<close>;
    invariants \<open>alloc_ok\<close> and \<open>inode_alloc_ok\<close>, exactness of allocation, release.
  \<^item> \<open>File_Block\<close>: the map from the blocks of a file to blocks on disk (\<open>fptr\<close>, \<open>fblock\<close>), reading,
    writing and removing one; \<open>inode_ok\<close> is the invariant of the pointers of an inode. Reading is split at the first
    access to the caller's memory (\<open>block_to_read\<close>, \<open>fill_block\<close>) and so is writing (\<open>block_to_write\<close>, \<open>put_out_block\<close>),
    since the handlers pass pointers that may lie outside a buffer.
  \<^item> \<open>Directory\<close>, \<open>Dir_Unlink\<close>: iterator, linking and unlinking (\<^verbatim>\<open>dir.c\<close>); \<open>dslot\<close> is entry \<open>k\<close> of a directory.
  \<^item> \<open>Fd_Pool\<close>, \<open>Fd_Test\<close>: slabs of 4088 descriptors with the free list threaded through them (\<^verbatim>\<open>filedescriptor.c\<close>),
    the order of the numbers it hands out, and the program \<^verbatim>\<open>filedescriptor_test.c\<close>, whose assertions hold.
  \<^item> \<open>Sfs_Ops\<close>, \<open>Sfs_Io\<close>: every handler of \<^verbatim>\<open>sfs.c\<close> on \<open>sfs_state\<close>, the state of \<^verbatim>\<open>params.h\<close>.
  \<^item> \<open>Volume\<close>, \<open>Namespace\<close>: the invariant of a volume (files own disjoint blocks, none of them free; the
    directory names inodes in use, no name twice) and \<open>names\<close>, the map from names to inode numbers.
  \<^item> \<open>Open_Files\<close>, \<open>Sfs_Files\<close>: \<open>sys_ok\<close> adds that the links of an inode are its names and its open
    descriptors; \<open>sfs_open\<close>, \<open>sfs_create\<close>, \<open>sfs_unlink\<close> and \<open>sfs_release\<close> on a whole system.
  \<^item> \<open>Dir_Handlers\<close>: \<open>sfs_readdir\<close>, \<open>sfs_opendir\<close>, \<open>sfs_releasedir\<close>.
  \<^item> \<open>File_Io\<close>, \<open>File_Io_Write\<close>, \<open>File_Bytes\<close>: the block loops of \<open>sfs_read\<close> and \<open>sfs_write\<close>, block by block
    (\<open>written\<close>, \<open>file_stored\<close>), to the end or to the hole that can no longer be filled; \<open>file_bytes\<close> are the bytes of
    the 76 blocks of a file.
  \<^item> \<open>File_Request\<close>, \<open>File_Write\<close>, \<open>File_Regular\<close>: \<open>read_outcome\<close> and \<open>write_outcome\<close>, what a read and a write of any
    size at any offset give; \<open>regular\<close>, the requests for which that is what was asked for.
  \<^item> \<open>Simulation\<close>: traces of a step relation and the locale \<open>forward_simulation\<close>.
  \<^item> \<open>File_System\<close>: the requests of FUSE (\<open>serve\<close>), the abstract file system \<open>spec_step\<close> of names, byte
    strings and descriptors, and the interpretation \<open>service\<close>: the handlers simulate it.
  \<^item> \<open>Remount\<close>: \<open>sfs_destroy\<close> and \<open>sfs_init\<close> of the next process between the requests, and the interpretation
    \<open>lifetime\<close>: such lives of the system, with restarts while no file is open, simulate the abstract file system too.
  \<^item> \<open>Printf\<close>, \<open>Logging\<close>: the numbers that \<^verbatim>\<open>printf\<close> writes, and the functions of \<^verbatim>\<open>log.c\<close> with the macros of \<^verbatim>\<open>log.h\<close>,
    with readers of the text they write.
  \<^item> \<open>Faults\<close>, \<open>Fault_Handlers\<close>, \<open>Fault_Mount\<close>, \<open>Dead_Disk\<close>: the same definitions without any assumption on the
    disk. \<open>post\<close> is partial correctness, \<open>since b f0 f\<close> says that \<open>f\<close> has the \<open>shape\<close> of a mounted system and, if \<open>b\<close>,
    that every transfer since \<open>f0\<close> was full; the rules of the collection \<open>faults\<close> carry it through every operation.
  \<^item> \<open>Format\<close>, \<open>Format_Ok\<close>, \<open>Fresh_Volume\<close>: \<open>format_fs\<close>, \<open>sfs_fs_open_disk\<close>, and that a formatted disk
    of zeros satisfies the invariants.
  \<^item> \<open>Path_Tokens\<close>, \<open>Process_Start\<close>: the token list of \<^verbatim>\<open>sfs.c\<close>, which nothing calls, and \<^verbatim>\<open>main\<close> up to \<^verbatim>\<open>fuse_main\<close>;
    their lemmas say which paths are split and which command lines are served.
  \<^item> \<open>Example_Volume\<close>, \<open>Example_Runs\<close>: a volume of 8 blocks for the concrete instances.

  \<^bold>\<open>What the theorems show.\<close> On a disk that does what it is told, every run of admitted requests from a state with the
  invariant is a run of the abstract file system, and no admitted request goes unanswered (C1, C3); a first mount
  establishes the invariant (C2), every run keeps it (C4), and unmounting and mounting again keep names and files (C5, C6),
  though a fresh mount may overwrite the superblock for a while (C7). On any disk success is reported only when every
  transfer was done (C8), with the exceptions of C9 and C10. C11 to C17 give the effect of each handler on names, C18 to C23
  what reading and writing do to bytes, right requests and wrong ones, C24 to C26 the directory handlers, C27 the storage
  below, C28 and C29 formatting, C30 to C34 allocators and file blocks, C35 and C36 the directory, C37 to C39 descriptors,
  C40 the log.
  A request is \<open>admissible\<close> if names have no slash, descriptors are open, there is room for what it creates (\<open>writable\<close>,
  \<open>room_for\<close>; a file or directory that outgrows its direct blocks must find zeros in the block that becomes its index, C33),
  the name whose attributes are asked for does not exist (else freed memory is read, C17), a read ends inside the file, and a
  transfer lies inside the blocks a file can have and is \<open>regular\<close>: at an offset and of a size that the code serves right.
  C19 and C20 give the result of every write and read, C22 says that the regular ones inside the file are exactly those
  served right.

  \<^bold>\<open>Bounds.\<close> A file has 12 direct and 64 indirect blocks, \<open>MAX_FILE\<close> is 38912 bytes. A volume has at most
  \<open>2 ^ 54\<close> blocks where byte offsets must fit an \<^verbatim>\<open>off_t\<close>. The walks through the free list, the
  directory and the slabs are \<open>partial_function\<close> or \<open>function\<close> with a measure; no fuel is used, and
  that they end is proved from the invariants.

  \<^bold>\<open>Not modelled.\<close> \<^verbatim>\<open>fuse.h\<close> is a copy of a library header; \<^verbatim>\<open>example/step_prog.c\<close> is a program that waits for keys between
  two system calls. The calls of the log functions inside the handlers are left out of the handlers: they change nothing but
  the log. Threads are not modelled: FUSE may call the handlers from several, but each of them that touches the state takes
  the mutex first, so runs are sequences of whole handlers; that the mutex is given back is C3, and where it is not is C26.

  \<^bold>\<open>Plan.\<close> What a volume holds after a transfer that failed; the contract of the directory as a locale.
\<close>

section \<open>The service as a whole\<close>

text \<open>
  C1. Every run of admitted requests is a run of the abstract file system: the replies are those of a file system of
  names, byte strings and open descriptors, and the invariant holds at the end. Admitted in a state are, in any order,
  creating, opening and unlinking names without a slash, releasing open descriptors, listing, opening and releasing the
  root directory, asking for the attributes of a name that does not exist (those of an existing name are read through freed
  memory, C17), reads inside a file and writes that are regular (C22), and what finds a free descriptor, a free inode and
  free blocks where it needs them; the memory allocators deliver and the disk does what it is told.
\<close>

theorem runs_refine:
  assumes "good s0 f0 p0" and "run s0 tr s"
  shows "\<exists>f p. good s f p \<and> spec_run (spec_of f0 p0) tr (spec_of f p)"
  by (rule run_refines [OF assms(2,1)])

theorem runs_refine_witness:
  "\<exists>s r1 r2 S. run ex_state [(Unlink ex_name, r1), (Readdir, r2)] s \<and>
    spec_run (spec_of ex_fs ex_pool) [(Unlink ex_name, r1), (Readdir, r2)] S"
proof -
  have g: "st_fs ex_state = Some ex_fs" "st_pool ex_state = Some ex_pool" by (simp_all add: ex_state_def)
  have "admissible ex_fs ex_pool (Unlink ex_name)" by (simp add: ex_name_proper)
  from run_progress [OF trace_nil ex_good g ex_env_ok(2) this] obtain r1 s1 where 1: "run ex_state ([] @ [(Unlink ex_name, r1)]) s1"
    by blast
  from run_refines [OF 1 ex_good] obtain f p where "good s1 f p" by blast
  then have "st_fs s1 = Some f" "st_pool s1 = Some p" using good_state by blast+
  from run_progress [OF 1 ex_good this ex_env_ok(2), of Readdir] obtain r2 s2 where
    "run ex_state [(Unlink ex_name, r1), (Readdir, r2)] s2" by auto
  from this runs_refine [OF ex_good this] show ?thesis by blast
qed

text \<open>
  C2. Mounting a disk of zeros for the first time formats it, and every run of admitted requests (C1) from there is a run of
  the abstract file system from the empty one, whatever the memory of the process held. The disk works, has from 3 to
  \<open>2 ^ 34\<close> blocks, a number for which the assertion of the formatter holds (C28), and \<^verbatim>\<open>asctime\<close> can print the time 0.
\<close>

theorem first_mount_runs:
  assumes "\<not> st_locked s0" and "\<forall>b. file_blocks (st_disk s0) b = zero_block" and "no_faults (st_disk s0)"
    and "3 \<le> file_size (st_disk s0) div 512" and "file_size (st_disk s0) div 512 \<le> 2 ^ 34"
    and "format_size_ok (file_size (st_disk s0) div 512)" and "length (data raw) = BLOCK_SIZE" and "asctime_ok 0"
  shows "\<exists>s. sfs_init True (Some slab) addr (Some raw) asctime_ok True usr grp s0 = Some (False, s) \<and>
    (\<forall>tr s'. run s tr s' \<longrightarrow> (\<exists>f p. good s' f p \<and> spec_run empty_spec tr (spec_of f p)))"
  using assms by (intro first_runs) (simp_all add: zero_disk_def)

theorem first_mount_runs_witness:
  "\<exists>s s' r f p. sfs_init True (Some fresh_slab) (\<lambda>k. 0) (Some raw_cache) (\<lambda>t. True) True 0 0 zero_state = Some (False, s) \<and>
    run s [(Readdir, r)] s' \<and> good s' f p \<and> spec_run empty_spec [(Readdir, r)] (spec_of f p)"
proof -
  have z: "\<not> st_locked zero_state" "zero_disk (st_disk zero_state)" by (simp_all add: zero_state_def zero_os_ok)
  obtain s f p where 1:
    "sfs_init True (Some fresh_slab) (\<lambda>k. 0) (Some raw_cache) (\<lambda>t. True) True 0 0 zero_state = Some (False, s)" "good s f p"
    using sfs_init_fresh [where asctime_ok = "\<lambda>t. True", OF z raw_cache_ok(2)] by blast
  then have "st_fs s = Some f" "st_pool s = Some p" using good_state by blast+
  from run_progress [OF trace_nil 1(2) this ex_env_ok(2), of Readdir] obtain r s' where 2: "run s [(Readdir, r)] s'" by auto
  note zd = z(2) [unfolded zero_disk_def]
  from first_mount_runs [where asctime_ok = "\<lambda>t. True" and addr = "\<lambda>k. 0" and slab = fresh_slab and usr = 0 and grp = 0,
      OF z(1) _ _ _ _ _ raw_cache_ok(2) TrueI] zd obtain s2 where 3:
    "sfs_init True (Some fresh_slab) (\<lambda>k. 0) (Some raw_cache) (\<lambda>t. True) True 0 0 zero_state = Some (False, s2)"
    "\<forall>tr s'. run s2 tr s' \<longrightarrow> (\<exists>f p. good s' f p \<and> spec_run empty_spec tr (spec_of f p))" by auto
  then have "s2 = s" using 1(1) by simp
  then show ?thesis using 3 2 by blast
qed

text \<open>
  C3. No admitted request is left unanswered: after any run of admitted requests (C1) each of them ends, with neither a
  failed assertion nor an access outside an object nor a mutex that stays locked, and gives a reply.
\<close>

theorem requests_answered:
  assumes "good s0 f0 p0" and "run s0 tr s" and "st_fs s = Some f" and "st_pool s = Some p" and "env_full env" and "admissible f p req"
  shows "\<exists>r s'. serve env req s = Some (r, s') \<and> run s0 (tr @ [(req, r)]) s' \<and> \<not> st_locked s'"
proof -
  obtain r s' where 1: "serve env req s = Some (r, s')" "run s0 (tr @ [(req, r)]) s'"
    using run_progress [OF assms(2,1,3-6)] by blast
  then show ?thesis using run_refines [OF 1(2) assms(1)] good_volume(1) by blast
qed

theorem requests_answered_witness: "\<exists>r s'. serve ex_env (Unlink ex_name) ex_state = Some (r, s') \<and> \<not> st_locked s'"
proof -
  have g: "st_fs ex_state = Some ex_fs" "st_pool ex_state = Some ex_pool" by (simp_all add: ex_state_def)
  have "admissible ex_fs ex_pool (Unlink ex_name)" by (simp add: ex_name_proper)
  from requests_answered [OF ex_good trace_nil g ex_env_ok(2) this] show ?thesis by blast
qed

text \<open>
  C4. After every run of admitted requests (C1) no block belongs to two files or to a file and the free space, and the
  links of a file are the number of its names and open descriptors.
\<close>

theorem volume_after_run:
  assumes "good s0 f0 p0" and "run s0 tr s" and "st_fs s = Some f" and "st_pool s = Some p" and "used (abs_fs f) n"
  shows "owns (abs_fs f) n \<inter> free_blocks (abs_fs f) = {} \<and>
    (\<forall>m. used (abs_fs f) m \<and> m \<noteq> n \<longrightarrow> owns (abs_fs f) m \<inter> owns (abs_fs f) n = {}) \<and>
    (n \<noteq> 1 \<longrightarrow> unat (links (a_inode (abs_fs f) n)) = (if n \<in> ran (names (abs_fs f)) then 1 else 0) +
       card {k. in_use p k \<and> slot_cell (get_slot p k) = Inumber n})"
proof -
  obtain f1 p1 where g: "good s f1 p1" using run_refines [OF assms(2,1)] by blast
  then have "f1 = f" "p1 = p" using assms(3,4) good_state [of s f1 p1] by simp_all
  with g have "good s f p" by simp
  note v = good_volume [OF this]
  show ?thesis using v(2) [OF _ assms(5)] v(3,4) [OF assms(5)] by blast
qed

theorem volume_after_run_witness: "owns ex_abs 2 \<inter> free_blocks ex_abs = {} \<and> owns ex_abs 1 \<inter> owns ex_abs 2 = {}"
proof -
  have "st_fs ex_state = Some ex_fs" "st_pool ex_state = Some ex_pool" "used ex_abs 2" "used ex_abs 1 \<and> (1 :: u64) \<noteq> 2"
    by (simp_all add: ex_state_def ex_used)
  with volume_after_run [OF ex_good trace_nil this(1-3)] show ?thesis by blast
qed

text \<open>
  C5. Lives of the system, in which runs of admitted requests (C1) alternate with unmounting and mounting again in a new
  process, are runs of the abstract file system in which a restart keeps names and files. A restart is made when no file
  is open (descriptors may be open on the root directory) and \<^verbatim>\<open>asctime\<close> can print the time of the formatting; the new
  memory is arbitrary.
\<close>

theorem lives_refine:
  assumes "good s0 f0 p0" and "trace life_step s0 es s"
  shows "\<exists>f p. good s f p \<and> trace spec_life (spec_of f0 p0) es (spec_of f p)"
  by (rule life_refines [OF assms(2,1)])

theorem lives_refine_witness:
  "\<exists>s r f p. trace life_step ex_state [Restart, Request Readdir r] s \<and> good s f p \<and>
    trace spec_life (spec_of ex_fs ex_pool) [Restart, Request Readdir r] (spec_of f p)"
proof -
  have q: "quiet ex_pool" by (simp add: quiet_def ex_pool_ok)
  from remount_keeps [where asctime_ok = "\<lambda>t. True", OF ex_good raw_cache_ok(2) TrueI] q obtain s1 s2 f2 p2 where 1:
    "sfs_destroy ex_state = Some ((), s1)"
    "sfs_init True (Some fresh_slab) (\<lambda>k. 0) (Some raw_cache) (\<lambda>t. True) True 0 0 s1 = Some (False, s2)" "good s2 f2 p2"
    by metis
  have "restarted ex_state s2" unfolding restarted_def
    by (intro exI [of _ ex_fs] exI [of _ ex_pool] exI [of _ s1] exI [of _ fresh_slab] exI [of _ "\<lambda>k. 0"] exI [of _ raw_cache]
        exI [of _ "\<lambda>t. True"] exI [of _ True] exI [of _ 0]) (use 1 q in \<open>simp add: ex_state_def raw_cache_ok\<close>)
  then have t: "trace life_step ex_state ([] @ [Restart]) s2" by (intro trace_snoc [OF trace_nil]) simp
  have "served ex_env Readdir s2 f2 p2" by (rule serve_refines [OF 1(3) ex_env_ok(2)]) simp
  then obtain r s3 where "serve ex_env Readdir s2 = Some (r, s3)" by (auto simp: served_def)
  then have "serve_step s2 (Readdir, r) s3" using good_state [OF 1(3)] ex_env_ok(2) by (auto simp: serve_step_def)
  then have "trace life_step ex_state (([] @ [Restart]) @ [Request Readdir r]) s3" by (intro trace_snoc [OF t]) simp
  from lives_refine [OF ex_good this] this show ?thesis by auto
qed

text \<open>
  C6. Unmounting and mounting again succeeds when the two structures can be allocated and \<^verbatim>\<open>asctime\<close> can print the time of the
  formatting, whatever the new memory holds, and keeps every name and every file with its size and bytes. The
  invariant holds afterwards exactly if no file was open: \<^verbatim>\<open>sfs_destroy\<close> leaves the links of open descriptors on the disk.
\<close>

theorem remount:
  assumes "good s f p" and "length (data raw) = BLOCK_SIZE" and "asctime_ok (create_time (superblock f))"
  shows "\<exists>s1 s2 f2 p2. sfs_destroy s = Some ((), s1) \<and>
    sfs_init True (Some slab) addr (Some raw) asctime_ok fok usr grp s1 = Some (False, s2) \<and>
    st_fs s2 = Some f2 \<and> st_pool s2 = Some p2 \<and> spec_of f2 p2 = (spec_of f p)\<lparr>sp_fds := Map.empty\<rparr> \<and>
    mounted f2 \<and> (good s2 f2 p2 \<longleftrightarrow> quiet p)"
  using assms by (rule remount_keeps)

theorem remount_witness:
  "\<exists>s1 s2 f2. sfs_destroy ex_state = Some ((), s1) \<and>
    sfs_init True (Some fresh_slab) (\<lambda>k. 0) (Some raw_cache) (\<lambda>t. True) True 0 0 s1 = Some (False, s2) \<and>
    st_fs s2 = Some f2 \<and> names (abs_fs f2) ex_name = Some 2"
  using remount [where asctime_ok = "\<lambda>t. True", OF ex_good raw_cache_ok(2) TrueI, of fresh_slab "\<lambda>k. 0" True 0 0]
  by (auto simp: spec_of_def ex_names)

text \<open>
  C7. After mounting, the flag of the inode cache is what the memory from \<^verbatim>\<open>malloc\<close> held. If it is set, the first access to
  an inode gives the inode but writes that memory over the superblock on the disk; unmounting writes the superblock again.
\<close>

theorem mount_overwrites:
  assumes "fs_ok fs" and "dirty raw" and "length (data raw) = BLOCK_SIZE" and "asctime_ok (create_time (superblock fs))"
    and "valid_ino (superblock fs) n"
  shows "\<exists>f f'. sfs_fs_open_disk (snd (sfs_fs_close fs)) mf (Some raw) asctime_ok fok usr grp = Some (Some f, disk f) \<and>
    file_blocks (disk f) 0 = put_bytes 0 (encode_superblock (superblock fs)) zero_block \<and>
    sfs_fs_read_inode f n = Some (Some (a_inode (abs_fs fs) n), f') \<and> file_blocks (disk f') 0 = data raw \<and>
    file_blocks (snd (sfs_fs_close f')) 0 = put_bytes 0 (encode_superblock (superblock fs)) zero_block"
  using overwritten_superblock [where asctime_ok = asctime_ok, OF assms] by (simp add: sfs_fs_close_ok [OF assms(1)])

theorem mount_overwrites_witness:
  "\<exists>f f' i. sfs_fs_open_disk (snd (sfs_fs_close ex_fs)) True (Some raw_cache) (\<lambda>t. True) True 0 0 = Some (Some f, disk f) \<and>
    sfs_fs_read_inode f 2 = Some (Some i, f') \<and> file_blocks (disk f') 0 = ex_data"
proof -
  have "valid_ino (superblock ex_fs) 2" by (simp add: ex_valid_ino)
  from mount_overwrites [where asctime_ok = "\<lambda>t. True", OF ex_fs_ok raw_cache_ok TrueI this, of True True 0 0]
  show ?thesis unfolding raw_cache_def inode_cache.select_convs by blast
qed

section \<open>Disks that fail\<close>

text \<open>
  C8. A handler that reports success has had every transfer it asked for done in full, whatever the disk did; the
  handlers that read the directory to its end are excepted.
\<close>

theorem success_transferred:
  assumes "serve env req s = Some (rep, s')" and "st_fs s = Some f" and "shape f" and "length (stack_block env) = BLOCK_SIZE"
    and "reports_success rep" and "\<not> reads_to_end req"
  shows "\<exists>f'. st_fs s' = Some f' \<and> io_plan (disk f') = io_plan (disk f) \<and> io_done (disk f) \<le> io_done (disk f') \<and>
    (\<forall>k. io_done (disk f) \<le> k \<and> k < io_done (disk f') \<longrightarrow> full_transfer (io_plan (disk f) k))"
  using serve_since [OF assms(1-4)] assms(5,6) by (auto simp: progressed_def since_def went_def)

theorem success_transferred_witness:
  "\<exists>st s' f'. serve ex_env (Getattr ex_name) ex_state = Some (Attributes 0 st, s') \<and> st_fs s' = Some f' \<and>
    (\<forall>k. io_done ex_os \<le> k \<and> k < io_done (disk f') \<longrightarrow> full_transfer (io_plan ex_os k))"
proof -
  obtain st s' where 1: "serve ex_env (Getattr ex_name) ex_state = Some (Attributes 0 st, s')"
    using getattr_ok(3) [OF ex_ready ex_env_ok(1) ex_name_proper, of 2] by (auto simp: ex_names ex_env_ok(3) ex_valid_ino)
  have "shape ex_fs" using ex_fs_ok fs_okD [OF ex_fs_ok] by (auto simp: shape_def cache_ok_def fs_ok_def ex_sig)
  moreover have "st_fs ex_state = Some ex_fs" "length (stack_block ex_env) = BLOCK_SIZE" by (simp_all add: ex_state_def ex_env_def)
  ultimately show ?thesis using success_transferred [OF 1, of ex_fs] 1 by (auto simp: ex_fs_def)
qed

text \<open>
  C9. Why they are excepted: when the block of the root directory cannot be read, \<^verbatim>\<open>sfs_readdir\<close> lists an empty directory and
  returns 0, and \<^verbatim>\<open>sfs_getattr\<close> answers \<^verbatim>\<open>ENOENT\<close> for every name, those of existing files included.
\<close>

theorem failed_directory_read:
  assumes "mounted f" and "cached f = 1" and "0 < dsize (root (abs_fs f))" and "block_pointers (root (abs_fs f)) ! 0 \<noteq> 0"
    and "st_fs s = Some (dead f)" and "\<not> st_locked s" and "env_ok env" and "proper_name nm"
  shows "\<exists>s1 s2. sfs_readdir env collect [SLASH] [] s = Some ((0, [([DOT], None), ([DOT, DOT], None)]), s1) \<and>
    sfs_getattr env (SLASH # nm) s = Some ((- ENOENT, None), s2)"
  using assms by (rule dead_directory)

theorem failed_directory_read_witness:
  "\<exists>s2. sfs_getattr ex_env (SLASH # ex_name) (ex_state\<lparr>st_fs := Some (dead (after_read ex_fs 1))\<rparr>) = Some ((- ENOENT, None), s2)"
proof -
  have v: "valid_ino (superblock ex_fs) 1" by (simp add: ex_valid_ino)
  have a: "abs_fs (after_read ex_fs 1) = ex_abs" using ex_fs_ok v by simp
  have "cached (after_read ex_fs 1) = 1" by (simp add: after_read_def load_def cached_def flush_def)
  moreover have "0 < dsize (root ex_abs)" "block_pointers (root ex_abs) ! 0 \<noteq> 0" by (simp_all add: ex_a_inode ex_dir ex_ptrs)
  moreover have "\<not> st_locked ex_state" by (simp add: ex_state_def)
  ultimately show ?thesis
    using failed_directory_read [OF after_read_mounted [OF ex_mounted v], of "ex_state\<lparr>st_fs := Some (dead (after_read ex_fs 1))\<rparr>" ex_env ex_name]
      ex_env_ok(1) ex_name_proper unfolding a by auto
qed

text \<open>
  C10. When the block of an inode cannot be read the cache is marked as holding it all the same: the next
  read of the inode succeeds with an inode of zeros, whatever the disk holds and does by then.
\<close>

theorem failed_inode_read:
  assumes "fs_ok fs" and "valid_ino (superblock fs) n" and "\<not> dirty (inode_cache fs)" and "cached fs \<noteq> (n - 1) div 3 + 1"
  shows "\<exists>f1. sfs_fs_read_inode (dead fs) n = Some (None, f1) \<and>
    (\<forall>d. sfs_fs_read_inode (f1\<lparr>disk := d\<rparr>) n = Some (Some (empty_inode 0), f1\<lparr>disk := d\<rparr>))"
  using assms by (rule dead_fill)

theorem failed_inode_read_witness:
  "\<exists>f1. sfs_fs_read_inode (dead ex_fs) 2 = Some (None, f1) \<and>
    sfs_fs_read_inode (f1\<lparr>disk := ex_os\<rparr>) 2 = Some (Some (empty_inode 0), f1\<lparr>disk := ex_os\<rparr>)"
  using failed_inode_read [OF ex_fs_ok, of 2] by (auto simp: ex_valid_ino ex_fs_def cached_def)

section \<open>Files and names\<close>

text \<open>
  C11. Creating a name that is not in the root directory takes a free inode, gives it the
  mode, owner and two links of a new open file, enters the name in the directory, opens a
  descriptor that was not in use and leaves every other file as it was.
\<close>

theorem create_new:
  assumes "sys_ok s f p" and "env_full env" and "proper_name nm" and "names (abs_fs f) nm = None"
    and "free_fds p \<noteq> {}" and "free_inodes (abs_fs f) \<noteq> {}"
    and "writable (abs_fs f) (root (abs_fs f)) (vacant_from (abs_fs f) (root (abs_fs f)) 0)"
  shows "\<exists>n k s' f' p'. sfs_create env (SLASH # nm) cmode fi s = Some ((0, handle fi k), s') \<and> sys_ok s' f' p' \<and>
    n \<in> free_inodes (abs_fs f) \<and> names (abs_fs f') = (names (abs_fs f))(nm \<mapsto> n) \<and>
    new_inode env cmode (abs_fs f) n (a_inode (abs_fs f') n) \<and> only_changes (abs_fs f) (abs_fs f') n \<and> fd_added p p' k n"
  using assms by (rule sfs_create_new)

theorem create_new_witness:
  "\<exists>k s' f' p'. sfs_create ex_env [SLASH, 98] 0x1A4 ex_fi ex_state = Some ((0, handle ex_fi k), s') \<and> sys_ok s' f' p' \<and>
    names (abs_fs f') [98] = Some 3 \<and> names (abs_fs f') ex_name = Some 2 \<and> in_use p' k"
proof -
  have nm: "proper_name [98]" "names ex_abs [98] = None" by (simp_all add: proper_name_def c_string_def ex_names ex_name_def)
  have w: "writable ex_abs (root ex_abs) (vacant_from ex_abs (root ex_abs) 0)" using ex_writable(1) by (simp add: ex_a_inode)
  have "free_fds ex_pool \<noteq> {}" "free_inodes ex_abs \<noteq> {}" by (simp_all add: ex_pool_ok ex_free_inodes)
  from create_new [OF ex_sys_ok ex_env_ok(2) nm this w, of "0x1A4" ex_fi] show ?thesis
    by (elim exE conjE) (intro exI conjI, assumption+, simp_all add: ex_free_inodes ex_names ex_name_def fd_added_def)
qed

text \<open>
  C12. Removing a name takes it out of the directory and leaves every other file as it was; the inode
  is free afterwards exactly if no descriptor is open on it, otherwise its contents stay.
\<close>

theorem unlink_file:
  assumes "sys_ok s f p" and "env_ok env" and "proper_name nm" and "names (abs_fs f) nm = Some n"
  shows "\<exists>s' f'. sfs_unlink env (SLASH # nm) s = Some (0, s') \<and> sys_ok s' f' p \<and>
    names (abs_fs f') = (names (abs_fs f))(nm := None) \<and> only_changes (abs_fs f) (abs_fs f') n \<and>
    (if fds_on p n = {} then n \<in> free_inodes (abs_fs f')
     else used (abs_fs f') n \<and> fblock (abs_fs f') (a_inode (abs_fs f') n) = fblock (abs_fs f) (a_inode (abs_fs f) n) \<and>
       isize (a_inode (abs_fs f') n) = isize (a_inode (abs_fs f) n))"
  using assms by (rule sfs_unlink_present)

theorem unlink_file_witness:
  "\<exists>s' f'. sfs_unlink ex_env (SLASH # ex_name) ex_state = Some (0, s') \<and> sys_ok s' f' ex_pool \<and>
    names (abs_fs f') ex_name = None \<and> 2 \<in> free_inodes (abs_fs f')"
  using unlink_file [OF ex_sys_ok ex_env_ok(1) ex_name_proper, of 2]
  by (simp add: ex_names ex_pool_ok) (elim exE conjE, intro exI conjI, assumption+, simp_all)

text \<open>
  C13. Opening a name that exists opens a descriptor that was not in use on its inode, adds one
  link to it and changes neither its size, nor its contents, nor any other file, nor the free space.
\<close>

theorem open_file:
  assumes "sys_ok s f p" and "env_full env" and "proper_name nm" and "names (abs_fs f) nm = Some n" and "free_fds p \<noteq> {}"
  shows "\<exists>k s' f' p'. sfs_open env (SLASH # nm) fi s = Some ((0, handle fi k), s') \<and> sys_ok s' f' p' \<and>
    fd_added p p' k n \<and> names (abs_fs f') = names (abs_fs f) \<and> only_changes (abs_fs f) (abs_fs f') n \<and>
    links (a_inode (abs_fs f') n) = links (a_inode (abs_fs f) n) + 1 \<and> isize (a_inode (abs_fs f') n) = isize (a_inode (abs_fs f) n) \<and>
    block_pointers (a_inode (abs_fs f') n) = block_pointers (a_inode (abs_fs f) n) \<and>
    fblock (abs_fs f') (a_inode (abs_fs f') n) = fblock (abs_fs f) (a_inode (abs_fs f) n) \<and>
    free_blocks (abs_fs f') = free_blocks (abs_fs f)"
  using assms by (rule sfs_open_present)

theorem open_file_witness:
  "\<exists>k s' f' p'. sfs_open ex_env (SLASH # ex_name) ex_fi ex_state = Some ((0, handle ex_fi k), s') \<and> sys_ok s' f' p' \<and>
    in_use p' k \<and> slot_cell (get_slot p' k) = Inumber 2 \<and> links (a_inode (abs_fs f') 2) = 2 \<and>
    isize (a_inode (abs_fs f') 2) = 512"
proof -
  have "names ex_abs ex_name = Some 2" "free_fds ex_pool \<noteq> {}" by (simp_all add: ex_names ex_pool_ok)
  from open_file [OF ex_sys_ok ex_env_ok(2) ex_name_proper this, of ex_fi] show ?thesis
    by (elim exE conjE) (intro exI conjI, assumption+, simp_all add: ex_a_inode ex_ptrs fd_added_def)
qed

text \<open>
  C14. Releasing a descriptor returns it to the pool and drops its link: the inode is freed exactly if it
  has no name and no other descriptor, otherwise its contents stay; every other file is as it was.
\<close>

theorem release_file:
  assumes "sys_ok s f p" and "in_use p k" and "slot_cell (get_slot p k) = Inumber n" and "n \<noteq> 1"
  shows "\<exists>s' f'. sfs_release (handle fi k) s = Some (0, s') \<and> sys_ok s' f' (sfs_filedescriptor_free p k) \<and>
    names (abs_fs f') = names (abs_fs f) \<and> only_changes (abs_fs f) (abs_fs f') n \<and>
    \<not> in_use (sfs_filedescriptor_free p k) k \<and>
    (if n \<notin> ran (names (abs_fs f)) \<and> fds_on p n = {k} then n \<in> free_inodes (abs_fs f')
     else used (abs_fs f') n \<and> fblock (abs_fs f') (a_inode (abs_fs f') n) = fblock (abs_fs f) (a_inode (abs_fs f) n) \<and>
       isize (a_inode (abs_fs f') n) = isize (a_inode (abs_fs f) n))"
  using assms by (rule sfs_release_open)

theorem release_file_witness:
  "\<exists>k s' s'' f'' p''. sfs_open ex_env (SLASH # ex_name) ex_fi ex_state = Some ((0, handle ex_fi k), s') \<and>
    sfs_release (handle ex_fi k) s' = Some (0, s'') \<and> sys_ok s'' f'' p'' \<and> \<not> in_use p'' k"
proof -
  have "names ex_abs ex_name = Some 2" "free_fds ex_pool \<noteq> {}" by (simp_all add: ex_names ex_pool_ok)
  then obtain k s' f' p' where 1: "sfs_open ex_env (SLASH # ex_name) ex_fi ex_state = Some ((0, handle ex_fi k), s')"
    "sys_ok s' f' p'" "in_use p' k" "slot_cell (get_slot p' k) = Inumber 2"
    using sfs_open_present [OF ex_sys_ok ex_env_ok(2) ex_name_proper, of 2 ex_fi] unfolding fd_added_def by blast
  have "(2 :: u64) \<noteq> 1" by simp
  from release_file [OF 1(2-4) this, of ex_fi] 1(1) show ?thesis by blast
qed

text \<open>
  C15. Creating a name that exists is opening it, with the same result, handle and state, unless \<^verbatim>\<open>O_EXCL\<close> is given: then
  it fails with \<^verbatim>\<open>EEXIST\<close>, and names and files are as before.
\<close>

theorem create_existing:
  assumes "sys_ok s f p" and "env_full env" and "proper_name nm" and "names (abs_fs f) nm = Some n" and "free_fds p \<noteq> {}"
  shows "if fi_flags fi AND O_EXCL = 0 then sfs_create env (SLASH # nm) cmode fi s = sfs_open env (SLASH # nm) fi s
    else \<exists>s' f'. sfs_create env (SLASH # nm) cmode fi s = Some ((- EEXIST, fi), s') \<and> sys_ok s' f' p \<and>
      names (abs_fs f') = names (abs_fs f) \<and> only_changes (abs_fs f) (abs_fs f') 1"
  using sfs_create_present [OF assms, of fi cmode] sfs_create_exclusive [OF assms(1) _ assms(3,4), of env fi cmode] assms(2)
  by (simp add: env_full_def)

theorem create_existing_witness:
  "sfs_create ex_env (SLASH # ex_name) 0x1A4 ex_fi ex_state = sfs_open ex_env (SLASH # ex_name) ex_fi ex_state \<and>
   (\<exists>s'. sfs_create ex_env (SLASH # ex_name) 0x1A4 (ex_fi\<lparr>fi_flags := 0xC2\<rparr>) ex_state =
      Some ((- EEXIST, ex_fi\<lparr>fi_flags := 0xC2\<rparr>), s'))"
proof -
  have "names (abs_fs ex_fs) ex_name = Some 2" "free_fds ex_pool \<noteq> {}" by (simp_all add: ex_names ex_pool_ok)
  from create_existing [OF ex_sys_ok ex_env_ok(2) ex_name_proper this, of ex_fi "0x1A4"]
    create_existing [OF ex_sys_ok ex_env_ok(2) ex_name_proper this, of "ex_fi\<lparr>fi_flags := 0xC2\<rparr>" "0x1A4"]
  show ?thesis by (auto simp: ex_fi_def)
qed

text \<open>
  C16. Opening or removing a name that does not exist fails with \<^verbatim>\<open>ENOENT\<close>; names and files stay as they are, and so do the
  descriptors.
\<close>

theorem absent_names:
  assumes "sys_ok s f p" and "env_ok env" and "proper_name nm" and "names (abs_fs f) nm = None"
  shows "\<exists>s1 f1 s2 f2. sfs_open env (SLASH # nm) fi s = Some ((- ENOENT, fi), s1) \<and> sys_ok s1 f1 p \<and>
    sfs_unlink env (SLASH # nm) s = Some (- ENOENT, s2) \<and> sys_ok s2 f2 p \<and>
    names (abs_fs f1) = names (abs_fs f) \<and> only_changes (abs_fs f) (abs_fs f1) 1 \<and>
    names (abs_fs f2) = names (abs_fs f) \<and> only_changes (abs_fs f) (abs_fs f2) 1"
  using assms by (rule absent_name)

theorem absent_names_witness:
  "\<exists>s1 s2. sfs_open ex_env (SLASH # [98]) ex_fi ex_state = Some ((- ENOENT, ex_fi), s1) \<and>
    sfs_unlink ex_env (SLASH # [98]) ex_state = Some (- ENOENT, s2)"
proof -
  have "proper_name [98]" "names ex_abs [98] = None" by (simp_all add: proper_name_def c_string_def ex_names ex_name_def)
  from absent_names [OF ex_sys_ok ex_env_ok(1) this, of ex_fi] show ?thesis by blast
qed

text \<open>
  C17. \<^verbatim>\<open>sfs_getattr\<close> answers \<^verbatim>\<open>ENOENT\<close> for a name that does not exist. For a name of inode \<open>n\<close> it reads the inode number from
  the iterator it has just freed, where it finds some \<open>freed env n\<close>: if that is the number of an inode of the table, in
  particular if it still is \<open>n\<close>, the attributes of that inode are the answer; if it is 0 an assertion fails. No name changes and
  nothing of a file, only the access time of the root directory.
\<close>

theorem getattr_file:
  assumes "ready s f" and "env_ok env" and "proper_name nm"
  shows "(names (abs_fs f) nm = None \<longrightarrow> (\<exists>s' f'. sfs_getattr env (SLASH # nm) s = Some ((- ENOENT, None), s') \<and>
      ready s' f' \<and> st_pool s' = st_pool s \<and> names (abs_fs f') = names (abs_fs f) \<and> only_changes (abs_fs f) (abs_fs f') 0)) \<and>
    (\<forall>n m. names (abs_fs f) nm = Some n \<and> m = freed env n \<longrightarrow>
      (m = 0 \<longrightarrow> sfs_getattr env (SLASH # nm) s = None) \<and>
      (valid_ino (superblock f) m \<longrightarrow> (\<exists>s' f'. sfs_getattr env (SLASH # nm) s =
          Some ((0, Some (sfs_fs_inode_to_stat (a_inode (abs_fs f') m))), s') \<and>
        (m \<noteq> 1 \<longrightarrow> a_inode (abs_fs f') m = a_inode (abs_fs f) m) \<and> ready s' f' \<and> st_pool s' = st_pool s \<and>
        names (abs_fs f') = names (abs_fs f) \<and> only_changes (abs_fs f) (abs_fs f') 0)))"
proof (rule conjI)
  show "names (abs_fs f) nm = None \<longrightarrow> (\<exists>s' f'. sfs_getattr env (SLASH # nm) s = Some ((- ENOENT, None), s') \<and>
      ready s' f' \<and> st_pool s' = st_pool s \<and> names (abs_fs f') = names (abs_fs f) \<and> only_changes (abs_fs f) (abs_fs f') 0)"
    using getattr_ok(1) [OF assms] by metis
qed (use getattr_ok(2) [OF assms] getattr_ok(3) [OF assms] in \<open>intro allI impI conjI, simp, metis\<close>)

theorem getattr_file_witness:
  "(\<exists>s' st. sfs_getattr ex_env (SLASH # ex_name) ex_state = Some ((0, Some st), s') \<and> st_ino st = 2 \<and> st_size st = 512) \<and>
    sfs_getattr (ex_env\<lparr>freed := \<lambda>n. 0\<rparr>) (SLASH # ex_name) ex_state = None"
proof
  have n: "names ex_abs ex_name = Some 2" "freed ex_env 2 = 2" "valid_ino (superblock ex_fs) 2"
    by (simp_all add: ex_names ex_env_ok(3) ex_valid_ino)
  with getattr_file [OF ex_ready ex_env_ok(1) ex_name_proper]
  have "\<exists>s' f'. sfs_getattr ex_env (SLASH # ex_name) ex_state = Some ((0, Some (sfs_fs_inode_to_stat (a_inode (abs_fs f') 2))), s') \<and>
      a_inode (abs_fs f') 2 = a_inode ex_abs 2" by fastforce
  then show "\<exists>s' st. sfs_getattr ex_env (SLASH # ex_name) ex_state = Some ((0, Some st), s') \<and> st_ino st = 2 \<and> st_size st = 512"
    by (auto simp: ex_a_inode ex_ptrs sfs_fs_inode_to_stat_def)
  have "env_ok (ex_env\<lparr>freed := \<lambda>n. 0\<rparr>)" using ex_env_ok(1) by (simp add: env_ok_def)
  from getattr_file [OF ex_ready this ex_name_proper] n(1)
  show "sfs_getattr (ex_env\<lparr>freed := \<lambda>n. 0\<rparr>) (SLASH # ex_name) ex_state = None" by simp
qed

section \<open>The contents of files\<close>

text \<open>
  C18. A file that is open when its name is removed can still be read through its descriptor; releasing the
  descriptor frees the inode exactly if no other one is open on it.
\<close>

theorem unlinked_file:
  assumes "good s f p" and "names (abs_fs f) nm = Some n" and "in_use p k" and "slot_cell (get_slot p k) = Inumber n"
    and "proper_name nm" and "env_full env" and "transfer_ok off sz buf"
  shows "\<exists>s1 s2 s3 f3 p3. sfs_unlink env (SLASH # nm) s = Some (0, s1) \<and>
    sfs_read buf (of_nat sz) (int off) (handle fi k) s1 = Some ((int sz, Some (take sz (drop off (file_bytes (abs_fs f) n)) @ drop sz buf)), s2) \<and>
    sfs_release (handle fi k) s2 = Some (0, s3) \<and> good s3 f3 p3 \<and> (used (abs_fs f3) n \<longleftrightarrow> fds_on p n \<noteq> {k})"
proof -
  obtain s1 s2 s3 f3 p3 where 1: "serve env (Unlink nm) s = Some (Status 0, s1)"
    "serve env (Read fi k off sz buf) s1 = Some (Data (int sz) (Some (take sz (drop off (file_bytes (abs_fs f) n)) @ drop sz buf)), s2)"
    "serve env (Release fi k) s2 = Some (Status 0, s3)" "good s3 f3 p3" "used (abs_fs f3) n \<longleftrightarrow> fds_on p n \<noteq> {k}"
    using unlinked_file_life [OF assms] by blast
  have "sfs_unlink env (SLASH # nm) s = Some (0, s1)" "sfs_release (handle fi k) s2 = Some (0, s3)"
    "sfs_read buf (of_nat sz) (int off) (handle fi k) s1 = Some ((int sz, Some (take sz (drop off (file_bytes (abs_fs f) n)) @ drop sz buf)), s2)"
    using 1(1-3) by auto
  then show ?thesis using 1(4,5) by blast
qed

theorem unlinked_file_witness:
  "\<exists>k s s1 s2 s3 f3. sfs_open ex_env (SLASH # ex_name) ex_fi ex_state = Some ((0, handle ex_fi k), s) \<and>
    sfs_unlink ex_env (SLASH # ex_name) s = Some (0, s1) \<and>
    sfs_read (replicate 512 0) 512 0 (handle ex_fi k) s1 = Some ((512, Some ex_data), s2) \<and>
    sfs_release (handle ex_fi k) s2 = Some (0, s3) \<and> \<not> used (abs_fs f3) 2"
proof -
  obtain k s f p where 1: "sfs_open ex_env (SLASH # ex_name) ex_fi ex_state = Some ((0, handle ex_fi k), s)" "good s f p"
    "in_use p k" "slot_cell (get_slot p k) = Inumber 2" "names (abs_fs f) = names ex_abs"
    "file_bytes (abs_fs f) 2 = file_bytes ex_abs 2" "fds_on p 2 = {k}"
    by (rule ex_opened)
  have n: "names (abs_fs f) ex_name = Some 2" using 1(5) by (simp add: ex_names)
  have t: "transfer_ok 0 512 (replicate 512 0)" by (simp add: transfer_ok_def regular_def)
  from unlinked_file [OF 1(2) n 1(3,4) ex_name_proper ex_env_ok(2) t, of ex_fi] 1(1,6,7) show ?thesis
    by (auto simp: ex_bytes)
qed

text \<open>
  C19. A write inside the blocks a file can have, from a buffer of the size asked for and with room for its blocks,
  does exactly what \<open>write_outcome\<close> says of the bytes of the file, for every offset and size: regular writes
  store what they are given where they are asked to, others store the wrong part of the buffer or what was on the
  stack, or read outside the buffer. The size grows if needed, and nothing else on the volume changes.
\<close>

theorem write_every_request:
  assumes "sys_ok s f p" and "in_use p k" and "slot_cell (get_slot p k) = Inumber n" and "n \<noteq> 1"
    and "1 \<le> sz" and "off + sz \<le> MAX_FILE" and "length buf = sz" and "room_for (abs_fs f) n off sz"
    and "length (stack_block env) = BLOCK_SIZE"
  shows "case write_outcome off sz (file_bytes (abs_fs f) n) buf (stack_block env) of
      None \<Rightarrow> sfs_write env buf (of_nat sz) (int off) (handle fi k) s = None
    | Some F \<Rightarrow> \<exists>s' f'. sfs_write env buf (of_nat sz) (int off) (handle fi k) s = Some (int sz, s') \<and>
        sys_ok s' f' p \<and> names (abs_fs f') = names (abs_fs f) \<and> only_changes (abs_fs f) (abs_fs f') n \<and>
        unat (isize (a_inode (abs_fs f') n)) = max (unat (isize (a_inode (abs_fs f) n))) (off + sz) \<and> file_bytes (abs_fs f') n = F"
  by (rule sfs_write_outcome [OF assms(1-6)]) (use assms(7-9) in simp_all)

theorem write_every_request_witness:
  "\<exists>k s s1 f1 s2 f2. sfs_open ex_env (SLASH # ex_name) ex_fi ex_state = Some ((0, handle ex_fi k), s) \<and>
    sfs_write ex_env [104, 105] 2 0 (handle ex_fi k) s = Some (2, s1) \<and>
    file_bytes (abs_fs f1) 2 = [104, 105] @ drop 2 (file_bytes ex_abs 2) \<and> isize (a_inode (abs_fs f1) 2) = 512 \<and>
    sfs_write ex_env [104, 105] 2 1 (handle ex_fi k) s = Some (2, s2) \<and>
    file_bytes (abs_fs f2) 2 = stack_block ex_env @ drop 512 (file_bytes ex_abs 2)"
proof -
  obtain k s f p where 1: "sfs_open ex_env (SLASH # ex_name) ex_fi ex_state = Some ((0, handle ex_fi k), s)" "good s f p"
    "in_use p k" "slot_cell (get_slot p k) = Inumber 2" "block_pointers (a_inode (abs_fs f) 2) = block_pointers ex_file"
    "isize (a_inode (abs_fs f) 2) = 512" "file_bytes (abs_fs f) 2 = file_bytes ex_abs 2"
    by (rule ex_opened)
  have so: "sys_ok s f p" "(2 :: u64) \<noteq> 1" using 1(2) by (simp_all add: good_def)
  have h: "1 \<le> (2 :: nat)" "0 + 2 \<le> MAX_FILE" "1 + 2 \<le> MAX_FILE" "length [104 :: u8, 105] = 2" "length (stack_block ex_env) = BLOCK_SIZE"
    "room_for (abs_fs f) 2 0 2" "room_for (abs_fs f) 2 1 2"
    using ex_room [OF 1(5)] by (simp_all add: room_for_def needed_def ex_env_def)
  have o: "write_outcome 0 2 F [104, 105] t = Some ([104, 105] @ drop 2 F)" "write_outcome 1 2 F [104, 105] t = Some (t @ drop 512 F)" for F t
    by (simp_all add: write_outcome_def Let_def numeral_2_eq_2)
  from write_every_request [OF so(1) 1(3,4) so(2) h(1,2,4,6,5), of ex_fi] obtain s1 f1 where
    2: "sfs_write ex_env [104, 105] 2 0 (handle ex_fi k) s = Some (2, s1)"
    "file_bytes (abs_fs f1) 2 = [104, 105] @ drop 2 (file_bytes ex_abs 2)" "unat (isize (a_inode (abs_fs f1) 2)) = 512"
    unfolding o using 1(6,7) by auto
  from write_every_request [OF so(1) 1(3,4) so(2) h(1,3,4,7,5), of ex_fi] obtain s2 f2 where
    3: "sfs_write ex_env [104, 105] 2 1 (handle ex_fi k) s = Some (2, s2)"
    "file_bytes (abs_fs f2) 2 = stack_block ex_env @ drop 512 (file_bytes ex_abs 2)"
    unfolding o using 1(7) by auto
  have "isize (a_inode (abs_fs f1) 2) = 512" using 2(3) by (simp add: word_unat_eq_iff)
  then show ?thesis using 1(1) 2(1,2) 3 by blast
qed

text \<open>
  C20. A read inside the blocks a file can have, into a buffer of the size asked for, does exactly what \<open>read_outcome\<close> says of the
  bytes of the file: the result and the buffer for every offset and size, and for which of them the code
  writes outside the buffer. The size of the file plays no part in it.
\<close>

theorem read_every_request:
  assumes "sys_ok s f p" and "in_use p k" and "slot_cell (get_slot p k) = Inumber n" and "n \<noteq> 1"
    and "1 \<le> sz" and "off + sz \<le> MAX_FILE" and "length buf = sz"
  shows "case read_outcome off sz (file_bytes (abs_fs f) n) buf of
      None \<Rightarrow> sfs_read buf (of_nat sz) (int off) (handle fi k) s = None
    | Some b \<Rightarrow> \<exists>s' f'. sfs_read buf (of_nat sz) (int off) (handle fi k) s = Some ((int sz, Some b), s') \<and>
        sys_ok s' f' p \<and> names (abs_fs f') = names (abs_fs f) \<and> only_changes (abs_fs f) (abs_fs f') n \<and>
        isize (a_inode (abs_fs f') n) = isize (a_inode (abs_fs f) n) \<and> file_bytes (abs_fs f') n = file_bytes (abs_fs f) n"
  using sfs_read_outcome [OF assms, of fi] by (auto split: option.split)

theorem read_every_request_witness:
  "\<exists>k s s'. sfs_open ex_env (SLASH # ex_name) ex_fi ex_state = Some ((0, handle ex_fi k), s) \<and>
    sfs_read [0, 0, 0] 3 0 (handle ex_fi k) s = Some ((3, Some [7, 7, 7]), s') \<and>
    sfs_read (replicate 512 0) 512 512 (handle ex_fi k) s = None"
proof -
  obtain k s f p where 1: "sfs_open ex_env (SLASH # ex_name) ex_fi ex_state = Some ((0, handle ex_fi k), s)" "good s f p"
    "in_use p k" "slot_cell (get_slot p k) = Inumber 2" "file_bytes (abs_fs f) 2 = file_bytes ex_abs 2"
    by (rule ex_opened)
  have so: "sys_ok s f p" "(2 :: u64) \<noteq> 1" using 1(2) by (simp_all add: good_def)
  have a: "1 \<le> (3 :: nat)" "0 + 3 \<le> MAX_FILE" "length [0 :: u8, 0, 0] = 3" by simp_all
  have b: "1 \<le> (512 :: nat)" "512 + 512 \<le> MAX_FILE" "length (replicate 512 (0 :: u8)) = 512" by simp_all
  have "regular 0 3" by (simp add: regular_def)
  moreover have "take 3 (drop 0 (file_bytes (abs_fs f) 2)) = replicate 3 7" unfolding 1(5) ex_file_bytes by (simp add: min_def)
  moreover have "replicate 3 (7 :: u8) = [7, 7, 7]" by (simp add: numeral_3_eq_3)
  ultimately have "read_outcome 0 3 (file_bytes (abs_fs f) 2) [0, 0, 0] = Some [7, 7, 7]" by (simp only: regular_outcome)
  with read_every_request [OF so(1) 1(3,4) so(2) a, of ex_fi] obtain s' where
    "sfs_read [0, 0, 0] 3 0 (handle ex_fi k) s = Some ((3, Some [7, 7, 7]), s')" by auto
  moreover have "read_outcome 512 512 F (replicate 512 0) = None" for F by (simp add: read_outcome_def)
  with read_every_request [OF so(1) 1(3,4) so(2) b, of ex_fi]
  have "sfs_read (replicate 512 0) 512 512 (handle ex_fi k) s = None" by simp
  ultimately show ?thesis using 1(1) by blast
qed

text \<open>
  C21. What is written by a regular request is read back by the same request through any descriptor on the file.
\<close>

theorem write_read:
  assumes "sys_ok s f p" and "in_use p k" and "slot_cell (get_slot p k) = Inumber n" and "n \<noteq> 1"
    and "in_use p k'" and "slot_cell (get_slot p k') = Inumber n"
    and "transfer_ok off sz buf" and "sz \<le> length buf'" and "room_for (abs_fs f) n off sz"
  shows "\<exists>s' f' s''. sfs_write env buf (of_nat sz) (int off) (handle fi k) s = Some (int sz, s') \<and> sys_ok s' f' p \<and>
    sfs_read buf' (of_nat sz) (int off) (handle fi' k') s' = Some ((int sz, Some (take sz buf @ drop sz buf')), s'')"
  using assms(7,9) by (intro regular_read_back [OF assms(1-6) _ _ _ assms(8)]) (simp_all add: transfer_ok_def)

theorem write_read_witness:
  "\<exists>k s s' s''. sfs_open ex_env (SLASH # ex_name) ex_fi ex_state = Some ((0, handle ex_fi k), s) \<and>
    sfs_write ex_env [104, 105] 2 0 (handle ex_fi k) s = Some (2, s') \<and>
    sfs_read [0, 0, 0] 2 0 (handle ex_fi k) s' = Some ((2, Some [104, 105, 0]), s'')"
proof -
  obtain k s f p where 1: "sfs_open ex_env (SLASH # ex_name) ex_fi ex_state = Some ((0, handle ex_fi k), s)" "good s f p"
    "in_use p k" "slot_cell (get_slot p k) = Inumber 2" "block_pointers (a_inode (abs_fs f) 2) = block_pointers ex_file"
    by (rule ex_opened)
  have h: "transfer_ok 0 2 [104, 105]" "2 \<le> length [0 :: u8, 0, 0]" "room_for (abs_fs f) 2 0 2"
    using ex_room [OF 1(5)] by (simp_all add: room_for_def needed_def transfer_ok_def regular_def)
  have so: "sys_ok s f p" "(2 :: u64) \<noteq> 1" using 1(2) by (simp_all add: good_def)
  from write_read [OF so(1) 1(3,4) so(2) 1(3,4) h, of ex_env ex_fi ex_fi] 1(1) show ?thesis by auto
qed

text \<open>
  C22. A read is right when it returns what the file has from the offset on, up to the size of the request and no further
  than the end of the file, as the comment of \<^verbatim>\<open>sfs_read\<close> says (\<open>read_right\<close>). For files of a given size the requests
  that are served right whatever the file holds are exactly those that end inside the file and are regular: less than one
  block from the start of a block, or whole blocks from the start of the file.
\<close>

theorem read_right_iff_regular:
  assumes "1 \<le> sz" and "off + sz \<le> MAX_FILE"
  shows "(\<forall>s f p k n fi buf. sys_ok s f p \<and> in_use p k \<and> slot_cell (get_slot p k) = Inumber n \<and> n \<noteq> 1 \<and>
      isize (a_inode (abs_fs f) n) = l \<and> length buf = sz \<longrightarrow> read_right s f n (handle fi k) off sz buf)
    \<longleftrightarrow> regular off sz \<and> off + sz \<le> unat l"
  (is "?all \<longleftrightarrow> _")
proof
  assume all: ?all
  obtain k s0 f0 p where 0: "good s0 f0 p" "in_use p k" "slot_cell (get_slot p k) = Inumber 2"
    "file_bytes (abs_fs f0) 2 = replicate 512 7 @ replicate 38400 0"
    using ex_opened unfolding ex_file_bytes by metis
  have "sys_ok s0 f0 p" using 0(1) by (simp add: good_def)
  then obtain s f where 1: "sys_ok s f p" "isize (a_inode (abs_fs f) 2) = l"
    "file_bytes (abs_fs f) 2 = replicate 512 7 @ replicate 38400 0"
    using resized [OF _ 0(2,3), of s0 f0 l] 0(4) by auto
  let ?F = "file_bytes (abs_fs f) 2" and ?buf = "replicate sz (1 :: u8)"
  have b: "(2 :: u64) \<noteq> 1" "length ?buf = sz" by simp_all
  have "read_right s f 2 (handle ex_fi k) off sz ?buf" using all 1(1,2) 0(2,3) b by blast
  then obtain s' where r: "sfs_read ?buf (of_nat sz) (int off) (handle ex_fi k) s =
      Some ((int (min sz (unat l - off)), Some (take (min sz (unat l - off)) (drop off ?F) @ drop (min sz (unat l - off)) ?buf)), s')"
    using 1(2) by (auto simp: read_right_def Let_def)
  obtain s2 where "sfs_read ?buf (of_nat sz) (int off) (handle ex_fi k) s =
      map_option (\<lambda>b. ((int sz, Some b), s2)) (read_outcome off sz ?F ?buf)"
    using sfs_read_outcome [OF 1(1) 0(2,3) b(1) assms b(2), of ex_fi] by blast
  with r have m: "min sz (unat l - off) = sz" "read_outcome off sz ?F ?buf = Some (take sz (drop off ?F))" by auto
  have "regular off sz" using m(2) irregular_outcome [OF assms, of 7 0 1] unfolding 1(3) by auto
  moreover have "off + sz \<le> unat l" using m(1) assms(1) by linarith
  ultimately show "regular off sz \<and> off + sz \<le> unat l" ..
next
  assume r: "regular off sz \<and> off + sz \<le> unat l"
  then have "min sz (unat l - off) = sz" by linarith
  then show ?all using r sfs_read_regular [OF _ _ _ _ assms] by (fastforce simp: read_right_def Let_def)
qed

theorem read_right_iff_regular_witness:
  "\<not> (\<forall>s f p k n fi buf. sys_ok s f p \<and> in_use p k \<and> slot_cell (get_slot p k) = Inumber n \<and> n \<noteq> 1 \<and>
      isize (a_inode (abs_fs f) n) = 600 \<and> length buf = 600 \<longrightarrow> read_right s f n (handle fi k) 0 600 buf)"
  using read_right_iff_regular [of 600 0 600] by (simp add: regular_def)

text \<open>
  C23. A regular write that meets a hole, block \<open>h\<close> of the file, after the last free block has been taken reports an
  error: the blocks before \<open>h\<close> are stored, the others are as they were, and the file still has the size it
  would have had.
\<close>

theorem write_out_of_space:
  assumes "sys_ok s f p" and "in_use p k" and "slot_cell (get_slot p k) = Inumber n" and "n \<noteq> 1"
    and "1 \<le> sz" and "off + sz \<le> MAX_FILE" and "sz \<le> length buf" and "regular off sz"
    and "off div 512 \<le> h" and "h \<le> (off + sz - 1) div 512" and "fptr (abs_fs f) (a_inode (abs_fs f) n) h = 0"
    and "off div 512 < h \<Longrightarrow> 12 < h \<Longrightarrow> block_pointers (a_inode (abs_fs f) n) ! 12 \<noteq> 0"
    and "card (holes (abs_fs f) (a_inode (abs_fs f) n) (off div 512) h) = card (free_blocks (abs_fs f))"
  shows "\<exists>s' f'. sfs_write env buf (of_nat sz) (int off) (handle fi k) s = Some (-1, s') \<and>
    sys_ok s' f' p \<and> names (abs_fs f') = names (abs_fs f) \<and> only_changes (abs_fs f) (abs_fs f') n \<and>
    unat (isize (a_inode (abs_fs f') n)) = max (unat (isize (a_inode (abs_fs f) n))) (off + sz) \<and>
    file_bytes (abs_fs f') n = take off (file_bytes (abs_fs f) n) @ take (512 * h - off) buf @ drop (512 * h) (file_bytes (abs_fs f) n)"
  by (rule sfs_write_hole [OF assms])

theorem write_out_of_space_witness:
  "\<exists>k s s' f'. sfs_open ex_env (SLASH # ex_name) ex_fi ex_state = Some ((0, handle ex_fi k), s) \<and>
    sfs_write ex_env (replicate 2560 9) 2560 0 (handle ex_fi k) s = Some (-1, s') \<and>
    isize (a_inode (abs_fs f') 2) = 2560 \<and> file_bytes (abs_fs f') 2 = replicate 2048 9 @ replicate 36864 0"
proof -
  obtain k s f p where 1: "sfs_open ex_env (SLASH # ex_name) ex_fi ex_state = Some ((0, handle ex_fi k), s)" "good s f p"
    "in_use p k" "slot_cell (get_slot p k) = Inumber 2" "block_pointers (a_inode (abs_fs f) 2) = block_pointers ex_file"
    "isize (a_inode (abs_fs f) 2) = 512" "file_bytes (abs_fs f) 2 = file_bytes ex_abs 2" "free_blocks (abs_fs f) = {3, 6, 7}"
    by (rule ex_opened)
  have so: "sys_ok s f p" "(2 :: u64) \<noteq> 1" using 1(2) by (simp_all add: good_def)
  have h: "1 \<le> (2560 :: nat)" "0 + 2560 \<le> MAX_FILE" "2560 \<le> length (replicate 2560 (9 :: u8))" "regular 0 2560"
    "0 div 512 \<le> (4 :: nat)" "4 \<le> (0 + 2560 - 1) div (512 :: nat)" "fptr (abs_fs f) (a_inode (abs_fs f) 2) 4 = 0"
    using ex_fptr(1) [of "a_inode (abs_fs f) 2" 5 "abs_fs f" 4] 1(5) by (simp_all add: regular_def ex_ptrs)
  have i: "12 < (4 :: nat) \<Longrightarrow> block_pointers (a_inode (abs_fs f) 2) ! 12 \<noteq> 0" by simp
  have c: "card (holes (abs_fs f) (a_inode (abs_fs f) 2) (0 div 512) 4) = card (free_blocks (abs_fs f))"
    using ex_room [OF 1(5), of 4] 1(8) by simp
  have "drop 2048 (file_bytes ex_abs 2) = replicate 36864 0" unfolding ex_file_bytes by simp
  with write_out_of_space [OF so(1) 1(3,4) so(2) h i c, of ex_env ex_fi] 1(6,7) obtain s' f' where
    2: "sfs_write ex_env (replicate 2560 9) 2560 0 (handle ex_fi k) s = Some (-1, s')"
    "unat (isize (a_inode (abs_fs f') 2)) = 2560" "file_bytes (abs_fs f') 2 = replicate 2048 9 @ replicate 36864 0"
    by auto
  have "isize (a_inode (abs_fs f') 2) = 2560" using 2(2) by (simp add: word_unat_eq_iff)
  then show ?thesis using 1(1) 2(1,3) by blast
qed

section \<open>The directory\<close>

text \<open>
  C24. \<^verbatim>\<open>sfs_readdir\<close> gives the filler the two dots and then every name of the directory exactly once, each with the
  attributes of its file, until the filler's buffer is full.
\<close>

theorem readdir_lists:
  assumes "sys_ok s f p" and "env_ok env"
  shows "\<exists>s' f' es. sfs_readdir env filler [SLASH] buf s =
      Some ((0, fill filler buf (([DOT], None) # ([DOT, DOT], None) # es)), s') \<and> sys_ok s' f' p \<and>
    names (abs_fs f') = names (abs_fs f) \<and> only_changes (abs_fs f) (abs_fs f') 1 \<and>
    distinct (map fst es) \<and> set (map fst es) = dom (names (abs_fs f)) \<and>
    (\<forall>(nm, st)\<in>set es. \<exists>n. names (abs_fs f) nm = Some n \<and> st = Some (sfs_fs_inode_to_stat (a_inode (abs_fs f) n)))"
proof -
  note l = listing_names [OF sys_okD(8) [OF assms(1)]]
  have "\<forall>(nm, st)\<in>set (listing (abs_fs f) 0). \<exists>n. names (abs_fs f) nm = Some n \<and>
      st = Some (sfs_fs_inode_to_stat (a_inode (abs_fs f) n))"
    using l(3) by blast
  with l(1,2) sfs_readdir_root [OF assms, of filler buf] show ?thesis by blast
qed

theorem readdir_lists_witness:
  "\<exists>s' es. sfs_readdir ex_env collect [SLASH] [] ex_state = Some ((0, ([DOT], None) # ([DOT, DOT], None) # es), s') \<and>
    set (map fst es) = {ex_name}"
proof -
  have "dom (names ex_abs) = {ex_name}" by (auto simp: dom_def ex_names)
  moreover obtain s' es where
    "sfs_readdir ex_env collect [SLASH] [] ex_state = Some ((0, fill collect [] (([DOT], None) # ([DOT, DOT], None) # es)), s')"
    "set (map fst es) = dom (names ex_abs)"
    using readdir_lists [OF ex_sys_ok ex_env_ok(1), of collect "[]"] by (elim exE conjE)
  ultimately show ?thesis
    by - (rule exI [of _ s'], rule exI [of _ es], simp only: fill_collect append_Nil simp_thms)
qed

text \<open>
  C25. Opening the root directory opens a descriptor on it and leaves its link count; releasing it returns
  the descriptor and takes one link away, so that every pair of the two costs the root a link.
\<close>

theorem opendir_releasedir:
  assumes "sys_ok s f p" and "env_full env" and "names (abs_fs f) [] = None" and "free_fds p \<noteq> {}"
  shows "\<exists>k s1 f1 p1 s2 f2. sfs_opendir env [SLASH] fi s = Some ((0, handle fi k), s1) \<and> sys_ok s1 f1 p1 \<and> fd_added p p1 k 1 \<and>
    links (root (abs_fs f1)) = links (root (abs_fs f)) \<and>
    sfs_releasedir (handle fi k) s1 = Some (0, s2) \<and> sys_ok s2 f2 (sfs_filedescriptor_free p1 k) \<and>
    names (abs_fs f2) = names (abs_fs f) \<and> links (root (abs_fs f2)) = links (root (abs_fs f)) - 1"
proof -
  obtain k s1 f1 p1 where 1: "sfs_opendir env [SLASH] fi s = Some ((0, handle fi k), s1)" "sys_ok s1 f1 p1"
    "names (abs_fs f1) = names (abs_fs f)" "links (root (abs_fs f1)) = links (root (abs_fs f))" "fd_added p p1 k 1"
    using sfs_opendir_root [OF assms, of fi] by blast
  then have "in_use p1 k" "slot_cell (get_slot p1 k) = Inumber 1" by (simp_all add: fd_added_def)
  from sfs_releasedir_root [OF 1(2) this, of fi] obtain s2 f2 where 2: "sfs_releasedir (handle fi k) s1 = Some (0, s2)"
    "sys_ok s2 f2 (sfs_filedescriptor_free p1 k)" "names (abs_fs f2) = names (abs_fs f1)"
    "links (root (abs_fs f2)) = links (root (abs_fs f1)) - 1"
    by blast
  show ?thesis
    by (rule exI [of _ k], rule exI [of _ s1], rule exI [of _ f1], rule exI [of _ p1], rule exI [of _ s2], rule exI [of _ f2])
      (simp only: 1 2 simp_thms)
qed

theorem opendir_releasedir_witness:
  "\<exists>k s1 s2 f2. sfs_opendir ex_env [SLASH] ex_fi ex_state = Some ((0, handle ex_fi k), s1) \<and>
    sfs_releasedir (handle ex_fi k) s1 = Some (0, s2) \<and> links (root (abs_fs f2)) = 0"
proof -
  have "names ex_abs [] = None" "free_fds ex_pool \<noteq> {}" by (simp_all add: ex_names ex_name_def ex_pool_ok)
  from opendir_releasedir [OF ex_sys_ok ex_env_ok(2) this, of ex_fi] obtain k s1 s2 f2 where
    "sfs_opendir ex_env [SLASH] ex_fi ex_state = Some ((0, handle ex_fi k), s1)"
    "sfs_releasedir (handle ex_fi k) s1 = Some (0, s2)" "links (root (abs_fs f2)) = links (root ex_abs) - 1"
    by blast
  moreover have "links (root ex_abs) - 1 = 0" by (simp add: ex_a_inode ex_ptrs)
  ultimately show ?thesis by metis
qed

text \<open>
  C26. \<^verbatim>\<open>sfs_opendir\<close> on any path but the root returns \<^verbatim>\<open>ENOENT\<close> with the mutex locked: after it no handler that takes the
  mutex returns, the unmounting included. \<^verbatim>\<open>sfs_mkdir\<close> and \<^verbatim>\<open>sfs_rmdir\<close> take none.
\<close>

theorem opendir_stuck:
  assumes "\<not> st_locked s" and "path \<noteq> [SLASH]"
  shows "\<exists>s'. sfs_opendir env path fi s = Some ((- ENOENT, fi), s') \<and> st_locked s' \<and>
    sfs_init mp ms addr mem ok fok usr grp s' = None \<and> sfs_destroy s' = None \<and> sfs_getattr env' path' s' = None \<and>
    sfs_create env' path' cmode fi' s' = None \<and> sfs_unlink env' path' s' = None \<and> sfs_open env' path' fi' s' = None \<and>
    sfs_release fi' s' = None \<and> sfs_read buf sz off fi' s' = None \<and> sfs_write env' buf sz off fi' s' = None \<and>
    sfs_opendir env' path' fi' s' = None \<and> sfs_readdir env' filler path' b s' = None \<and> sfs_releasedir fi' s' = None"
  using sfs_opendir_stuck [OF assms] locked_stuck [of "s\<lparr>st_locked := True\<rparr>"] by simp

theorem opendir_stuck_witness:
  "\<exists>s'. sfs_opendir ex_env [SLASH, 97] ex_fi ex_state = Some ((- ENOENT, ex_fi), s') \<and> sfs_getattr ex_env [SLASH] s' = None \<and>
    sfs_destroy s' = None"
proof -
  have "\<not> st_locked ex_state" "[SLASH, 97] \<noteq> [SLASH]" by (simp_all add: ex_state_def)
  from opendir_stuck [OF this, where env = ex_env and fi = ex_fi and mp = True and ms = None and addr = "\<lambda>k. 0" and mem = None
      and ok = "\<lambda>t. True" and fok = True and usr = 0 and grp = 0 and env' = ex_env and path' = "[SLASH]" and cmode = 0 and fi' = ex_fi
      and buf = "[]" and sz = 0 and off = 0 and filler = collect and b = "[]"]
  show ?thesis by blast
qed

section \<open>Storage\<close>

text \<open>
  C27. The inode cache is invisible: any sequence of reads and writes of inodes, through cache misses, write-backs and
  refills, reads what a function from numbers to inodes would give, leaves the table as such a function, and
  changes neither the superblock nor any block of the data area.
\<close>

theorem inode_store_refines:
  assumes "fs_ok fs" and "\<forall>a\<in>set as. valid_ino (superblock fs) (access_key a) \<and> proper_access (\<lambda>n i. wf_inode i \<and> inumber i = n) a"
  shows "\<exists>fs'. accesses inode_fetch inode_assign fs as = Some (values_read (a_inode (abs_fs fs)) as, fs') \<and> fs_ok fs' \<and>
    a_super (abs_fs fs') = a_super (abs_fs fs) \<and> a_block (abs_fs fs') = a_block (abs_fs fs) \<and>
    (\<forall>n. valid_ino (superblock fs) n \<longrightarrow> a_inode (abs_fs fs') n = assigned (a_inode (abs_fs fs)) as n)"
  using inode_table.accesses_ok [OF assms] by auto

theorem inode_store_refines_witness:
  "\<exists>fs'. accesses inode_fetch inode_assign ex_fs [Assign 2 (ex_file\<lparr>links := 7\<rparr>), Fetch 1, Fetch 2] =
      Some ([ex_root, ex_file\<lparr>links := 7\<rparr>], fs') \<and> a_inode (abs_fs fs') 2 = ex_file\<lparr>links := 7\<rparr>"
proof -
  have "\<forall>a\<in>set [Assign 2 (ex_file\<lparr>links := 7\<rparr>), Fetch 1, Fetch 2].
      valid_ino (superblock ex_fs) (access_key a) \<and> proper_access (\<lambda>n i. wf_inode i \<and> inumber i = n) a" "valid_ino (superblock ex_fs) 2"
    by (simp_all add: ex_valid_ino ex_ptrs)
  then show ?thesis using inode_store_refines [OF ex_fs_ok] by (fastforce simp: ex_a_inode)
qed

section \<open>Formatting\<close>

text \<open>
  C28. On a disk that works, of at least three blocks, \<^verbatim>\<open>format_fs\<close> either writes superblock, inode table and the
  full blocks of the free space index, or stops with a failed assertion: it stops exactly if no block is
  left for the free space or the last index block would have no entry but be needed by the count.
\<close>

theorem format_outcome:
  assumes "wf_os d" and "no_faults d" and "3 \<le> file_size d div 512" and "file_size d div 512 \<le> 2 ^ 54"
  shows "if format_size_ok (file_size d div 512)
    then \<exists>sb d'. format_fs d True usr grp = Some (Some sb, d') \<and> formatted d usr grp sb d'
    else format_fs d True usr grp = None"
  using format_fs_ok [OF assms] by simp

theorem format_outcome_witness:
  "format_fs (zero_os\<lparr>file_size := 1536\<rparr>) True 0 0 = None \<and> (\<exists>sb d'. format_fs zero_os True 0 0 = Some (Some sb, d'))"
proof -
  have n: "\<not> format_size_ok 3" by (simp add: format_size_ok_def fmt_free_def fmt_head_def fmt_itb_def)
  have z: "wf_os (zero_os\<lparr>file_size := 1536\<rparr>)" "no_faults (zero_os\<lparr>file_size := 1536\<rparr>)" "wf_os zero_os" "no_faults zero_os"
    "format_size_ok (file_size zero_os div 512)"
    using zero_os_ok(1) by (simp_all add: zero_disk_def wf_os_def no_faults_def)
  show ?thesis
    using format_outcome [OF z(1,2), of 0 0] format_outcome [OF z(3,4), of 0 0] n z(5) by (auto simp: zero_os_ok)
qed

text \<open>
  C29. The list of free inodes of a formatted volume ends at the number after the table. When it is used up, and the block
  behind the table holds zeros, a block that the formatter never gives to the free space, \<^verbatim>\<open>sfs_fs_inode_allocate\<close> does not
  report it: it returns an inode with number 0, read from that block, and \<^verbatim>\<open>sfs_create\<close> of a new name stops with a failed
  assertion.
\<close>

theorem inode_exhaustion:
  assumes "ready s f" and "env_ok env" and "proper_name nm" and "names (abs_fs f) nm = None"
    and "free_inode_head (superblock f) = 3 * inode_table_blocks (superblock f) + 1"
    and "valid_block (superblock f) (inode_table_blocks (superblock f) + 1)"
    and "a_block (abs_fs f) (inode_table_blocks (superblock f) + 1) = zero_block"
  shows "(\<exists>f'. sfs_fs_inode_allocate f = Some (Some (empty_inode 0), f')) \<and> sfs_create env (SLASH # nm) cmode fi s = None"
  using create_used_up [OF assms] by simp

theorem inode_exhaustion_witness: "sfs_create ex_env (SLASH # [98]) 0x1A4 ex_fi full_state = None"
proof -
  have n: "proper_name [98]" "names (abs_fs full_fs) [98] = None"
    by (simp_all add: proper_name_def c_string_def full_names ex_names ex_name_def del: full_abs)
  have t: "inode_table_blocks full_super = 1" by (simp add: full_super_def ex_super_def)
  have h: "free_inode_head (superblock full_fs) = 3 * inode_table_blocks (superblock full_fs) + 1"
    "valid_block (superblock full_fs) (inode_table_blocks (superblock full_fs) + 1)"
    "a_block (abs_fs full_fs) (inode_table_blocks (superblock full_fs) + 1) = zero_block"
    using ex_a_block [of 2] by (simp_all add: t) (simp_all add: full_super_def ex_super_def ex_blocks_def)
  from inode_exhaustion [OF full_ready ex_env_ok(1) n h] show ?thesis by simp
qed

section \<open>Allocators\<close>

text \<open>
  C30. The block allocator delivers exactly the free space: \<open>k\<close> allocations in a row succeed if and only
  if at least \<open>k\<close> blocks are free, index blocks counted; then the blocks are distinct and were free.
\<close>

theorem blocks_exact:
  assumes "alloc_ok fs"
  shows "((\<exists>bs fs'. alloc_many block_alloc k fs = Some (bs, fs')) \<longleftrightarrow> k \<le> card (free_blocks (abs_fs fs))) \<and>
    (k \<le> card (free_blocks (abs_fs fs)) \<longrightarrow>
      (\<exists>bs fs'. alloc_many block_alloc k fs = Some (bs, fs') \<and> alloc_ok fs' \<and> length bs = k \<and> distinct bs \<and>
        set bs \<subseteq> free_blocks (abs_fs fs) \<and> free_blocks (abs_fs fs') = free_blocks (abs_fs fs) - set bs))"
proof -
  have "finite (free_blocks (abs_fs fs))" using assms by (elim alloc_okE) simp
  from blocks_alloc.alloc_many_exact [OF assms this] blocks_alloc.alloc_many_distinct [OF assms] show ?thesis by blast
qed

theorem blocks_exact_witness:
  "(\<exists>bs fs'. alloc_many block_alloc 3 ex_fs = Some (bs, fs') \<and> set bs = {3, 6, 7}) \<and> alloc_many block_alloc 4 ex_fs = None"
proof -
  have c: "finite (free_blocks ex_abs)" "card (free_blocks ex_abs) = 3" by (simp_all add: ex_free_blocks)
  from blocks_exact [OF ex_alloc_ok(1), of 3] c obtain bs fs' where
    "alloc_many block_alloc 3 ex_fs = Some (bs, fs')" "length bs = 3" "distinct bs" "set bs \<subseteq> {3, 6, 7}"
    by (auto simp: ex_free_blocks)
  moreover then have "set bs = {3, 6, 7}" by (intro card_subset_eq) (simp_all add: distinct_card)
  moreover have "alloc_many block_alloc 4 ex_fs = None"
    using blocks_exact [OF ex_alloc_ok(1), of 4] c by (cases "alloc_many block_alloc 4 ex_fs") auto
  ultimately show ?thesis by blast
qed

text \<open>
  C31. Freeing a block that is in use makes exactly that block free, whether there is room for it in an index block,
  all index blocks are full or no block is free at all, and no block outside the free space changes.
\<close>

theorem free_block_frees:
  assumes "alloc_ok fs" and "valid_block (superblock fs) b" and "b \<notin> free_blocks (abs_fs fs)"
  shows "\<exists>fs'. sfs_fs_free_block fs b = Some (0, fs') \<and> alloc_ok fs' \<and>
    free_blocks (abs_fs fs') = insert b (free_blocks (abs_fs fs)) \<and> a_inode (abs_fs fs') = a_inode (abs_fs fs) \<and>
    (\<forall>c. c \<notin> insert b (free_blocks (abs_fs fs)) \<longrightarrow> a_block (abs_fs fs') c = a_block (abs_fs fs) c)"
  using free_block_ok [OF assms] by blast

theorem free_block_frees_witness:
  "\<exists>fs'. sfs_fs_free_block ex_fs 5 = Some (0, fs') \<and> free_blocks (abs_fs fs') = {3, 5, 6, 7}"
  using free_block_frees [OF ex_alloc_ok(1), of 5] by (auto simp: ex_free_blocks)

text \<open>
  C32. Deallocating an inode makes it and its direct blocks free and keeps every other inode and every
  block in use; what the indirect block lists is not freed.
\<close>

theorem inode_deallocate_frees:
  assumes "inode_alloc_ok fs" and "inode_ok (abs_fs fs) i" and "valid_ino (superblock fs) (inumber i)"
    and "inumber i \<notin> free_inodes (abs_fs fs)"
  shows "\<exists>fs'. sfs_fs_inode_deallocate fs i = Some (0, fs') \<and> inode_alloc_ok fs' \<and>
    free_inodes (abs_fs fs') = insert (inumber i) (free_inodes (abs_fs fs)) \<and>
    free_blocks (abs_fs fs') = free_blocks (abs_fs fs) \<union> direct_blocks i \<and>
    (\<forall>n. n \<noteq> inumber i \<longrightarrow> a_inode (abs_fs fs') n = a_inode (abs_fs fs) n) \<and>
    (\<forall>c. c \<notin> free_blocks (abs_fs fs') \<longrightarrow> a_block (abs_fs fs') c = a_block (abs_fs fs) c)"
proof -
  have "wf_inode i" by (rule inode_okD(1) [OF assms(2)])
  from inode_deallocate_ok [OF assms(1) this assms(3,4) direct_pointers(1) [OF assms(2)]] direct_pointers(3) [OF assms(2)]
  show ?thesis by (auto simp: direct_blocks_def)
qed

theorem inode_deallocate_frees_witness:
  "\<exists>fs'. sfs_fs_inode_deallocate ex_fs ex_file = Some (0, fs') \<and> free_inodes (abs_fs fs') = {2, 3} \<and>
    free_blocks (abs_fs fs') = {3, 5, 6, 7}"
proof -
  have "direct_blocks ex_file = {5}" by (auto simp: direct_blocks_def ex_ptrs)
  then show ?thesis
    using inode_deallocate_frees [OF ex_alloc_ok(2) ex_inode_ok(2)]
    by (auto simp: ex_ptrs ex_free_inodes ex_free_blocks ex_valid_ino)
qed

section \<open>The blocks of a file\<close>

text \<open>
  C33. A file that gets its indirect block takes all 64 pointers of it from whatever the block held
  before: the index is not cleared when it is allocated. Only if the block holds zeros is the file as it was.
\<close>

theorem new_indirect_stale:
  assumes "alloc_ok fs" and "wf_inode i" and "valid_ino (superblock fs) (inumber i)" and "block_pointers i ! SFS_IND_BLOCK = 0"
    and "sfs_fs_allocate_block fs = (Some b, fs1)"
  shows "\<exists>i' fs'. make_indirect fs i = Some (0, i', fs') \<and> block_pointers i' ! SFS_IND_BLOCK = b \<and>
    (\<forall>j. 12 \<le> j \<and> j < 76 \<longrightarrow> fptr (abs_fs fs') i' j = get_u64 (j - 12) (a_block (abs_fs fs1) b)) \<and>
    (inode_ok (abs_fs fs) i \<and> a_block (abs_fs fs1) b = zero_block \<longrightarrow> indexed (abs_fs fs) i (abs_fs fs') i')"
  using assms by (rule make_indirect_stale)

theorem new_indirect_stale_witness:
  "\<exists>i' fs'. make_indirect ex_fs ex_file = Some (0, i', fs') \<and> block_pointers i' ! SFS_IND_BLOCK = 6 \<and>
    fptr (abs_fs fs') i' 75 = 0 \<and> indexed ex_abs ex_file (abs_fs fs') i'"
proof -
  have "free_blocks ex_abs \<noteq> {}" by (simp add: ex_free_blocks)
  then obtain fs1 where 1: "sfs_fs_allocate_block ex_fs = (Some 6, fs1)" "a_block (abs_fs fs1) 6 = zero_block"
    using allocate_block_ok [OF ex_alloc_ok(1)] ex_next_block by auto
  have "valid_ino (superblock ex_fs) (inumber ex_file)" "block_pointers ex_file ! SFS_IND_BLOCK = 0"
    by (simp_all add: ex_valid_ino ex_ptrs)
  from new_indirect_stale [OF ex_alloc_ok(1) ex_wf(2) this 1(1)] 1(2) ex_inode_ok(2) show ?thesis by (auto simp: numeral_2_eq_2)
qed

text \<open>
  C34. Removing a direct block of a file frees the block but leaves the pointer in the inode, so
  the file on disk refers to a free block afterwards.
\<close>

theorem block_remove_dangles:
  assumes "alloc_ok fs" and "inode_ok (abs_fs fs) i" and "unat iblock < 12" and "block_pointers i ! unat iblock \<noteq> 0"
    and "a_inode (abs_fs fs) (inumber i) = i"
  shows "\<exists>fs'. sfs_fs_inode_block_remove fs i iblock = Some (0, fs') \<and> alloc_ok fs' \<and>
    free_blocks (abs_fs fs') = insert (block_pointers i ! unat iblock) (free_blocks (abs_fs fs)) \<and>
    a_inode (abs_fs fs') (inumber i) = i \<and> \<not> inode_ok (abs_fs fs') i"
proof -
  obtain fs' where 1: "sfs_fs_inode_block_remove fs i iblock = Some (0, fs')" "alloc_ok fs'"
    "free_blocks (abs_fs fs') = insert (block_pointers i ! unat iblock) (free_blocks (abs_fs fs))"
    "a_inode (abs_fs fs') = a_inode (abs_fs fs)"
    using block_remove_frees [OF assms(1-4)] by blast
  have "fptr (abs_fs fs') i (unat iblock) = block_pointers i ! unat iblock" using assms(3) by (simp add: fptr_def)
  then have "\<not> inode_ok (abs_fs fs') i"
    using inode_okD(3) [of "abs_fs fs'" i "unat iblock"] assms(4) 1(3) by auto
  then show ?thesis using 1 assms(5) by auto
qed

theorem block_remove_dangles_witness:
  "\<exists>fs'. sfs_fs_inode_block_remove ex_fs ex_file 0 = Some (0, fs') \<and> \<not> inode_ok (abs_fs fs') ex_file"
  using block_remove_dangles [OF ex_alloc_ok(1) ex_inode_ok(2), of 0] by (auto simp: ex_ptrs ex_a_inode)

section \<open>Directories\<close>

text \<open>
  C35. The iterator terminates and returns the next entry of the directory that is in use, with its block and, if
  asked for, its inode, or reports the end when there is none; it changes nothing but the access time.
\<close>

theorem iternext_next:
  assumes "fs_ok fs" and "iter_ok (abs_fs fs) it"
    and "\<forall>k<dsize (it_inode it). dlive (abs_fs fs) (it_inode it) k \<longrightarrow>
      valid_ino (superblock fs) (de_inumber (dslot (abs_fs fs) (it_inode it) k))"
  shows "\<exists>r it' fs'. sfs_dir_iternext fs it w = Some (r, it', fs') \<and> fs_ok fs' \<and> superblock fs' = superblock fs \<and>
    touched (abs_fs fs) (it_inode it) (abs_fs fs') (it_inode it') \<and>
    (case next_live (abs_fs fs) (it_inode it) (iter_pos it) of
       None \<Rightarrow> r = None
     | Some k \<Rightarrow>
         r = Some (0, if w then Some (a_inode (abs_fs fs') (de_inumber (dslot (abs_fs fs) (it_inode it) k))) else None) \<and>
         iter_pos it' = Suc k \<and> cached_block it' = fblock (abs_fs fs) (it_inode it) k)"
  using iternext_ok [OF assms(1,2), of w] assms(3) by (fastforce simp: iter_result_def iter_pos_def split: option.splits)

theorem iternext_next_witness:
  "\<exists>it' fs'. sfs_dir_iternext ex_fs \<lparr>it_inode = ex_root, it_iblock = 0, it_entry = 0, cached_block = ex_data\<rparr> True =
    Some (Some (0, Some ex_file), it', fs') \<and> iter_pos it' = 1"
proof -
  let ?it = "\<lparr>it_inode = ex_root, it_iblock = 0, it_entry = 0, cached_block = ex_data\<rparr>"
  have it: "iter_ok ex_abs ?it" using ex_dir_ok by (simp add: iter_ok_def)
  have z: "dlive ex_abs ex_root k \<longleftrightarrow> k = 0" for k
    using ex_fptr(1) [of ex_root 4 ex_abs k] ex_dslot by (auto simp: dlive_def dslot_def fblock_def ex_ptrs)
  have v: "\<forall>k<dsize (it_inode ?it). dlive ex_abs (it_inode ?it) k \<longrightarrow> valid_ino (superblock ex_fs) (de_inumber (dslot ex_abs (it_inode ?it) k))"
    by (simp add: z ex_dslot ex_valid_ino)
  have "next_live ex_abs ex_root 0 = Some 0" by (subst next_live_rec) (simp add: z ex_dir)
  with iternext_next [OF ex_fs_ok it v, of True] show ?thesis
    by (auto simp: iter_pos_def ex_dslot ex_a_inode ex_ptrs touched_def)
qed

text \<open>
  C36. Linking enters name and inode number in the first entry of the directory that is not in use, or in a new block at its
  end; it keeps every other entry, counts the link in the inode, and changes no other inode and no
  block of another file.
\<close>

theorem dir_link_entry:
  assumes "alloc_ok fs" and "dir_ok (abs_fs fs) d" and "valid_ino (superblock fs) (inumber i)" and "wf_inode i"
    and "inumber i \<noteq> inumber d" and "length nm \<le> 255" and "writable (abs_fs fs) d (vacant_from (abs_fs fs) d 0)"
  shows "\<exists>d' i' fs'. sfs_dir_link fs d nm i = Some (0, d', i', fs') \<and> alloc_ok fs' \<and>
    linked (abs_fs fs) d i (vacant_from (abs_fs fs) d 0) nm (abs_fs fs') d' i'"
  using dir_link_ok [OF assms] by blast

theorem dir_link_entry_witness:
  "\<exists>d' i' fs'. sfs_dir_link ex_fs ex_root [98] ex_spare = Some (0, d', i', fs') \<and>
    dslot (abs_fs fs') d' 1 = \<lparr>de_inumber = 3, de_name = strncpy 256 [98]\<rparr> \<and> dslot (abs_fs fs') d' 0 = dslot ex_abs ex_root 0"
proof -
  have "valid_ino (superblock ex_fs) (inumber ex_spare)" "inumber ex_spare \<noteq> inumber ex_root" "length [98 :: u8] \<le> 255"
    by (simp_all add: ex_valid_ino ex_ptrs)
  from dir_link_entry [OF ex_alloc_ok(1) ex_dir_ok this(1) ex_wf(3) this(2,3) ex_writable(1)] ex_writable(2)
  show ?thesis by (auto simp: linked_def ex_ptrs)
qed

section \<open>File descriptors\<close>

text \<open>
  C37. Allocation hands out a descriptor that is not in use and leaves those in use as they are; its
  number leads back to its slot, and freeing it restores the set of free descriptors.
\<close>

theorem fd_lifecycle:
  assumes "pool_ok p" and "free_fds p \<noteq> {}"
  shows "\<exists>k p'. sfs_filedescriptor_allocate p (Some raw) = Some (Some k, p') \<and> pool_ok p' \<and> \<not> in_use p k \<and> in_use p' k \<and>
    (\<forall>j. in_use p j \<longrightarrow> in_use p' j \<and> get_slot p' j = get_slot p j) \<and>
    sfs_filedescriptor_get_from_fd p' (slot_fd (get_slot p' k)) = Some (Some k) \<and>
    pool_ok (sfs_filedescriptor_free p' k) \<and> free_fds (sfs_filedescriptor_free p' k) = free_fds p"
proof -
  obtain k p' where 1: "sfs_filedescriptor_allocate p (Some raw) = Some (Some k, p')" "pool_ok p'" "k \<in> free_fds p"
    "free_fds p' = free_fds p - {k}" "k < pool_size p'" "slot_fd (get_slot p' k) = int k"
    "\<forall>j<pool_size p. get_slot p' j = get_slot p j"
    using fd_allocate_ok [OF assms, of raw] by blast
  have use: "in_use r j \<longleftrightarrow> j < MAX_FDS \<and> j \<notin> free_fds r" if "pool_ok r" for r j
    using that by (elim pool_okE) (force simp: in_use_def)
  have k: "k < MAX_FDS" "k \<notin> free_fds p'" using 1(4,5) pool_size_max [OF 1(2)] by auto
  have "in_use p' j \<and> get_slot p' j = get_slot p j" if "in_use p j" for j
    using that use [OF assms(1)] use [OF 1(2)] 1(3,4,7) by (auto simp: in_use_def)
  then show ?thesis
    using 1 k use fd_free_ok(1,2) [OF 1(2) k] assms(1)
    by (intro exI [of _ k] exI [of _ p']) (auto simp: get_from_fd_ok)
qed

theorem fd_lifecycle_witness:
  "\<exists>k p'. sfs_filedescriptor_allocate ex_pool (Some fresh_slab) = Some (Some k, p') \<and> in_use p' k \<and>
    sfs_filedescriptor_get_from_fd p' (slot_fd (get_slot p' k)) = Some (Some k)"
  using fd_lifecycle [OF ex_pool_ok(1), of fresh_slab] by (simp add: ex_pool_ok) blast

text \<open>
  C38. From a new pool \<open>k\<close> descriptors can be allocated in a row exactly if \<open>k\<close> is at most 2147483632, the
  multiple of 4088 the numbers of an \<^verbatim>\<open>int\<close> have room for; the numbers handed out are 0, 1, 2 and so on, in this order.
\<close>

theorem fd_limit:
  assumes "sfs_filedescriptor_pool_init malloc_pool malloc_slab addr = Some p"
  shows "((\<exists>ks p'. alloc_many fd_alloc k p = Some (ks, p')) \<longleftrightarrow> k \<le> 2147483632) \<and>
    (\<forall>ks p'. alloc_many fd_alloc k p = Some (ks, p') \<longrightarrow> ks = [0..<k] \<and> (\<forall>j\<in>set ks. int j \<le> INT_MAX))"
proof -
  note i = pool_init_ok [OF assms]
  have c: "finite (free_fds p)" "card (free_fds p) = 2147483632" by (simp_all add: i(2))
  note e = fds_alloc.alloc_many_exact [OF i(1) c(1), of k, unfolded c(2)]
  have "ks = [0..<k] \<and> (\<forall>j\<in>set ks. int j \<le> INT_MAX)" if a: "alloc_many fd_alloc k p = Some (ks, p')" for ks p'
    using alloc_in_order [OF in_order_init [OF assms], of k] a e by auto
  with e show ?thesis by blast
qed

theorem fd_limit_witness:
  "(\<exists>p'. alloc_many fd_alloc 5000 ex_pool = Some ([0..<5000], p')) \<and> alloc_many fd_alloc 2147483633 ex_pool = None"
proof
  show "\<exists>p'. alloc_many fd_alloc 5000 ex_pool = Some ([0..<5000], p')" using fd_limit [OF ex_pool_init, of 5000] by fastforce
  show "alloc_many fd_alloc 2147483633 ex_pool = None"
    using fd_limit [OF ex_pool_init, of 2147483633] by (cases "alloc_many fd_alloc 2147483633 ex_pool") auto
qed

text \<open>
  C39. The test program \<^verbatim>\<open>filedescriptor_test.c\<close> passes when memory does not run out: it prints ten zeros, its
  assertions on a million descriptors hold, and of the 245 slabs it needs 244 are given back, the last one is not.
\<close>

theorem pool_test_passes:
  assumes "\<And>q. mem q \<noteq> None"
  shows "\<exists>freed p. test_main True (Some raw) addr mem = Some (concat (replicate 10 [CHR ''0'', NEWLINE]), freed, p) \<and>
    length freed = 244 \<and> length (slabs p) = 1"
  using test_main_ok [where mem = mem, OF assms] .

theorem pool_test_passes_witness:
  "\<exists>text freed p. test_main True (Some fresh_slab) (\<lambda>k. 0) (\<lambda>q. Some fresh_slab) = Some (text, freed, p) \<and> length (slabs p) = 1"
  using pool_test_passes [of "\<lambda>q. Some fresh_slab" fresh_slab "\<lambda>k. 0"] by auto

section \<open>The log\<close>

text \<open>
  C40. What is logged can be read back: the text that the log gets for an inode determines every field of it, that for a
  connection every field but \<^verbatim>\<open>reserved\<close>, that for the handle of a file every field but \<^verbatim>\<open>flush\<close> and \<^verbatim>\<open>padding\<close>, which are not
  printed, and that for the attributes of a file the size of the file.
\<close>

theorem log_roundtrip:
  assumes "context_on_line at" and "wf_inode i"
    and "on_line (atime_name nms, [])" and "on_line (mtime_name nms, [])" and "on_line (ctime_name nms, [])"
  shows "(\<exists>text. log_inode_impl at i (Some t) = Some (t @ text) \<and> read_logged_inode text = i) \<and>
    (\<exists>text. log_conn_impl at conn (Some t) = Some (t @ text) \<and>
       read_logged_conn conn0 text = conn\<lparr>reserved := reserved conn0\<rparr>) \<and>
    (\<exists>text. log_fi_impl at fi (Some t) = Some (t @ text) \<and>
       read_logged_fi fi0 text = fi\<lparr>fi_flush := fi_flush fi0, fi_padding := fi_padding fi0\<rparr>) \<and>
    (\<exists>text. log_stat_impl nms at si (Some t) = Some (t @ text) \<and> read_signed (logged_values text ! 7) = sint (st_size si))"
  using log_inode_text [OF assms(1,2)] log_conn_text [OF assms(1)] log_fi_text [OF assms(1)] log_stat_values [OF assms(1,3-5)]
  by (intro conjI) (simp_all add: Let_def, blast)

theorem log_roundtrip_witness:
  "\<exists>text. log_inode_impl (''sfs.c'', 567, ''sfs_open'') ex_file (Some ''started'') = Some (''started'' @ text) \<and>
    read_logged_inode text = ex_file"
proof -
  let ?at = "(''sfs.c'', 567 :: u32, ''sfs_open'')"
  let ?names = "\<lparr>pointer_text = (\<lambda>p. []), atime_name = ''st_atim.tv_sec'', mtime_name = ''st_mtim.tv_sec'', ctime_name = ''st_ctim.tv_sec'', mismatched_int = ucast\<rparr>"
  have "context_on_line ?at" "on_line (atime_name ?names, [])" "on_line (mtime_name ?names, [])" "on_line (ctime_name ?names, [])"
    by (simp_all add: context_on_line_def on_line_def)
  from log_roundtrip [OF this(1) ex_wf(2) this(2-4)] show ?thesis by blast
qed

end
